(* ===== verification/Go_Prelude.thy ===== *)
theory Go_Prelude
  imports "HOL-Library.Word"
begin

text \<open>
  What the Go code uses of its language and of its byte-level library, as the rest of the
  development needs it: machine words, results that can be a value, an error value or a panic,
  slices and their bounds checks, \<^verbatim>\<open>io.ReadFull\<close>, and the buffer-writing idiom
  \<^verbatim>\<open>n += x.MarshalTo(buf[n:])\<close> of every encoder of the repository.
\<close>

unbundle bit_operations_syntax

section \<open>Words and results\<close>

type_synonym byte = "8 word"
type_synonym u64 = "64 word"
type_synonym bytes = "8 word list"

lemma unat_suc: "(i :: u64) \<noteq> - 1 \<Longrightarrow> unat (i + 1) = Suc (unat i)"
  using unatSuc [of i] by (metis add.commute add_eq_0_iff minus_equation_iff)

text \<open>
  A Go call returns a value (\<open>Ret\<close>), returns a non-nil error (\<open>Fail\<close>) or panics.
\<close>

datatype ('e, 'a) outcome = Ret 'a | Fail 'e | Panic

fun obind :: "('e, 'a) outcome \<Rightarrow> ('a \<Rightarrow> ('e, 'b) outcome) \<Rightarrow> ('e, 'b) outcome" where
  "obind (Ret x) f = f x"
| "obind (Fail e) f = Fail e"
| "obind Panic f = Panic"

text \<open>\<open>fmt.Errorf("...: %w", err)\<close>: wraps the error of a call.\<close>

fun omap_err :: "('e \<Rightarrow> 'f) \<Rightarrow> ('e, 'a) outcome \<Rightarrow> ('f, 'a) outcome" where
  "omap_err w (Ret x) = Ret x"
| "omap_err w (Fail e) = Fail (w e)"
| "omap_err w Panic = Panic"

named_theorems outcome_eqs \<open>when a call sequence returns, fails or panics\<close>

lemma obind_eq_Ret [outcome_eqs]:
  "obind m f = Ret y \<longleftrightarrow> (\<exists>x. m = Ret x \<and> f x = Ret y)"
  by (cases m) auto

lemma obind_eq_Panic [outcome_eqs]:
  "obind m f = Panic \<longleftrightarrow> m = Panic \<or> (\<exists>x. m = Ret x \<and> f x = Panic)"
  by (cases m) auto

lemma obind_eq_Fail [outcome_eqs]:
  "obind m f = Fail e \<longleftrightarrow> m = Fail e \<or> (\<exists>x. m = Ret x \<and> f x = Fail e)"
  by (cases m) auto

lemma obind_cong [fundef_cong]:
  "m = m' \<Longrightarrow> (\<And>x. m' = Ret x \<Longrightarrow> f x = f' x) \<Longrightarrow> obind m f = obind m' f'"
  by (cases m') auto

lemma omap_err_eq_Ret [outcome_eqs]: "omap_err w m = Ret x \<longleftrightarrow> m = Ret x"
  by (cases m) auto

lemma omap_err_eq_Panic [outcome_eqs]: "omap_err w m = Panic \<longleftrightarrow> m = Panic"
  by (cases m) auto

section \<open>Slices and the runtime's checks\<close>

text \<open>
  \<open>slice_from buf n\<close> is \<^verbatim>\<open>buf[n:]\<close>, \<open>slice_to buf n\<close> is \<^verbatim>\<open>buf[:n]\<close>,
  with a Go \<^verbatim>\<open>int\<close> bound. A bound outside the slice is a run-time panic. (Go checks the
  upper bound of \<^verbatim>\<open>buf[:n]\<close> against the capacity; the code only slices after comparing
  with the length, so a bound between length and capacity does not occur.)
\<close>

definition slice_from :: "'a list \<Rightarrow> int \<Rightarrow> ('e, 'a list) outcome" where
  "slice_from buf n = (if 0 \<le> n \<and> n \<le> int (length buf) then Ret (drop (nat n) buf) else Panic)"

definition slice_to :: "'a list \<Rightarrow> int \<Rightarrow> ('e, 'a list) outcome" where
  "slice_to buf n = (if 0 \<le> n \<and> n \<le> int (length buf) then Ret (take (nat n) buf) else Panic)"

definition slice :: "'a list \<Rightarrow> int \<Rightarrow> int \<Rightarrow> ('e, 'a list) outcome" where
  "slice buf lo hi =
     (if 0 \<le> lo \<and> lo \<le> hi \<and> hi \<le> int (length buf)
      then Ret (take (nat (hi - lo)) (drop (nat lo) buf)) else Panic)"

lemma slice_from_nat [simp]:
  "slice_from buf (int n) = (if n \<le> length buf then Ret (drop n buf) else Panic)"
  by (simp add: slice_from_def)

lemma slice_to_nat [simp]:
  "slice_to buf (int n) = (if n \<le> length buf then Ret (take n buf) else Panic)"
  by (simp add: slice_to_def)

lemma slice_append [simp]:
  "slice (a @ b @ c) (int (length a)) (int (length a) + int (length b)) = Ret b"
  by (simp add: slice_def)

lemma slice_from_append [simp]: "slice_from (a @ b) (int (length a)) = Ret b"
  by simp

text \<open>
  \<^verbatim>\<open>make([]T, n)\<close> with elements of \<open>w\<close> bytes panics when the allocation exceeds the
  runtime's address-space limit (\<^verbatim>\<open>maxAlloc\<close>, $2^{48}$ bytes on a 64-bit Linux host).
\<close>

definition max_alloc :: nat where
  "max_alloc = 2 ^ 48"

definition go_make :: "nat \<Rightarrow> u64 \<Rightarrow> ('e, nat) outcome" where
  "go_make w n = (if w * unat n \<le> max_alloc then Ret (unat n) else Panic)"

text \<open>
  A value that lives in memory is no longer than an allocation can be, so its length fits a Go
  \<^verbatim>\<open>int\<close> and survives the conversions to and from \<^verbatim>\<open>uint64\<close>.
\<close>

definition in_memory :: "'a list \<Rightarrow> bool" where
  "in_memory xs \<longleftrightarrow> length xs \<le> max_alloc"

definition u64_of_len :: "nat \<Rightarrow> u64" where
  "u64_of_len n = word_of_nat n"

lemma unat_u64_of_len: "n < 2 ^ 64 \<Longrightarrow> unat (u64_of_len n) = n"
  by (simp add: u64_of_len_def unsigned_of_nat take_bit_nat_eq_self)

lemma sint_u64_of_len:
  assumes "n < 2 ^ 63"
  shows "sint (u64_of_len n) = int n"
proof -
  have "uint (u64_of_len n) = int n"
    using assms by (simp add: u64_of_len_def unsigned_of_nat take_bit_nat_eq_self)
  then have "sint (u64_of_len n) = signed_take_bit 63 (int n)"
    by (simp add: sint_uint)
  also have "\<dots> = int n"
    using assms by (intro signed_take_bit_int_eq_self) auto
  finally show ?thesis .
qed

lemma uint_u64_of_len: "n < 2 ^ 63 \<Longrightarrow> uint (u64_of_len n) = int n"
  by (simp add: u64_of_len_def unsigned_of_nat take_bit_nat_eq_self)

lemma u64_of_len_unat [simp]: "u64_of_len (unat v) = v"
  by (simp add: u64_of_len_def)

text \<open>The values a conversion to \<^verbatim>\<open>int\<close> turns negative are those of $2^{63}$ and above.\<close>

lemma sint_neg_uint:
  fixes v :: u64
  assumes "sint v < 0"
  shows "2 ^ 63 \<le> uint v"
proof (rule ccontr)
  assume "\<not> 2 ^ 63 \<le> uint v"
  then have "int (unat v) < int (2 ^ 63)" by simp
  then have "unat v < 2 ^ 63" by (simp only: of_nat_less_iff)
  from sint_u64_of_len [OF this] assms show False by simp
qed

section \<open>Reading from an \<open>io.Reader\<close>\<close>

text \<open>
  A reader is the bytes it will still deliver. \<^verbatim>\<open>io.ReadFull\<close> fails with
  \<^verbatim>\<open>io.EOF\<close> when nothing could be read and with \<^verbatim>\<open>io.ErrUnexpectedEOF\<close> when the
  stream ends part-way.
\<close>

datatype io_error = EOF | UnexpectedEOF

definition io_ReadFull :: "nat \<Rightarrow> bytes \<Rightarrow> (io_error, bytes \<times> bytes) outcome" where
  "io_ReadFull n r =
     (if n \<le> length r then Ret (take n r, drop n r)
      else if r = [] then Fail EOF else Fail UnexpectedEOF)"

lemma io_ReadFull_append [simp]:
  "length xs = n \<Longrightarrow> io_ReadFull n (xs @ r) = Ret (xs, r)"
  by (simp add: io_ReadFull_def)

lemma io_ReadFull_Ret:
  "io_ReadFull n r = Ret (xs, r') \<longleftrightarrow> n \<le> length r \<and> xs = take n r \<and> r' = drop n r"
  by (auto simp: io_ReadFull_def)

lemma io_ReadFull_no_panic [simp]: "io_ReadFull n r \<noteq> Panic"
  by (simp add: io_ReadFull_def)

section \<open>Writing into a buffer\<close>

text \<open>
  A marshalling method takes the slice it writes to and returns the number of bytes written.
  As state passing: the slice comes back with its new contents. \<open>w_put bs\<close> is a run of index
  assignments \<^verbatim>\<open>buf[0] = ...; buf[1] = ...\<close> (a panic when the slice is shorter),
  \<open>w_copy bs\<close> is the built-in \<^verbatim>\<open>copy(buf, bs)\<close>, and \<open>w_seq\<close> is
  \<^verbatim>\<open>n := w1(buf); n += w2(buf[n:])\<close>.
\<close>

type_synonym 'e wr = "bytes \<Rightarrow> ('e, bytes \<times> nat) outcome"

definition w_put :: "bytes \<Rightarrow> 'e wr" where
  "w_put bs buf =
     (if length bs \<le> length buf then Ret (bs @ drop (length bs) buf, length bs) else Panic)"

definition w_copy :: "bytes \<Rightarrow> 'e wr" where
  "w_copy bs buf =
     (let k = min (length bs) (length buf) in Ret (take k bs @ drop k buf, k))"

definition w_seq :: "'e wr \<Rightarrow> 'e wr \<Rightarrow> 'e wr" where
  "w_seq w1 w2 buf =
     obind (w1 buf) (\<lambda>(buf1, n).
     obind (slice_from buf1 (int n)) (\<lambda>tail1.
     obind (w2 tail1) (\<lambda>(tail2, m).
     Ret (take n buf1 @ tail2, n + m))))"

definition w_nil :: "'e wr" where
  "w_nil buf = Ret (buf, 0)"

text \<open>
  \<open>writes w bs\<close>: given room, \<open>w\<close> puts exactly \<open>bs\<close> at the front of the slice, leaves the
  rest alone and reports the length.
\<close>

definition writes :: "'e wr \<Rightarrow> bytes \<Rightarrow> bool" where
  "writes w bs \<longleftrightarrow>
     (\<forall>buf. length bs \<le> length buf \<longrightarrow>
            w buf = Ret (bs @ drop (length bs) buf, length bs))"

named_theorems wire_intros \<open>what each writer puts into its buffer\<close>

lemma writes_put [wire_intros]: "writes (w_put bs) bs"
  by (simp add: writes_def w_put_def)

lemma writes_copy [wire_intros]: "writes (w_copy bs) bs"
  by (simp add: writes_def w_copy_def Let_def)

lemma writes_nil [wire_intros]: "writes w_nil []"
  by (simp add: writes_def w_nil_def)

lemma writes_seq [wire_intros]:
  assumes "writes w1 a" "writes w2 b"
  shows "writes (w_seq w1 w2) (a @ b)"
  unfolding writes_def
proof (intro allI impI)
  fix buf :: bytes
  assume len: "length (a @ b) \<le> length buf"
  with assms(1) have w1: "w1 buf = Ret (a @ drop (length a) buf, length a)"
    by (simp add: writes_def)
  have "length b \<le> length (drop (length a) buf)"
    using len by simp
  with assms(2) have w2: "w2 (drop (length a) buf)
      = Ret (b @ drop (length b) (drop (length a) buf), length b)"
    unfolding writes_def by blast
  show "w_seq w1 w2 buf = Ret ((a @ b) @ drop (length (a @ b)) buf, length (a @ b))"
    using len by (simp add: w_seq_def w1 w2 add.commute)
qed

lemma writes_fresh:
  assumes "writes w bs"
  shows "w (replicate (length bs) 0) = Ret (bs, length bs)"
  using assms by (simp add: writes_def)

section \<open>Encoders with a declared size\<close>

text \<open>
  The contract every encoder of the repository offers its callers: \<^verbatim>\<open>MarshalSize\<close> is the
  length of the encoding and \<^verbatim>\<open>MarshalTo\<close> writes exactly the encoding. It is what makes
  \<^verbatim>\<open>buf := make([]byte, m.marshalSize()); m.marshalTo(buf); return buf\<close> correct.
\<close>

locale encoder =
  fixes marshal_size :: "'a \<Rightarrow> nat"
    and marshal_to :: "'a \<Rightarrow> 'e wr"
    and encoding :: "'a \<Rightarrow> bytes"
  assumes size_encoding: "marshal_size x = length (encoding x)"
    and writes_encoding: "writes (marshal_to x) (encoding x)"
begin

lemma marshal_fresh:
  "marshal_to x (replicate (marshal_size x) 0) = Ret (encoding x, marshal_size x)"
  using writes_fresh [OF writes_encoding] by (simp add: size_encoding)

lemma marshal_in_place:
  "marshal_size x \<le> length buf \<Longrightarrow>
   marshal_to x buf = Ret (encoding x @ drop (marshal_size x) buf, marshal_size x)"
  using writes_encoding [of x] by (simp add: writes_def size_encoding)

end

text \<open>
  A codec also has a decoder that recovers a well-formed value from the front of a buffer,
  whatever follows, and says how much it consumed. Encodings are then prefix-free.
\<close>

locale codec = encoder marshal_size marshal_to encoding
  for marshal_size :: "'a \<Rightarrow> nat"
    and marshal_to :: "'a \<Rightarrow> 'e wr"
    and encoding :: "'a \<Rightarrow> bytes" +
  fixes unmarshal :: "bytes \<Rightarrow> ('e, 'a \<times> nat) outcome"
    and wf_value :: "'a \<Rightarrow> bool"
  assumes unmarshal_encoding:
    "wf_value x \<Longrightarrow> unmarshal (encoding x @ rest) = Ret (x, length (encoding x))"
begin

lemma unmarshal_exact: "wf_value x \<Longrightarrow> unmarshal (encoding x) = Ret (x, marshal_size x)"
  using unmarshal_encoding [of x "[]"] by (simp add: size_encoding)

lemma unmarshal_marshal:
  "wf_value x \<Longrightarrow>
   obind (marshal_to x (replicate (marshal_size x) 0)) (\<lambda>(buf, _). unmarshal buf)
   = Ret (x, marshal_size x)"
  by (simp add: marshal_fresh unmarshal_exact)

lemma encoding_prefix_free:
  assumes "wf_value x" "wf_value y" "encoding x @ r = encoding y @ s"
  shows "x = y \<and> r = s"
proof -
  have "Ret (x, length (encoding x)) = (Ret (y, length (encoding y)) :: ('e, 'a \<times> nat) outcome)"
    using unmarshal_encoding [of x r] unmarshal_encoding [of y s] assms by simp
  with assms show ?thesis by simp
qed

end

end
