(* ===== verification/Moq_Varint.thy ===== *)
theory Moq_Varint
  imports Go_Prelude
begin

text \<open>
  \<^verbatim>\<open>internal/protocols/moq/varint\<close>: the variable-length integers every MoQ structure is made
  of, with both decoders (\<open>Varint.Read\<close> from a stream, \<open>Varint.Unmarshal\<close> from a buffer) and
  the encoder.
\<close>

unbundle bit_operations_syntax

section \<open>Errors of the MoQ packages\<close>

datatype moq_error =
    IoErr io_error
  | NotEnoughBytes
  | UnsupportedPrefix byte
  | NotEnoughForParam
  | UnsupportedAlias u64
  | UnsupportedParam u64
  | AuthTokenErr moq_error
  | NotEnoughForProperty
  | NotEnoughForNamespace
  | NotEnoughForTrackName
  | NotEnoughForReason
  | UnknownMessage u64
  | UnexpectedStatus u64
  | PayloadTooLarge u64
  | UnexpectedSecondObject

section \<open>Decoding\<close>

text \<open>
  The first switch of both decoders: the number of bytes announced by the first one
  (\<open>None\<close> is the \<^verbatim>\<open>default\<close> branch).
\<close>

definition varint_prefix_size :: "byte \<Rightarrow> nat option" where
  "varint_prefix_size b =
     (if b AND 0x80 = 0 then Some 1
      else if b AND 0xC0 = 0x80 then Some 2
      else if b AND 0xE0 = 0xC0 then Some 3
      else if b AND 0xF0 = 0xE0 then Some 4
      else if b AND 0xF8 = 0xF0 then Some 5
      else if b AND 0xFC = 0xF8 then Some 6
      else if b AND 0xFE = 0xFC then Some 7
      else if b = 0xFE then Some 8
      else if b = 0xFF then Some 9
      else None)"

text \<open>The second switch: the value from the first byte and the following ones.\<close>

abbreviation v64 :: "byte \<Rightarrow> u64" where
  "v64 b \<equiv> ucast b"

definition varint_value :: "nat \<Rightarrow> byte \<Rightarrow> bytes \<Rightarrow> u64" where
  "varint_value sz b r =
     (if sz = 2 then push_bit 8 (v64 (b AND 0x3F)) OR v64 (r ! 0)
      else if sz = 3 then
        push_bit 16 (v64 (b AND 0x1F)) OR push_bit 8 (v64 (r ! 0)) OR v64 (r ! 1)
      else if sz = 4 then
        push_bit 24 (v64 (b AND 0x0F)) OR push_bit 16 (v64 (r ! 0)) OR
        push_bit 8 (v64 (r ! 1)) OR v64 (r ! 2)
      else if sz = 5 then
        push_bit 32 (v64 (b AND 0x07)) OR push_bit 24 (v64 (r ! 0)) OR
        push_bit 16 (v64 (r ! 1)) OR push_bit 8 (v64 (r ! 2)) OR v64 (r ! 3)
      else if sz = 6 then
        push_bit 40 (v64 (b AND 0x03)) OR push_bit 32 (v64 (r ! 0)) OR
        push_bit 24 (v64 (r ! 1)) OR push_bit 16 (v64 (r ! 2)) OR
        push_bit 8 (v64 (r ! 3)) OR v64 (r ! 4)
      else if sz = 7 then
        push_bit 48 (v64 (b AND 0x01)) OR push_bit 40 (v64 (r ! 0)) OR
        push_bit 32 (v64 (r ! 1)) OR push_bit 24 (v64 (r ! 2)) OR
        push_bit 16 (v64 (r ! 3)) OR push_bit 8 (v64 (r ! 4)) OR v64 (r ! 5)
      else if sz = 8 then
        push_bit 48 (v64 (r ! 0)) OR push_bit 40 (v64 (r ! 1)) OR
        push_bit 32 (v64 (r ! 2)) OR push_bit 24 (v64 (r ! 3)) OR
        push_bit 16 (v64 (r ! 4)) OR push_bit 8 (v64 (r ! 5)) OR v64 (r ! 6)
      else
        push_bit 56 (v64 (r ! 0)) OR push_bit 48 (v64 (r ! 1)) OR
        push_bit 40 (v64 (r ! 2)) OR push_bit 32 (v64 (r ! 3)) OR
        push_bit 24 (v64 (r ! 4)) OR push_bit 16 (v64 (r ! 5)) OR
        push_bit 8 (v64 (r ! 6)) OR v64 (r ! 7))"

definition varint_Read :: "bytes \<Rightarrow> (moq_error, u64 \<times> bytes) outcome" where
  "varint_Read r =
     obind (omap_err IoErr (io_ReadFull 1 r)) (\<lambda>(first, r1).
       let b = hd first in
       case varint_prefix_size b of
         None \<Rightarrow> Fail (UnsupportedPrefix b)
       | Some sz \<Rightarrow>
           if sz = 1 then Ret (ucast b, r1)
           else obind (omap_err IoErr (io_ReadFull (sz - 1) r1)) (\<lambda>(rest, r2).
             Ret (varint_value sz b rest, r2)))"

definition varint_Unmarshal :: "bytes \<Rightarrow> (moq_error, u64 \<times> nat) outcome" where
  "varint_Unmarshal buf =
     (case buf of
        [] \<Rightarrow> Fail NotEnoughBytes
      | b # rest \<Rightarrow>
          (case varint_prefix_size b of
             None \<Rightarrow> Fail (UnsupportedPrefix b)
           | Some sz \<Rightarrow>
               if sz = 1 then Ret (ucast b, 1)
               else if length buf < sz then Fail NotEnoughBytes
               else Ret (varint_value sz b rest, sz)))"

section \<open>Encoding\<close>

definition varint_MarshalSize :: "u64 \<Rightarrow> nat" where
  "varint_MarshalSize v =
     (if v < 2 ^ 7 then 1 else if v < 2 ^ 14 then 2 else if v < 2 ^ 21 then 3
      else if v < 2 ^ 28 then 4 else if v < 2 ^ 35 then 5 else if v < 2 ^ 42 then 6
      else if v < 2 ^ 49 then 7 else if v < 2 ^ 56 then 8 else 9)"

abbreviation b8 :: "u64 \<Rightarrow> byte" where
  "b8 v \<equiv> ucast v"

text \<open>The bytes the branches of \<open>MarshalTo\<close> assign to \<^verbatim>\<open>buf[0]\<close>, \<^verbatim>\<open>buf[1]\<close>, ...\<close>

definition varint_bytes :: "u64 \<Rightarrow> bytes" where
  "varint_bytes v =
     (if v < 2 ^ 7 then [b8 v]
      else if v < 2 ^ 14 then [0x80 OR b8 (drop_bit 8 v), b8 v]
      else if v < 2 ^ 21 then [0xC0 OR b8 (drop_bit 16 v), b8 (drop_bit 8 v), b8 v]
      else if v < 2 ^ 28 then
        [0xE0 OR b8 (drop_bit 24 v), b8 (drop_bit 16 v), b8 (drop_bit 8 v), b8 v]
      else if v < 2 ^ 35 then
        [0xF0 OR b8 (drop_bit 32 v), b8 (drop_bit 24 v), b8 (drop_bit 16 v),
         b8 (drop_bit 8 v), b8 v]
      else if v < 2 ^ 42 then
        [0xF8 OR b8 (drop_bit 40 v), b8 (drop_bit 32 v), b8 (drop_bit 24 v),
         b8 (drop_bit 16 v), b8 (drop_bit 8 v), b8 v]
      else if v < 2 ^ 49 then
        [0xFC OR b8 (drop_bit 48 v), b8 (drop_bit 40 v), b8 (drop_bit 32 v),
         b8 (drop_bit 24 v), b8 (drop_bit 16 v), b8 (drop_bit 8 v), b8 v]
      else if v < 2 ^ 56 then
        [0xFE, b8 (drop_bit 48 v), b8 (drop_bit 40 v), b8 (drop_bit 32 v),
         b8 (drop_bit 24 v), b8 (drop_bit 16 v), b8 (drop_bit 8 v), b8 v]
      else
        [0xFF, b8 (drop_bit 56 v), b8 (drop_bit 48 v), b8 (drop_bit 40 v), b8 (drop_bit 32 v),
         b8 (drop_bit 24 v), b8 (drop_bit 16 v), b8 (drop_bit 8 v), b8 v])"

definition varint_MarshalTo :: "u64 \<Rightarrow> moq_error wr" where
  "varint_MarshalTo v = w_put (varint_bytes v)"

definition varint_Marshal :: "u64 \<Rightarrow> (moq_error, bytes) outcome" where
  "varint_Marshal v =
     obind (varint_MarshalTo v (replicate (varint_MarshalSize v) 0)) (\<lambda>(buf, _). Ret buf)"

section \<open>Bit-level facts\<close>

lemma bit_lt_exp:
  fixes v :: "'a::len word"
  assumes "v < 2 ^ k" "bit v n"
  shows "n < k"
proof (rule ccontr)
  assume "\<not> n < k"
  have "k < LENGTH('a)" using assms \<open>\<not> n < k\<close> bit_imp_le_length by fastforce
  then have "take_bit k v = v"
    using assms(1) by (metis less_mask_eq take_bit_eq_mask)
  with assms(2) have "bit (take_bit k v) n" by metis
  with \<open>\<not> n < k\<close> show False by (simp add: bit_take_bit_iff)
qed

lemma byte_eq_iff:
  fixes a b :: byte
  shows "a = b \<longleftrightarrow> bit a 0 = bit b 0 \<and> bit a 1 = bit b 1 \<and> bit a 2 = bit b 2 \<and>
    bit a 3 = bit b 3 \<and> bit a 4 = bit b 4 \<and> bit a 5 = bit b 5 \<and> bit a 6 = bit b 6 \<and>
    bit a 7 = bit b 7" (is "_ \<longleftrightarrow> ?bits")
proof
  assume bits: ?bits
  show "a = b"
  proof (rule bit_word_eqI)
    fix n assume "n < LENGTH(8)"
    then consider "n = 0" | "n = 1" | "n = 2" | "n = 3" | "n = 4" | "n = 5" | "n = 6" | "n = 7"
      by fastforce
    then show "bit a n = bit b n" by cases (use bits in simp_all)
  qed
qed simp

lemma low_bits:
  fixes x :: byte
  assumes "x < 2 ^ k" "k \<le> n"
  shows "\<not> bit x n"
  using bit_lt_exp [OF assms(1)] assms(2) by fastforce

text \<open>The \<^verbatim>\<open>default\<close> branch of the first switch is never taken.\<close>

lemma varint_prefix_size_total: "\<exists>k. varint_prefix_size b = Some k \<and> 1 \<le> k \<and> k \<le> 9"
  by (simp add: varint_prefix_size_def byte_eq_iff bit_simps)

lemma prefix_1: "x < 2 ^ 7 \<Longrightarrow> varint_prefix_size x = Some 1"
  by (simp add: varint_prefix_size_def byte_eq_iff bit_simps low_bits [of x 7])

lemma prefix_2: "x < 2 ^ 6 \<Longrightarrow> varint_prefix_size (0x80 OR x) = Some 2"
  by (simp add: varint_prefix_size_def byte_eq_iff bit_simps low_bits [of x 6])

lemma prefix_3: "x < 2 ^ 5 \<Longrightarrow> varint_prefix_size (0xC0 OR x) = Some 3"
  by (simp add: varint_prefix_size_def byte_eq_iff bit_simps low_bits [of x 5])

lemma prefix_4: "x < 2 ^ 4 \<Longrightarrow> varint_prefix_size (0xE0 OR x) = Some 4"
  by (simp add: varint_prefix_size_def byte_eq_iff bit_simps low_bits [of x 4])

lemma prefix_5: "x < 2 ^ 3 \<Longrightarrow> varint_prefix_size (0xF0 OR x) = Some 5"
  by (simp add: varint_prefix_size_def byte_eq_iff bit_simps low_bits [of x 3])

lemma prefix_6: "x < 2 ^ 2 \<Longrightarrow> varint_prefix_size (0xF8 OR x) = Some 6"
  by (simp add: varint_prefix_size_def byte_eq_iff bit_simps low_bits [of x 2])

lemma prefix_7: "x < 2 ^ 1 \<Longrightarrow> varint_prefix_size (0xFC OR x) = Some 7"
  by (simp add: varint_prefix_size_def byte_eq_iff bit_simps low_bits [of x 1])

lemma prefix_8: "varint_prefix_size 0xFE = Some 8"
  by (simp add: varint_prefix_size_def)

lemma prefix_9: "varint_prefix_size 0xFF = Some 9"
  by (simp add: varint_prefix_size_def)

lemma b8_drop_lt:
  fixes v :: u64
  assumes "v < 2 ^ (k + j)" "j \<le> 7"
  shows "b8 (drop_bit k v) < 2 ^ j"
proof -
  have "take_bit j (b8 (drop_bit k v)) = b8 (drop_bit k v)"
    by (rule bit_word_eqI)
      (use assms(2) in \<open>auto simp: bit_simps dest: bit_lt_exp [OF assms(1)]\<close>)
  moreover have "take_bit j (b8 (drop_bit k v)) < 2 ^ j"
    unfolding take_bit_eq_mask by (rule and_mask_less') (use assms(2) in simp)
  ultimately show ?thesis by metis
qed


lemma mask_low:
  "(0x80 OR x) AND 0x3F = take_bit 6 x" "(0xC0 OR x) AND 0x1F = take_bit 5 x"
  "(0xE0 OR x) AND 0x0F = take_bit 4 x" "(0xF0 OR x) AND 0x07 = take_bit 3 x"
  "(0xF8 OR x) AND 0x03 = take_bit 2 x" "(0xFC OR x) AND 0x01 = take_bit 1 (x :: byte)"
  by (simp_all add: byte_eq_iff bit_simps bit_0 even_and_iff even_or_iff)

text \<open>Shifting the bytes of \<open>v\<close> back into place rebuilds it from the low end.\<close>

lemma join_byte:
  fixes v :: u64
  assumes "j \<le> 8"
  shows "push_bit k (take_bit j (drop_bit k v)) OR take_bit k v = take_bit (k + j) v"
proof (rule bit_word_eqI)
  fix n assume "n < LENGTH(64)"
  then show "bit (push_bit k (take_bit j (drop_bit k v)) OR take_bit k v) n
      = bit (take_bit (k + j) v) n"
    by (cases "n < k") (use assms in \<open>auto simp: bit_simps\<close>)
qed

lemma v64_b8: "v64 (b8 v) = take_bit 8 v"
  by (rule bit_word_eqI) (simp add: bit_simps)

lemma v64_take_b8: "j \<le> 8 \<Longrightarrow> v64 (take_bit j (b8 v)) = take_bit j v"
  by (rule bit_word_eqI) (auto simp: bit_simps)

lemma take_bit_small: "v < 2 ^ k \<Longrightarrow> take_bit k v = (v :: u64)"
  by (rule bit_word_eqI) (auto simp: bit_simps dest: bit_lt_exp)

lemmas join_bytes = v64_b8 v64_take_b8 v64_take_b8 [of 1, simplified]
  join_byte [of 8 8, simplified] join_byte [of 8 16, simplified] join_byte [of 8 24, simplified]
  join_byte [of 8 32, simplified] join_byte [of 8 40, simplified] join_byte [of 8 48, simplified]
  join_byte [of 8 56, simplified] join_byte [of 6 8, simplified] join_byte [of 5 16, simplified]
  join_byte [of 4 24, simplified] join_byte [of 3 32, simplified] join_byte [of 2 40, simplified]
  join_byte [of 1 48, simplified]

text \<open>Every branch of the second switch undoes the corresponding branch of \<open>MarshalTo\<close>.\<close>

lemma value_2:
  "v < 2 ^ 14 \<Longrightarrow>
   varint_value 2 (0x80 OR b8 (drop_bit 8 v))
     [b8 v] = v"
  using take_bit_small [of v 14] by (simp add: varint_value_def mask_low join_bytes)

lemma value_3:
  "v < 2 ^ 21 \<Longrightarrow>
   varint_value 3 (0xC0 OR b8 (drop_bit 16 v))
     [b8 (drop_bit 8 v), b8 v] = v"
  using take_bit_small [of v 21] by (simp add: varint_value_def mask_low join_bytes)

lemma value_4:
  "v < 2 ^ 28 \<Longrightarrow>
   varint_value 4 (0xE0 OR b8 (drop_bit 24 v))
     [b8 (drop_bit 16 v), b8 (drop_bit 8 v), b8 v] = v"
  using take_bit_small [of v 28] by (simp add: varint_value_def mask_low join_bytes)

lemma value_5:
  "v < 2 ^ 35 \<Longrightarrow>
   varint_value 5 (0xF0 OR b8 (drop_bit 32 v))
     [b8 (drop_bit 24 v), b8 (drop_bit 16 v), b8 (drop_bit 8 v), b8 v] = v"
  using take_bit_small [of v 35] by (simp add: varint_value_def mask_low join_bytes)

lemma value_6:
  "v < 2 ^ 42 \<Longrightarrow>
   varint_value 6 (0xF8 OR b8 (drop_bit 40 v))
     [b8 (drop_bit 32 v), b8 (drop_bit 24 v),
      b8 (drop_bit 16 v), b8 (drop_bit 8 v), b8 v] = v"
  using take_bit_small [of v 42] by (simp add: varint_value_def mask_low join_bytes)

lemma value_7:
  "v < 2 ^ 49 \<Longrightarrow>
   varint_value 7 (0xFC OR b8 (drop_bit 48 v))
     [b8 (drop_bit 40 v), b8 (drop_bit 32 v), b8 (drop_bit 24 v),
      b8 (drop_bit 16 v), b8 (drop_bit 8 v), b8 v] = v"
  using take_bit_small [of v 49] by (simp add: varint_value_def mask_low join_bytes)

lemma value_8:
  "v < 2 ^ 56 \<Longrightarrow>
   varint_value 8 (0xFE)
     [b8 (drop_bit 48 v), b8 (drop_bit 40 v), b8 (drop_bit 32 v), b8 (drop_bit 24 v),
      b8 (drop_bit 16 v), b8 (drop_bit 8 v), b8 v] = v"
  using take_bit_small [of v 56] by (simp add: varint_value_def mask_low join_bytes)

lemma value_9:
  "varint_value 9 (0xFF)
     [b8 (drop_bit 56 v), b8 (drop_bit 48 v), b8 (drop_bit 40 v), b8 (drop_bit 32 v), b8 (drop_bit 24 v),
      b8 (drop_bit 16 v), b8 (drop_bit 8 v), b8 v] = v"
  using take_bit_length_eq [of v] by (simp add: varint_value_def join_bytes)

section \<open>The codec\<close>

lemma length_varint_bytes: "length (varint_bytes v) = varint_MarshalSize v"
  by (simp add: varint_bytes_def varint_MarshalSize_def)

lemma varint_MarshalSize_bounds: "1 \<le> varint_MarshalSize v" "varint_MarshalSize v \<le> 9"
  by (simp_all add: varint_MarshalSize_def)

lemma b8_small_lt: "v < 2 ^ 7 \<Longrightarrow> b8 v < 2 ^ 7"
  using b8_drop_lt [of v 0 7] by simp

lemma ucast_b8_small: "v < 2 ^ 7 \<Longrightarrow> v64 (b8 v) = v"
  using take_bit_small [of v 8] less_trans [of v "2 ^ 7" "2 ^ 8"] by (simp add: v64_b8)

lemma varint_bytes_decodes:
  "\<exists>b r. varint_bytes v = b # r \<and> varint_prefix_size b = Some (Suc (length r)) \<and>
         (if r = [] then v64 b = v else varint_value (Suc (length r)) b r = v)"
proof -
  consider (s1) "v < 2 ^ 7"
    | (s2) "\<not> v < 2 ^ 7" "v < 2 ^ 14"
    | (s3) "\<not> v < 2 ^ 7" "\<not> v < 2 ^ 14" "v < 2 ^ 21"
    | (s4) "\<not> v < 2 ^ 7" "\<not> v < 2 ^ 14" "\<not> v < 2 ^ 21" "v < 2 ^ 28"
    | (s5) "\<not> v < 2 ^ 7" "\<not> v < 2 ^ 14" "\<not> v < 2 ^ 21" "\<not> v < 2 ^ 28" "v < 2 ^ 35"
    | (s6) "\<not> v < 2 ^ 7" "\<not> v < 2 ^ 14" "\<not> v < 2 ^ 21" "\<not> v < 2 ^ 28" "\<not> v < 2 ^ 35"
      "v < 2 ^ 42"
    | (s7) "\<not> v < 2 ^ 7" "\<not> v < 2 ^ 14" "\<not> v < 2 ^ 21" "\<not> v < 2 ^ 28" "\<not> v < 2 ^ 35"
      "\<not> v < 2 ^ 42" "v < 2 ^ 49"
    | (s8) "\<not> v < 2 ^ 7" "\<not> v < 2 ^ 14" "\<not> v < 2 ^ 21" "\<not> v < 2 ^ 28" "\<not> v < 2 ^ 35"
      "\<not> v < 2 ^ 42" "\<not> v < 2 ^ 49" "v < 2 ^ 56"
    | (s9) "\<not> v < 2 ^ 7" "\<not> v < 2 ^ 14" "\<not> v < 2 ^ 21" "\<not> v < 2 ^ 28" "\<not> v < 2 ^ 35"
      "\<not> v < 2 ^ 42" "\<not> v < 2 ^ 49" "\<not> v < 2 ^ 56"
    by blast
  then show ?thesis
  proof cases
    case s1
    then show ?thesis using prefix_1 [OF b8_small_lt] ucast_b8_small by (simp add: varint_bytes_def flip: numeral_2_eq_2)
  next
    case s2
    then show ?thesis using prefix_2 [OF b8_drop_lt [of v 8 6]] value_2 [of v] by (simp add: varint_bytes_def flip: numeral_2_eq_2)
  next
    case s3
    then show ?thesis using prefix_3 [OF b8_drop_lt [of v 16 5]] value_3 [of v] by (simp add: varint_bytes_def flip: numeral_2_eq_2)
  next
    case s4
    then show ?thesis using prefix_4 [OF b8_drop_lt [of v 24 4]] value_4 [of v] by (simp add: varint_bytes_def flip: numeral_2_eq_2)
  next
    case s5
    then show ?thesis using prefix_5 [OF b8_drop_lt [of v 32 3]] value_5 [of v] by (simp add: varint_bytes_def flip: numeral_2_eq_2)
  next
    case s6
    then show ?thesis using prefix_6 [OF b8_drop_lt [of v 40 2]] value_6 [of v] by (simp add: varint_bytes_def flip: numeral_2_eq_2)
  next
    case s7
    then show ?thesis using prefix_7 [OF b8_drop_lt [of v 48 1]] value_7 [of v] by (simp add: varint_bytes_def flip: numeral_2_eq_2)
  next
    case s8
    then show ?thesis using prefix_8 value_8 [of v] by (simp add: varint_bytes_def flip: numeral_2_eq_2)
  next
    case s9
    then show ?thesis using prefix_9 value_9 [of v] by (simp add: varint_bytes_def flip: numeral_2_eq_2)
  qed
qed

lemma varint_value_append:
  "length r + 1 = sz \<Longrightarrow> 2 \<le> sz \<Longrightarrow> sz \<le> 9 \<Longrightarrow> varint_value sz b (r @ t) = varint_value sz b r"
  by (auto simp: varint_value_def nth_append)

lemma varint_Unmarshal_bytes:
  "varint_Unmarshal (varint_bytes v @ rest) = Ret (v, length (varint_bytes v))"
proof -
  obtain b r where br: "varint_bytes v = b # r"
    and p: "varint_prefix_size b = Some (Suc (length r))"
    and val: "if r = [] then v64 b = v else varint_value (Suc (length r)) b r = v"
    using varint_bytes_decodes by blast
  show ?thesis
  proof (cases "r = []")
    case True
    with br p val show ?thesis by (simp add: varint_Unmarshal_def)
  next
    case False
    moreover have "Suc (length r) \<le> 9"
      using varint_MarshalSize_bounds(2) [of v] br length_varint_bytes [of v] by simp
    moreover have "2 \<le> Suc (length r)"
      using False by (cases r) simp_all
    ultimately have "varint_value (Suc (length r)) b (r @ rest) = v"
      using val by (simp add: varint_value_append)
    with br p False show ?thesis by (simp add: varint_Unmarshal_def)
  qed
qed

lemma writes_varint [wire_intros]: "writes (varint_MarshalTo v) (varint_bytes v)"
  unfolding varint_MarshalTo_def by (rule writes_put)

interpretation varint: codec varint_MarshalSize varint_MarshalTo varint_bytes varint_Unmarshal
  "\<lambda>_. True"
  by unfold_locales (simp_all add: length_varint_bytes writes_varint varint_Unmarshal_bytes)

lemma varint_Unmarshal_bounds:
  assumes "varint_Unmarshal buf = Ret (v, n)"
  shows "1 \<le> n" "n \<le> 9" "n \<le> length buf"
proof -
  from assms obtain b r where buf: "buf = b # r" by (cases buf) (auto simp: varint_Unmarshal_def)
  obtain k where "varint_prefix_size b = Some k" "1 \<le> k" "k \<le> 9"
    using varint_prefix_size_total by blast
  then have "1 \<le> n \<and> n \<le> 9 \<and> n \<le> length buf"
    using assms buf by (auto simp: varint_Unmarshal_def split: if_splits)
  then show "1 \<le> n" "n \<le> 9" "n \<le> length buf" by auto
qed

lemma varint_Unmarshal_no_panic [simp]: "varint_Unmarshal buf \<noteq> Panic"
  by (auto simp: varint_Unmarshal_def split: list.splits option.splits)

text \<open>The two decoders agree: the buffer one reports the length the stream one has consumed.\<close>

lemma varint_Read_iff_Unmarshal:
  "varint_Read buf = Ret (v, r) \<longleftrightarrow>
   (\<exists>n. varint_Unmarshal buf = Ret (v, n) \<and> r = drop n buf)"
proof (cases buf)
  case Nil
  then show ?thesis by (simp add: varint_Read_def varint_Unmarshal_def io_ReadFull_def)
next
  case (Cons b t)
  obtain k where k: "varint_prefix_size b = Some k" "1 \<le> k" "k \<le> 9"
    using varint_prefix_size_total by blast
  have take: "varint_value k b (take (k - 1) t) = varint_value k b t"
    if "k \<noteq> 1" "k \<le> Suc (length t)"
    using varint_value_append [of "take (k - 1) t" k b "drop (k - 1) t"] that k by simp
  show ?thesis
    using Cons k take
    by (cases k) (auto simp: varint_Read_def varint_Unmarshal_def io_ReadFull_def)
qed

lemma varint_Read_bytes [simp]: "varint_Read (varint_bytes v @ rest) = Ret (v, rest)"
  using varint_Read_iff_Unmarshal [of "varint_bytes v @ rest" v rest]
  by (simp add: varint_Unmarshal_bytes)

section \<open>Correctness\<close>

text \<open>C31.
  Round trip of the integers: what \<open>Marshal\<close> returns is decoded by \<open>Unmarshal\<close> to the same value,
  whatever bytes follow, and the length reported is \<open>MarshalSize\<close>, between 1 and 9 bytes.
\<close>
theorem varint_roundtrip:
  "obind (varint_Marshal v) (\<lambda>buf. varint_Unmarshal (buf @ rest)) = Ret (v, varint_MarshalSize v) \<and>
   1 \<le> varint_MarshalSize v \<and> varint_MarshalSize v \<le> 9"
  using varint.marshal_fresh [of v] varint_MarshalSize_bounds
  by (simp add: varint_Marshal_def varint_Unmarshal_bytes length_varint_bytes)

text \<open>
  The stream decoder and the buffer decoder accept the same inputs with the same value, the one
  leaving in the stream exactly what the other does not count.
\<close>
lemma varint_decoders_agree:
  "varint_Read buf = Ret (v, r) \<longleftrightarrow> (\<exists>n. varint_Unmarshal buf = Ret (v, n) \<and> r = drop n buf)"
  by (rule varint_Read_iff_Unmarshal)

end
