(* ===== verification/Moq_Parameter.thy ===== *)
theory Moq_Parameter
  imports Moq_Varint
begin

text \<open>
  \<^verbatim>\<open>internal/protocols/moq/parameter\<close>: the parameters of MoQ control messages. The interface
  \<open>Parameter\<close> has one implementation, \<open>AuthorizationToken\<close>; a list of parameters is encoded
  with the difference of successive parameter types in front of each value.
\<close>

section \<open>The authorization token\<close>

record auth_token =
  AliasType :: u64
  TokenType :: u64
  TokenValue :: bytes

definition typeAuthorizationToken :: u64 where
  "typeAuthorizationToken = 0x03"

definition AliasTypeUseValue :: u64 where
  "AliasTypeUseValue = 0x03"

definition token_unmarshal :: "bytes \<Rightarrow> (moq_error, auth_token \<times> nat) outcome" where
  "token_unmarshal buf =
     obind (varint_Unmarshal buf) (\<lambda>(le, llen).
     if int (length buf) - int llen < sint le then Fail NotEnoughForParam
     else obind (slice buf (int llen) (int llen + sint le)) (\<lambda>buf1.
     obind (varint_Unmarshal buf1) (\<lambda>(aliasType, n).
     if aliasType \<noteq> AliasTypeUseValue then Fail (UnsupportedAlias aliasType)
     else obind (slice_from buf1 (int n)) (\<lambda>buf2.
     obind (varint_Unmarshal buf2) (\<lambda>(tokenType, n2).
     obind (slice_from buf2 (int n2)) (\<lambda>tv.
     Ret (\<lparr>AliasType = aliasType, TokenType = tokenType, TokenValue = tv\<rparr>,
          llen + nat (sint le))))))))"

definition token_innerSize :: "auth_token \<Rightarrow> nat" where
  "token_innerSize t =
     varint_MarshalSize (AliasType t) + varint_MarshalSize (TokenType t) + length (TokenValue t)"

definition token_marshalSize :: "auth_token \<Rightarrow> nat" where
  "token_marshalSize t =
     (let n = token_innerSize t in varint_MarshalSize (u64_of_len n) + n)"

definition token_marshalTo :: "auth_token \<Rightarrow> moq_error wr" where
  "token_marshalTo t =
     w_seq (varint_MarshalTo (u64_of_len (token_innerSize t)))
       (w_seq (varint_MarshalTo (AliasType t))
         (w_seq (varint_MarshalTo (TokenType t)) (w_copy (TokenValue t))))"

definition token_bytes :: "auth_token \<Rightarrow> bytes" where
  "token_bytes t =
     varint_bytes (u64_of_len (token_innerSize t)) @ varint_bytes (AliasType t) @
     varint_bytes (TokenType t) @ TokenValue t"

text \<open>
  A token the encoder can be asked to write and the decoder accepts: the only supported alias
  type and a value that is in memory.
\<close>

definition wf_token :: "auth_token \<Rightarrow> bool" where
  "wf_token t \<longleftrightarrow> AliasType t = AliasTypeUseValue \<and> in_memory (TokenValue t)"

section \<open>Lists of parameters\<close>

datatype parameter = AuthorizationToken auth_token

primrec paramType :: "parameter \<Rightarrow> u64" where
  "paramType (AuthorizationToken t) = typeAuthorizationToken"

primrec param_marshalSize :: "parameter \<Rightarrow> nat" where
  "param_marshalSize (AuthorizationToken t) = token_marshalSize t"

primrec param_marshalTo :: "parameter \<Rightarrow> moq_error wr" where
  "param_marshalTo (AuthorizationToken t) = token_marshalTo t"

primrec param_bytes :: "parameter \<Rightarrow> bytes" where
  "param_bytes (AuthorizationToken t) = token_bytes t"

primrec wf_param :: "parameter \<Rightarrow> bool" where
  "wf_param (AuthorizationToken t) = wf_token t"

text \<open>
  The loop of \<open>Parameters.Unmarshal\<close>: \<open>count\<close> iterations left, the running type, the
  parameters appended so far, the bytes consumed so far.
\<close>

fun params_loop ::
  "nat \<Rightarrow> u64 \<Rightarrow> parameter list \<Rightarrow> nat \<Rightarrow> bytes \<Rightarrow> (moq_error, parameter list \<times> nat) outcome" where
  "params_loop 0 currentType ps tot buf = Ret (ps, tot)"
| "params_loop (Suc count) currentType ps tot buf =
     obind (varint_Unmarshal buf) (\<lambda>(typeDelta, n).
     obind (slice_from buf (int n)) (\<lambda>buf1.
     let currentType1 = currentType + typeDelta in
     if currentType1 = typeAuthorizationToken then
       obind (omap_err AuthTokenErr (token_unmarshal buf1)) (\<lambda>(t, n2).
       obind (slice_from buf1 (int n2)) (\<lambda>buf2.
       params_loop count currentType1 (ps @ [AuthorizationToken t]) (tot + n + n2) buf2))
     else Fail (UnsupportedParam currentType1)))"

definition params_Unmarshal ::
  "u64 \<Rightarrow> bytes \<Rightarrow> (moq_error, parameter list \<times> nat) outcome" where
  "params_Unmarshal count buf = params_loop (unat count) 0 [] 0 buf"

fun params_size_from :: "u64 \<Rightarrow> parameter list \<Rightarrow> nat" where
  "params_size_from prevType [] = 0"
| "params_size_from prevType (p # ps) =
     varint_MarshalSize (paramType p - prevType) + param_marshalSize p +
     params_size_from (paramType p) ps"

definition params_MarshalSize :: "parameter list \<Rightarrow> nat" where
  "params_MarshalSize ps = params_size_from 0 ps"

fun params_writer :: "u64 \<Rightarrow> parameter list \<Rightarrow> moq_error wr" where
  "params_writer prevType [] = w_nil"
| "params_writer prevType (p # ps) =
     w_seq (varint_MarshalTo (paramType p - prevType))
       (w_seq (param_marshalTo p) (params_writer (paramType p) ps))"

definition params_MarshalTo :: "parameter list \<Rightarrow> moq_error wr" where
  "params_MarshalTo ps = params_writer 0 ps"

fun params_bytes_from :: "u64 \<Rightarrow> parameter list \<Rightarrow> bytes" where
  "params_bytes_from prevType [] = []"
| "params_bytes_from prevType (p # ps) =
     varint_bytes (paramType p - prevType) @ param_bytes p @ params_bytes_from (paramType p) ps"

definition params_bytes :: "parameter list \<Rightarrow> bytes" where
  "params_bytes ps = params_bytes_from 0 ps"

section \<open>The token codec\<close>

lemma length_token_inner:
  "length (varint_bytes (AliasType t) @ varint_bytes (TokenType t) @ TokenValue t)
   = token_innerSize t"
  by (simp add: token_innerSize_def length_varint_bytes)

lemma token_innerSize_bound:
  "wf_token t \<Longrightarrow> token_innerSize t < 2 ^ 63"
  using varint_MarshalSize_bounds(2) [of "AliasType t"] varint_MarshalSize_bounds(2) [of "TokenType t"]
  by (simp add: wf_token_def in_memory_def max_alloc_def token_innerSize_def)

lemma token_unmarshal_bytes:
  assumes "wf_token t"
  shows "token_unmarshal (token_bytes t @ rest) = Ret (t, length (token_bytes t))"
proof -
  define le where "le = u64_of_len (token_innerSize t)"
  define inner2 where "inner2 = varint_bytes (TokenType t) @ TokenValue t"
  define inner where "inner = varint_bytes (AliasType t) @ inner2"
  have len: "sint le = int (length inner)"
    using sint_u64_of_len [OF token_innerSize_bound [OF assms]] length_token_inner [of t]
    by (simp add: le_def inner_def inner2_def)
  have buf: "token_bytes t = varint_bytes le @ inner"
    by (simp add: token_bytes_def le_def inner_def inner2_def)
  have ua: "AliasType t = AliasTypeUseValue"
    using assms by (simp add: wf_token_def)
  have inner: "varint_Unmarshal inner
      = Ret (AliasTypeUseValue, length (varint_bytes AliasTypeUseValue))"
    "slice_from inner (int (length (varint_bytes AliasTypeUseValue)))
      = (Ret inner2 :: (moq_error, bytes) outcome)"
    by (simp_all only: inner_def ua varint_Unmarshal_bytes slice_from_append)
  have inner2: "varint_Unmarshal inner2 = Ret (TokenType t, length (varint_bytes (TokenType t)))"
    "slice_from inner2 (int (length (varint_bytes (TokenType t))))
      = (Ret (TokenValue t) :: (moq_error, bytes) outcome)"
    by (simp_all only: inner2_def varint_Unmarshal_bytes slice_from_append)
  have "\<lparr>AliasType = AliasTypeUseValue, TokenType = TokenType t, TokenValue = TokenValue t\<rparr> = t"
    using ua by simp
  then have "token_unmarshal (varint_bytes le @ inner @ rest)
      = Ret (t, length (varint_bytes le) + length inner)"
    by (simp add: token_unmarshal_def varint_Unmarshal_bytes len inner inner2 del: slice_from_nat)
  then show ?thesis by (simp add: buf)
qed

lemma writes_token [wire_intros]: "writes (token_marshalTo t) (token_bytes t)"
  unfolding token_marshalTo_def token_bytes_def by (intro wire_intros)

lemma length_token_bytes: "length (token_bytes t) = token_marshalSize t"
  by (simp add: token_marshalSize_def token_bytes_def token_innerSize_def Let_def
      length_varint_bytes)

interpretation token: codec token_marshalSize token_marshalTo token_bytes token_unmarshal wf_token
  by unfold_locales (simp_all add: length_token_bytes writes_token token_unmarshal_bytes)

text \<open>
  The length check compares with the length converted to a signed \<^verbatim>\<open>int\<close>, so a length
  of $2^{63}$ or more passes it as a negative number and the slice expression panics; every
  other input is decoded or rejected with an error.
\<close>

lemma token_unmarshal_panics_iff:
  "token_unmarshal buf = Panic \<longleftrightarrow>
   (\<exists>le n. varint_Unmarshal buf = Ret (le, n) \<and> sint le < 0)"
proof -
  have sl: "slice_from (b :: bytes) (int n) \<noteq> (Panic :: (moq_error, bytes) outcome)"
    if "varint_Unmarshal b = Ret (x, n)" for b x n
    using varint_Unmarshal_bounds(3) [OF that] by simp
  show ?thesis (is "_ \<longleftrightarrow> ?neg")
  proof
    assume "token_unmarshal buf = Panic"
    then show ?neg
      by (auto simp: token_unmarshal_def outcome_eqs slice_def sl split: if_splits
          dest: varint_Unmarshal_bounds)
  next
    assume ?neg
    then obtain le n where "varint_Unmarshal buf = Ret (le, n)" "sint le < 0" by blast
    moreover from this(1) have "n \<le> length buf" by (rule varint_Unmarshal_bounds)
    ultimately show "token_unmarshal buf = Panic"
      by (simp add: token_unmarshal_def slice_def)
  qed
qed

section \<open>The parameter list codec\<close>

lemma length_params_bytes_from: "length (params_bytes_from t ps) = params_size_from t ps"
proof (induction ps arbitrary: t)
  case (Cons p ps)
  then show ?case by (cases p) (simp add: length_varint_bytes length_token_bytes)
qed simp

lemma length_params_bytes: "length (params_bytes ps) = params_MarshalSize ps"
  by (simp add: params_bytes_def params_MarshalSize_def length_params_bytes_from)

lemma writes_param [wire_intros]: "writes (param_marshalTo p) (param_bytes p)"
  by (cases p) (simp add: writes_token)

lemma writes_params_from: "writes (params_writer t ps) (params_bytes_from t ps)"
  by (induction ps arbitrary: t) (auto intro!: wire_intros)

lemma writes_params [wire_intros]: "writes (params_MarshalTo ps) (params_bytes ps)"
  by (simp add: params_MarshalTo_def params_bytes_def writes_params_from)

interpretation params: encoder params_MarshalSize params_MarshalTo params_bytes
  by unfold_locales (simp_all add: length_params_bytes writes_params)

lemma params_loop_bytes:
  assumes "list_all wf_param ps"
  shows "params_loop (length ps) t acc tot (params_bytes_from t ps @ rest)
       = Ret (acc @ ps, tot + length (params_bytes_from t ps))"
  using assms
proof (induction ps arbitrary: t acc tot)
  case (Cons p ps)
  obtain k where p: "p = AuthorizationToken k" by (cases p)
  with Cons.prems have "wf_token k" "list_all wf_param ps" by auto
  with Cons.IH p show ?case
    by (simp add: varint_Unmarshal_bytes token_unmarshal_bytes del: slice_from_nat) 
qed simp

lemma params_Unmarshal_bytes:
  assumes "list_all wf_param ps" "length ps < 2 ^ 64"
  shows "params_Unmarshal (u64_of_len (length ps)) (params_bytes ps @ rest)
       = Ret (ps, length (params_bytes ps))"
  using params_loop_bytes [OF assms(1), of 0 "[]" 0 rest] assms(2)
  by (simp add: params_Unmarshal_def params_bytes_def unat_u64_of_len)

text \<open>A successful decode consumes no more than the buffer holds.\<close>

lemma token_unmarshal_bound:
  "token_unmarshal buf = Ret (t, n) \<Longrightarrow> n \<le> length buf"
  by (auto simp: token_unmarshal_def outcome_eqs slice_def split: if_splits
      dest: varint_Unmarshal_bounds)

lemma params_loop_bound:
  "params_loop k t acc tot buf = Ret (ps, n) \<Longrightarrow> tot \<le> n \<and> n \<le> tot + length buf"
proof (induction k arbitrary: t acc tot buf)
  case (Suc k)
  then obtain d m b1 tk m2 b2 where
    u: "varint_Unmarshal buf = Ret (d, m)" "b1 = drop m buf" "m \<le> length buf"
    "token_unmarshal b1 = Ret (tk, m2)" "b2 = drop m2 b1" "m2 \<le> length b1"
    "params_loop k (t + d) (acc @ [AuthorizationToken tk]) (tot + m + m2) b2 = Ret (ps, n)"
    by (auto simp: outcome_eqs Let_def split: if_splits)
  with Suc.IH [OF u(7)] show ?case by auto
qed auto

lemma params_Unmarshal_bound:
  "params_Unmarshal c buf = Ret (ps, n) \<Longrightarrow> n \<le> length buf"
  using params_loop_bound by (fastforce simp: params_Unmarshal_def)

section \<open>Correctness\<close>

text \<open>C32.
  The decoder of the authorization token panics exactly on the inputs whose length prefix has its
  top bit set: the bounds check compares the length as a signed number and lets it pass. Every
  other input, however malformed, is decoded or rejected with an error.
\<close>
theorem token_panics_exactly:
  "token_unmarshal buf = Panic \<longleftrightarrow> (\<exists>le n. varint_Unmarshal buf = Ret (le, n) \<and> sint le < 0)"
  by (rule token_unmarshal_panics_iff)

end
