(* ===== verification/Moq_Property.thy ===== *)
theory Moq_Property
  imports Moq_Varint
begin

text \<open>
  \<^verbatim>\<open>internal/protocols/moq/property\<close>: object and track properties. The interface
  \<open>Property\<close> has one implementation, \<open>Timestamp\<close> (an \<^verbatim>\<open>int64\<close>, kept as its 64 bits);
  properties of unknown types are skipped by the decoder, by length when the type is odd and by
  one varint when it is even.
\<close>

datatype property = Timestamp u64

definition timestampPropertyType :: u64 where
  "timestampPropertyType = 0x06"

primrec propType :: "property \<Rightarrow> u64" where
  "propType (Timestamp t) = timestampPropertyType"

definition timestamp_unmarshal :: "bytes \<Rightarrow> (moq_error, property \<times> nat) outcome" where
  "timestamp_unmarshal buf = obind (varint_Unmarshal buf) (\<lambda>(val, n). Ret (Timestamp val, n))"

primrec prop_marshalSize :: "property \<Rightarrow> nat" where
  "prop_marshalSize (Timestamp t) = varint_MarshalSize t"

primrec prop_marshalTo :: "property \<Rightarrow> moq_error wr" where
  "prop_marshalTo (Timestamp t) = varint_MarshalTo t"

primrec prop_bytes :: "property \<Rightarrow> bytes" where
  "prop_bytes (Timestamp t) = varint_bytes t"

text \<open>
  The body of the loop of \<open>Properties.Unmarshal\<close> after the type has been read: the value of a
  known property or the bytes of an unknown one are taken off the buffer. An unknown odd type
  is skipped with \<^verbatim>\<open>buf = buf[n2+int(length):]\<close>.
\<close>

definition property_step ::
  "u64 \<Rightarrow> bytes \<Rightarrow> (moq_error, property list \<times> bytes) outcome" where
  "property_step currentType buf =
     (if currentType = timestampPropertyType then
        obind (timestamp_unmarshal buf) (\<lambda>(ts, n2).
        obind (slice_from buf (int n2)) (\<lambda>buf1. Ret ([ts], buf1)))
      else if currentType mod 2 = 1 then
        obind (varint_Unmarshal buf) (\<lambda>(len, n2).
        if int (length buf) - int n2 < sint len then Fail NotEnoughForProperty
        else obind (slice_from buf (int n2 + sint len)) (\<lambda>buf1. Ret ([], buf1)))
      else
        obind (varint_Unmarshal buf) (\<lambda>(skip, n2).
        obind (slice_from buf (int n2)) (\<lambda>buf1. Ret ([], buf1))))"

lemma slice_from_length: "slice_from buf n = Ret buf1 \<Longrightarrow> length buf1 \<le> length buf"
  by (auto simp: slice_from_def split: if_splits)

lemma property_step_length:
  "property_step t buf = Ret (ps, buf1) \<Longrightarrow> length buf1 \<le> length buf"
  by (auto simp: property_step_def outcome_eqs slice_from_length split: if_splits)

function props_loop :: "u64 \<Rightarrow> property list \<Rightarrow> bytes \<Rightarrow> (moq_error, property list) outcome" where
  "props_loop currentType ps buf =
     (if buf = [] then Ret ps
      else obind (varint_Unmarshal buf) (\<lambda>(delta, n).
        obind (slice_from buf (int n)) (\<lambda>buf1.
        obind (property_step (currentType + delta) buf1) (\<lambda>(qs, buf2).
        props_loop (currentType + delta) (ps @ qs) buf2))))"
  by pat_completeness auto
termination
proof (relation "measure (\<lambda>(_, _, buf). length buf)")
  fix currentType :: u64 and ps buf x d n buf1 y qs buf2
  assume *: "buf \<noteq> []" "varint_Unmarshal buf = Ret x" "(d, n) = x"
    "slice_from buf (int n) = (Ret buf1 :: (moq_error, bytes) outcome)"
    "property_step (currentType + d) buf1 = Ret y" "(qs, buf2) = y"
  then have "1 \<le> n" "n \<le> length buf" using varint_Unmarshal_bounds by blast+
  with * property_step_length [of "currentType + d" buf1 qs buf2] have "length buf2 < length buf"
    by auto
  then show "((currentType + d, ps @ qs, buf2), currentType, ps, buf)
      \<in> measure (\<lambda>(_, _, buf). length buf)" by simp
qed simp

declare props_loop.simps [simp del]

definition props_Unmarshal :: "bytes \<Rightarrow> (moq_error, property list) outcome" where
  "props_Unmarshal buf = props_loop 0 [] buf"

fun props_size_from :: "u64 \<Rightarrow> property list \<Rightarrow> nat" where
  "props_size_from prevType [] = 0"
| "props_size_from prevType (p # ps) =
     varint_MarshalSize (propType p - prevType) + prop_marshalSize p + props_size_from (propType p) ps"

definition props_MarshalSize :: "property list \<Rightarrow> nat" where
  "props_MarshalSize ps = props_size_from 0 ps"

fun props_writer :: "u64 \<Rightarrow> property list \<Rightarrow> moq_error wr" where
  "props_writer prevType [] = w_nil"
| "props_writer prevType (p # ps) =
     w_seq (varint_MarshalTo (propType p - prevType))
       (w_seq (prop_marshalTo p) (props_writer (propType p) ps))"

definition props_MarshalTo :: "property list \<Rightarrow> moq_error wr" where
  "props_MarshalTo ps = props_writer 0 ps"

fun props_bytes_from :: "u64 \<Rightarrow> property list \<Rightarrow> bytes" where
  "props_bytes_from prevType [] = []"
| "props_bytes_from prevType (p # ps) =
     varint_bytes (propType p - prevType) @ prop_bytes p @ props_bytes_from (propType p) ps"

definition props_bytes :: "property list \<Rightarrow> bytes" where
  "props_bytes ps = props_bytes_from 0 ps"

section \<open>The property list codec\<close>

lemma varint_bytes_nonempty [simp]: "varint_bytes v \<noteq> []"
  using length_varint_bytes [of v] varint_MarshalSize_bounds [of v] by auto

lemma length_props_bytes_from: "length (props_bytes_from t ps) = props_size_from t ps"
proof (induction ps arbitrary: t)
  case (Cons p ps)
  then show ?case by (cases p) (simp add: length_varint_bytes)
qed simp

lemma length_props_bytes: "length (props_bytes ps) = props_MarshalSize ps"
  by (simp add: props_bytes_def props_MarshalSize_def length_props_bytes_from)

lemma writes_prop [wire_intros]: "writes (prop_marshalTo p) (prop_bytes p)"
  by (cases p) (simp add: writes_varint)

lemma writes_props_from: "writes (props_writer t ps) (props_bytes_from t ps)"
  by (induction ps arbitrary: t) (auto intro!: wire_intros)

lemma writes_props [wire_intros]: "writes (props_MarshalTo ps) (props_bytes ps)"
  by (simp add: props_MarshalTo_def props_bytes_def writes_props_from)

interpretation props: encoder props_MarshalSize props_MarshalTo props_bytes
  by unfold_locales (simp_all add: length_props_bytes writes_props)

lemma property_step_known:
  "property_step timestampPropertyType (varint_bytes v @ rest) = Ret ([Timestamp v], rest)"
  by (simp add: property_step_def timestamp_unmarshal_def varint_Unmarshal_bytes)

lemma props_loop_bytes: "props_loop t acc (props_bytes_from t ps) = Ret (acc @ ps)"
proof (induction ps arbitrary: t acc)
  case Nil
  show ?case by (simp add: props_loop.simps)
next
  case (Cons p ps)
  obtain v where p: "p = Timestamp v" by (cases p)
  show ?case
    by (subst props_loop.simps)
      (simp add: p varint_Unmarshal_bytes property_step_known Cons.IH)
qed

lemma props_Unmarshal_bytes: "props_Unmarshal (props_bytes ps) = Ret ps"
  by (simp add: props_Unmarshal_def props_bytes_def props_loop_bytes)

end
