(* ===== verification/Moq_Control.thy ===== *)
theory Moq_Control
  imports Moq_Parameter Moq_Property
begin

text \<open>
  \<^verbatim>\<open>internal/protocols/moq/controlmessage\<close>: the control messages, each framed by its type
  (a varint) and a two-byte payload length. Go strings are the bytes they hold.
\<close>

section \<open>Messages\<close>

text \<open>The implementations of the interface \<open>Message\<close>, with the fields of the structs in order.\<close>

datatype message =
    Setup
  | Subscribe u64 "bytes list" bytes "parameter list"
  | SubscribeOk u64 "parameter list" "property list"
  | RequestError u64 bytes
  | Publish u64 "bytes list" bytes u64 "parameter list" "property list"
  | RequestOk "parameter list" "property list"

definition typeSetup :: u64 where "typeSetup = 0x2F00"
definition typeSubscribe :: u64 where "typeSubscribe = 0x03"
definition typeSubscribeOk :: u64 where "typeSubscribeOk = 0x04"
definition typeRequestError :: u64 where "typeRequestError = 0x05"
definition typePublish :: u64 where "typePublish = 0x1d"
definition typeRequestOk :: u64 where "typeRequestOk = 0x07"

lemmas message_type_defs = typeSetup_def typeSubscribe_def typeSubscribeOk_def
  typeRequestError_def typePublish_def typeRequestOk_def

section \<open>Decoding\<close>

text \<open>
  The two idioms the decoders are made of: \<^verbatim>\<open>n, err := v.Unmarshal(buf); ...; buf = buf[n:]\<close>,
  and a length followed by that many bytes, checked with \<^verbatim>\<open>len(buf) < int(l)\<close> and taken
  with \<^verbatim>\<open>buf[:l]\<close>.
\<close>

definition take_varint :: "bytes \<Rightarrow> (moq_error, u64 \<times> bytes) outcome" where
  "take_varint buf =
     obind (varint_Unmarshal buf) (\<lambda>(v, n).
     obind (slice_from buf (int n)) (\<lambda>buf1. Ret (v, buf1)))"

definition take_string :: "moq_error \<Rightarrow> bytes \<Rightarrow> (moq_error, bytes \<times> bytes) outcome" where
  "take_string short buf =
     obind (take_varint buf) (\<lambda>(l, buf1).
     if int (length buf1) < sint l then Fail short
     else obind (slice_to buf1 (uint l)) (\<lambda>s.
     obind (slice_from buf1 (sint l)) (\<lambda>buf2. Ret (s, buf2))))"

fun namespace_loop :: "nat \<Rightarrow> bytes list \<Rightarrow> bytes \<Rightarrow> (moq_error, bytes list \<times> bytes) outcome" where
  "namespace_loop 0 ns buf = Ret (ns, buf)"
| "namespace_loop (Suc k) ns buf =
     obind (take_string NotEnoughForNamespace buf) (\<lambda>(part, buf1).
     namespace_loop k (ns @ [part]) buf1)"

text \<open>\<^verbatim>\<open>make([]string, nsCount)\<close> (string headers of 16 bytes), then one string per element.\<close>

definition take_namespace :: "bytes \<Rightarrow> (moq_error, bytes list \<times> bytes) outcome" where
  "take_namespace buf =
     obind (take_varint buf) (\<lambda>(nsCount, buf1).
     obind (go_make 16 nsCount) (\<lambda>k. namespace_loop k [] buf1))"

text \<open>A parameter count, the parameters, and the buffer after them.\<close>

definition take_params :: "bytes \<Rightarrow> (moq_error, parameter list \<times> bytes) outcome" where
  "take_params buf =
     obind (take_varint buf) (\<lambda>(paramCount, buf1).
     obind (params_Unmarshal paramCount buf1) (\<lambda>(ps, consumed).
     obind (slice_from buf1 (int consumed)) (\<lambda>buf2. Ret (ps, buf2))))"

definition publish_unmarshal :: "bytes \<Rightarrow> (moq_error, message) outcome" where
  "publish_unmarshal buf =
     obind (take_varint buf) (\<lambda>(requestID, buf1).
     obind (take_namespace buf1) (\<lambda>(ns, buf2).
     obind (take_string NotEnoughForTrackName buf2) (\<lambda>(trackName, buf3).
     obind (take_varint buf3) (\<lambda>(trackAlias, buf4).
     obind (take_params buf4) (\<lambda>(ps, buf5).
     obind (props_Unmarshal buf5) (\<lambda>tps.
     Ret (Publish requestID ns trackName trackAlias ps tps)))))))"

definition subscribe_unmarshal :: "bytes \<Rightarrow> (moq_error, message) outcome" where
  "subscribe_unmarshal buf =
     obind (take_varint buf) (\<lambda>(requestID, buf1).
     obind (take_namespace buf1) (\<lambda>(ns, buf2).
     obind (take_string NotEnoughForTrackName buf2) (\<lambda>(trackName, buf3).
     obind (take_varint buf3) (\<lambda>(paramCount, buf4).
     obind (params_Unmarshal paramCount buf4) (\<lambda>(ps, _).
     Ret (Subscribe requestID ns trackName ps))))))"

definition subscribe_ok_unmarshal :: "bytes \<Rightarrow> (moq_error, message) outcome" where
  "subscribe_ok_unmarshal buf =
     obind (take_varint buf) (\<lambda>(trackAlias, buf1).
     obind (take_params buf1) (\<lambda>(ps, buf2).
     obind (props_Unmarshal buf2) (\<lambda>tps. Ret (SubscribeOk trackAlias ps tps))))"

definition request_ok_unmarshal :: "bytes \<Rightarrow> (moq_error, message) outcome" where
  "request_ok_unmarshal buf =
     obind (take_params buf) (\<lambda>(ps, buf1).
     obind (props_Unmarshal buf1) (\<lambda>tps. Ret (RequestOk ps tps)))"

definition request_error_unmarshal :: "bytes \<Rightarrow> (moq_error, message) outcome" where
  "request_error_unmarshal buf =
     obind (take_varint buf) (\<lambda>(code, buf1).
     obind (take_varint buf1) (\<lambda>(retry, buf2).
     obind (take_varint buf2) (\<lambda>(l, buf3).
     if int (length buf3) < sint l then Fail NotEnoughForReason
     else obind (slice_to buf3 (uint l)) (\<lambda>reason. Ret (RequestError code reason)))))"

definition setup_unmarshal :: "bytes \<Rightarrow> (moq_error, message) outcome" where
  "setup_unmarshal buf = Ret Setup"

definition unmarshal_as :: "u64 \<Rightarrow> bytes \<Rightarrow> (moq_error, message) outcome" where
  "unmarshal_as t payload =
     (if t = typeSetup then setup_unmarshal payload
      else if t = typeSubscribe then subscribe_unmarshal payload
      else if t = typeSubscribeOk then subscribe_ok_unmarshal payload
      else if t = typeRequestError then request_error_unmarshal payload
      else if t = typePublish then publish_unmarshal payload
      else if t = typeRequestOk then request_ok_unmarshal payload
      else Fail (UnknownMessage t))"

text \<open>\<open>controlmessage.Read\<close>, with the rest of the stream.\<close>

definition ctl_Read :: "bytes \<Rightarrow> (moq_error, message \<times> bytes) outcome" where
  "ctl_Read r =
     obind (varint_Read r) (\<lambda>(t, r1).
     obind (omap_err IoErr (io_ReadFull 2 r1)) (\<lambda>(lenBuf, r2).
     let len = (push_bit 8 (ucast (lenBuf ! 0)) OR ucast (lenBuf ! 1) :: 16 word) in
     obind (omap_err IoErr (io_ReadFull (unat len) r2)) (\<lambda>(payload, r3).
     obind (unmarshal_as t payload) (\<lambda>m. Ret (m, r3)))))"

section \<open>Encoding\<close>

definition string_size :: "bytes \<Rightarrow> nat" where
  "string_size s = varint_MarshalSize (u64_of_len (length s)) + length s"

definition string_writer :: "bytes \<Rightarrow> moq_error wr" where
  "string_writer s = w_seq (varint_MarshalTo (u64_of_len (length s))) (w_copy s)"

definition string_bytes :: "bytes \<Rightarrow> bytes" where
  "string_bytes s = varint_bytes (u64_of_len (length s)) @ s"

fun strings_writer :: "bytes list \<Rightarrow> moq_error wr" where
  "strings_writer [] = w_nil"
| "strings_writer (s # ss) = w_seq (string_writer s) (strings_writer ss)"

definition namespace_size :: "bytes list \<Rightarrow> nat" where
  "namespace_size ns =
     varint_MarshalSize (u64_of_len (length ns)) + sum_list (map string_size ns)"

definition namespace_writer :: "bytes list \<Rightarrow> moq_error wr" where
  "namespace_writer ns = w_seq (varint_MarshalTo (u64_of_len (length ns))) (strings_writer ns)"

definition namespace_bytes :: "bytes list \<Rightarrow> bytes" where
  "namespace_bytes ns = varint_bytes (u64_of_len (length ns)) @ concat (map string_bytes ns)"

definition counted_params_size :: "parameter list \<Rightarrow> nat" where
  "counted_params_size ps =
     varint_MarshalSize (u64_of_len (length ps)) + params_MarshalSize ps"

definition counted_params_writer :: "parameter list \<Rightarrow> moq_error wr" where
  "counted_params_writer ps =
     w_seq (varint_MarshalTo (u64_of_len (length ps))) (params_MarshalTo ps)"

definition counted_params_bytes :: "parameter list \<Rightarrow> bytes" where
  "counted_params_bytes ps = varint_bytes (u64_of_len (length ps)) @ params_bytes ps"

fun message_type :: "message \<Rightarrow> u64" where
  "message_type Setup = typeSetup"
| "message_type (Subscribe _ _ _ _) = typeSubscribe"
| "message_type (SubscribeOk _ _ _) = typeSubscribeOk"
| "message_type (RequestError _ _) = typeRequestError"
| "message_type (Publish _ _ _ _ _ _) = typePublish"
| "message_type (RequestOk _ _) = typeRequestOk"

text \<open>
  The \<^verbatim>\<open>payloadSize\<close> that \<open>marshalSize\<close> and \<open>marshalTo\<close> of each message both compute, and what
  \<open>marshalTo\<close> writes after type and length.
\<close>

definition subscribe_payload_size :: "u64 \<Rightarrow> bytes list \<Rightarrow> bytes \<Rightarrow> parameter list \<Rightarrow> nat" where
  "subscribe_payload_size rid ns tn ps =
     varint_MarshalSize rid + namespace_size ns + string_size tn + counted_params_size ps"

definition subscribe_payload_writer :: "u64 \<Rightarrow> bytes list \<Rightarrow> bytes \<Rightarrow> parameter list \<Rightarrow> moq_error wr" where
  "subscribe_payload_writer rid ns tn ps =
     w_seq (varint_MarshalTo rid) (w_seq (namespace_writer ns)
       (w_seq (string_writer tn) (counted_params_writer ps)))"

definition subscribe_ok_payload_size :: "u64 \<Rightarrow> parameter list \<Rightarrow> property list \<Rightarrow> nat" where
  "subscribe_ok_payload_size ta ps tps =
     varint_MarshalSize ta + counted_params_size ps + props_MarshalSize tps"

definition subscribe_ok_payload_writer :: "u64 \<Rightarrow> parameter list \<Rightarrow> property list \<Rightarrow> moq_error wr" where
  "subscribe_ok_payload_writer ta ps tps =
     w_seq (varint_MarshalTo ta) (w_seq (counted_params_writer ps) (props_MarshalTo tps))"

definition request_error_payload_size :: "u64 \<Rightarrow> bytes \<Rightarrow> nat" where
  "request_error_payload_size code reason = varint_MarshalSize code + 1 + string_size reason"

definition request_error_payload_writer :: "u64 \<Rightarrow> bytes \<Rightarrow> moq_error wr" where
  "request_error_payload_writer code reason =
     w_seq (varint_MarshalTo code) (w_seq (w_put [0x00]) (string_writer reason))"

definition publish_payload_size ::
  "u64 \<Rightarrow> bytes list \<Rightarrow> bytes \<Rightarrow> u64 \<Rightarrow> parameter list \<Rightarrow> property list \<Rightarrow> nat" where
  "publish_payload_size rid ns tn ta ps tps =
     varint_MarshalSize rid + namespace_size ns + string_size tn + varint_MarshalSize ta +
     counted_params_size ps + props_MarshalSize tps"

definition publish_payload_writer ::
  "u64 \<Rightarrow> bytes list \<Rightarrow> bytes \<Rightarrow> u64 \<Rightarrow> parameter list \<Rightarrow> property list \<Rightarrow> moq_error wr" where
  "publish_payload_writer rid ns tn ta ps tps =
     w_seq (varint_MarshalTo rid) (w_seq (namespace_writer ns) (w_seq (string_writer tn)
       (w_seq (varint_MarshalTo ta) (w_seq (counted_params_writer ps) (props_MarshalTo tps)))))"

definition request_ok_payload_size :: "parameter list \<Rightarrow> property list \<Rightarrow> nat" where
  "request_ok_payload_size ps tps = counted_params_size ps + props_MarshalSize tps"

definition request_ok_payload_writer :: "parameter list \<Rightarrow> property list \<Rightarrow> moq_error wr" where
  "request_ok_payload_writer ps tps = w_seq (counted_params_writer ps) (props_MarshalTo tps)"

lemmas payload_defs [simp] =
  subscribe_payload_size_def subscribe_payload_writer_def
  subscribe_ok_payload_size_def subscribe_ok_payload_writer_def
  request_error_payload_size_def request_error_payload_writer_def
  publish_payload_size_def publish_payload_writer_def
  request_ok_payload_size_def request_ok_payload_writer_def

fun payload_size :: "message \<Rightarrow> nat" where
  "payload_size Setup = 0"
| "payload_size (Subscribe rid ns tn ps) = subscribe_payload_size rid ns tn ps"
| "payload_size (SubscribeOk ta ps tps) = subscribe_ok_payload_size ta ps tps"
| "payload_size (RequestError code reason) = request_error_payload_size code reason"
| "payload_size (Publish rid ns tn ta ps tps) = publish_payload_size rid ns tn ta ps tps"
| "payload_size (RequestOk ps tps) = request_ok_payload_size ps tps"

fun payload_writer :: "message \<Rightarrow> moq_error wr" where
  "payload_writer Setup = w_nil"
| "payload_writer (Subscribe rid ns tn ps) = subscribe_payload_writer rid ns tn ps"
| "payload_writer (SubscribeOk ta ps tps) = subscribe_ok_payload_writer ta ps tps"
| "payload_writer (RequestError code reason) = request_error_payload_writer code reason"
| "payload_writer (Publish rid ns tn ta ps tps) = publish_payload_writer rid ns tn ta ps tps"
| "payload_writer (RequestOk ps tps) = request_ok_payload_writer ps tps"

fun payload_bytes :: "message \<Rightarrow> bytes" where
  "payload_bytes Setup = []"
| "payload_bytes (Subscribe rid ns tn ps) =
     varint_bytes rid @ namespace_bytes ns @ string_bytes tn @ counted_params_bytes ps"
| "payload_bytes (SubscribeOk ta ps tps) =
     varint_bytes ta @ counted_params_bytes ps @ props_bytes tps"
| "payload_bytes (RequestError code reason) = varint_bytes code @ [0x00] @ string_bytes reason"
| "payload_bytes (Publish rid ns tn ta ps tps) =
     varint_bytes rid @ namespace_bytes ns @ string_bytes tn @ varint_bytes ta @
     counted_params_bytes ps @ props_bytes tps"
| "payload_bytes (RequestOk ps tps) = counted_params_bytes ps @ props_bytes tps"

text \<open>
  \<^verbatim>\<open>buf[n] = byte(payloadSize >> 8); buf[n+1] = byte(payloadSize)\<close>: the high byte of a size of
  $2^{16}$ or more is cut off.
\<close>

definition length_field :: "nat \<Rightarrow> bytes" where
  "length_field sz = [word_of_nat (sz div 2 ^ 8), word_of_nat sz]"

definition ctl_marshalSize :: "message \<Rightarrow> nat" where
  "ctl_marshalSize m = varint_MarshalSize (message_type m) + 2 + payload_size m"

definition ctl_marshalTo :: "message \<Rightarrow> moq_error wr" where
  "ctl_marshalTo m =
     w_seq (varint_MarshalTo (message_type m))
       (w_seq (w_put (length_field (payload_size m))) (payload_writer m))"

definition ctl_bytes :: "message \<Rightarrow> bytes" where
  "ctl_bytes m =
     varint_bytes (message_type m) @ length_field (payload_size m) @ payload_bytes m"

definition ctl_Marshal :: "message \<Rightarrow> (moq_error, bytes) outcome" where
  "ctl_Marshal m =
     obind (ctl_marshalTo m (replicate (ctl_marshalSize m) 0)) (\<lambda>(buf, _). Ret buf)"

text \<open>Every parameter of the message can be decoded again.\<close>

fun message_params :: "message \<Rightarrow> parameter list" where
  "message_params Setup = []"
| "message_params (Subscribe _ _ _ ps) = ps"
| "message_params (SubscribeOk _ ps _) = ps"
| "message_params (RequestError _ _) = []"
| "message_params (Publish _ _ _ _ ps _) = ps"
| "message_params (RequestOk ps _) = ps"

definition wf_message :: "message \<Rightarrow> bool" where
  "wf_message m \<longleftrightarrow> list_all wf_param (message_params m) \<and> payload_size m < 2 ^ 16"

section \<open>The encoder\<close>

lemma length_string_bytes: "length (string_bytes s) = string_size s"
  by (simp add: string_bytes_def string_size_def length_varint_bytes)

lemma length_namespace_bytes: "length (namespace_bytes ns) = namespace_size ns"
  by (simp add: namespace_bytes_def namespace_size_def length_varint_bytes length_concat comp_def
      length_string_bytes)

lemma length_counted_params_bytes: "length (counted_params_bytes ps) = counted_params_size ps"
  by (simp add: counted_params_bytes_def counted_params_size_def length_varint_bytes
      length_params_bytes)

lemmas field_lengths = length_varint_bytes length_string_bytes length_namespace_bytes
  length_counted_params_bytes length_props_bytes

lemma length_payload_bytes: "length (payload_bytes m) = payload_size m"
  by (cases m) (simp_all add: field_lengths)

lemma writes_string [wire_intros]: "writes (string_writer s) (string_bytes s)"
  unfolding string_writer_def string_bytes_def by (intro wire_intros)

lemma writes_strings [wire_intros]: "writes (strings_writer ss) (concat (map string_bytes ss))"
  by (induction ss) (auto intro!: wire_intros)

lemma writes_namespace [wire_intros]: "writes (namespace_writer ns) (namespace_bytes ns)"
  unfolding namespace_writer_def namespace_bytes_def by (intro wire_intros)

lemma writes_counted_params [wire_intros]:
  "writes (counted_params_writer ps) (counted_params_bytes ps)"
  unfolding counted_params_writer_def counted_params_bytes_def by (intro wire_intros)

lemma writes_payload [wire_intros]: "writes (payload_writer m) (payload_bytes m)"
  by (cases m) (simp_all only: payload_writer.simps payload_bytes.simps payload_defs, (intro wire_intros)+)

lemma writes_ctl: "writes (ctl_marshalTo m) (ctl_bytes m)"
  unfolding ctl_marshalTo_def ctl_bytes_def by (intro wire_intros)

lemma length_ctl_bytes: "length (ctl_bytes m) = ctl_marshalSize m"
  by (simp add: ctl_bytes_def ctl_marshalSize_def length_field_def length_varint_bytes
      length_payload_bytes)

interpretation ctl: encoder ctl_marshalSize ctl_marshalTo ctl_bytes
  by unfold_locales (simp_all add: length_ctl_bytes writes_ctl)

lemma ctl_Marshal_bytes: "ctl_Marshal m = Ret (ctl_bytes m)"
  by (simp add: ctl_Marshal_def ctl.marshal_fresh)

section \<open>The decoder undoes the encoder\<close>

lemma take_varint_bytes [simp]: "take_varint (varint_bytes v @ rest) = Ret (v, rest)"
  by (simp add: take_varint_def varint_Unmarshal_bytes)

lemma take_varint_zero [simp]: "take_varint (0 # rest) = Ret (0, rest)"
  using take_varint_bytes [of 0 rest] by (simp add: varint_bytes_def)

lemma take_string_bytes:
  assumes "string_size s < 2 ^ 16"
  shows "take_string e (string_bytes s @ rest) = Ret (s, rest)"
proof -
  have "length s < 2 ^ 63" using assms by (simp add: string_size_def)
  then show ?thesis
    by (simp add: take_string_def string_bytes_def sint_u64_of_len uint_u64_of_len)
qed

lemma namespace_loop_bytes:
  assumes "sum_list (map string_size ss) < 2 ^ 16"
  shows "namespace_loop (length ss) acc (concat (map string_bytes ss) @ rest) = Ret (acc @ ss, rest)"
  using assms by (induction ss arbitrary: acc) (simp_all add: take_string_bytes)

lemma length_le_string_sizes: "length ss \<le> sum_list (map string_size ss)"
proof (induction ss)
  case (Cons s ss)
  have "1 \<le> string_size s"
    using varint_MarshalSize_bounds(1) [of "u64_of_len (length s)"]
    by (simp add: string_size_def)
  with Cons show ?case by simp
qed simp

lemma take_namespace_bytes:
  assumes "namespace_size ns < 2 ^ 16"
  shows "take_namespace (namespace_bytes ns @ rest) = Ret (ns, rest)"
proof -
  from assms have sum: "sum_list (map string_size ns) < 2 ^ 16"
    by (simp add: namespace_size_def)
  then have len: "length ns < 2 ^ 16"
    using length_le_string_sizes [of ns] by linarith
  then have "unat (u64_of_len (length ns)) = length ns"
    by (simp add: unat_u64_of_len)
  then show ?thesis using len sum
    by (simp add: take_namespace_def namespace_bytes_def go_make_def max_alloc_def
        namespace_loop_bytes)
qed

lemma length_le_params_size_from: "length ps \<le> params_size_from t ps"
proof (induction ps arbitrary: t)
  case (Cons p ps)
  from Cons [of "paramType p"] show ?case
    using varint_MarshalSize_bounds(1) [of "paramType p - t"] by simp
qed simp

lemma params_count_bound:
  assumes "counted_params_size ps < 2 ^ 16"
  shows "length ps < 2 ^ 64"
  using assms length_le_params_size_from [of ps 0]
  by (simp add: counted_params_size_def params_MarshalSize_def)

lemma take_params_bytes:
  assumes "list_all wf_param ps" "counted_params_size ps < 2 ^ 16"
  shows "take_params (counted_params_bytes ps @ rest) = Ret (ps, rest)"
  using params_count_bound [OF assms(2)] assms(1)
  by (simp add: take_params_def counted_params_bytes_def params_Unmarshal_bytes)

lemma unmarshal_as_payload:
  assumes "wf_message m"
  shows "unmarshal_as (message_type m) (payload_bytes m) = Ret m"
proof (cases m)
  case Setup
  then show ?thesis by (simp add: unmarshal_as_def setup_unmarshal_def)
next
  case (Subscribe rid ns tn ps)
  with assms have wf: "list_all wf_param ps" "namespace_size ns < 2 ^ 16"
    "string_size tn < 2 ^ 16" "counted_params_size ps < 2 ^ 16"
    by (simp_all add: wf_message_def)
  from params_Unmarshal_bytes [OF wf(1) params_count_bound [OF wf(4)], of "[]"] wf
  show ?thesis using Subscribe
    by (simp add: unmarshal_as_def message_type_defs subscribe_unmarshal_def
        take_namespace_bytes take_string_bytes counted_params_bytes_def)
next
  case (SubscribeOk ta ps tps)
  with assms show ?thesis
    by (simp add: wf_message_def unmarshal_as_def message_type_defs subscribe_ok_unmarshal_def
        take_params_bytes props_Unmarshal_bytes)
next
  case (RequestError code reason)
  with assms have "length reason < 2 ^ 63"
    by (simp add: wf_message_def string_size_def)
  with RequestError show ?thesis
    by (simp add: unmarshal_as_def message_type_defs request_error_unmarshal_def string_bytes_def
        sint_u64_of_len uint_u64_of_len)
next
  case (Publish rid ns tn ta ps tps)
  with assms show ?thesis
    by (simp add: wf_message_def unmarshal_as_def message_type_defs publish_unmarshal_def
        take_namespace_bytes take_string_bytes take_params_bytes props_Unmarshal_bytes)
next
  case (RequestOk ps tps)
  with assms show ?thesis
    by (simp add: wf_message_def unmarshal_as_def message_type_defs request_ok_unmarshal_def
        take_params_bytes props_Unmarshal_bytes)
qed

text \<open>The two bytes of the length field hold the size modulo $2^{16}$.\<close>

lemma length_field_value:
  "unat (push_bit 8 (ucast (length_field sz ! 0)) OR ucast (length_field sz ! 1) :: 16 word)
   = sz mod 2 ^ 16"
proof -
  have div_256: "sz div 256 = drop_bit 8 sz" by (simp add: drop_bit_eq_div)
  have "(push_bit 8 (ucast (length_field sz ! 0)) OR ucast (length_field sz ! 1) :: 16 word)
      = word_of_nat sz"
    by (rule bit_word_eqI) (auto simp: length_field_def bit_simps div_256)
  then show ?thesis by (simp add: unsigned_of_nat take_bit_eq_mod)
qed

lemma ctl_Read_bytes:
  assumes "wf_message m"
  shows "ctl_Read (ctl_bytes m @ rest) = Ret (m, rest)"
proof -
  have sz: "payload_size m mod 2 ^ 16 = payload_size m"
    using assms by (simp add: wf_message_def)
  have "io_ReadFull 2 (length_field (payload_size m) @ payload_bytes m @ rest)
      = Ret (length_field (payload_size m), payload_bytes m @ rest)"
    by (rule io_ReadFull_append) (simp add: length_field_def)
  then show ?thesis
    unfolding ctl_Read_def ctl_bytes_def append_assoc varint_Read_bytes
    by (simp add: length_field_value [simplified] sz [simplified] length_payload_bytes
        unmarshal_as_payload assms Let_def)
qed

text \<open>
  Whatever the size, the frame announces the payload modulo $2^{16}$: the reader of an oversized
  message stops in the middle of it.
\<close>

lemma ctl_Read_frame:
  "ctl_Read (ctl_bytes m @ rest) =
   obind (unmarshal_as (message_type m) (take (payload_size m mod 2 ^ 16) (payload_bytes m)))
     (\<lambda>m'. Ret (m', drop (payload_size m mod 2 ^ 16) (payload_bytes m) @ rest))"
proof -
  have "io_ReadFull 2 (length_field (payload_size m) @ payload_bytes m @ rest)
      = Ret (length_field (payload_size m), payload_bytes m @ rest)"
    by (rule io_ReadFull_append) (simp add: length_field_def)
  moreover have "payload_size m mod 2 ^ 16 \<le> length (payload_bytes m)"
    by (simp add: length_payload_bytes)
  ultimately show ?thesis
    unfolding ctl_Read_def ctl_bytes_def append_assoc varint_Read_bytes
    by (simp add: length_field_value [simplified] Let_def io_ReadFull_def)
qed

text \<open>
  A string length with the top bit set passes \<^verbatim>\<open>len(buf) < int(l)\<close> as a negative number
  and the slice expression panics.
\<close>

lemma take_string_panics:
  assumes "sint l < 0" "in_memory rest"
  shows "take_string e (varint_bytes l @ rest) = Panic"
  using assms sint_neg_uint [OF assms(1)]
  by (simp add: take_string_def slice_to_def in_memory_def max_alloc_def)

section \<open>Correctness\<close>

text \<open>C33.
  Round trip of the control messages: a message whose payload fits the 16-bit length field is read
  back from what \<open>Marshal\<close> returns, and the reader stops at its end.
\<close>
theorem control_message_roundtrip:
  assumes "wf_message m"
  shows "obind (ctl_Marshal m) (\<lambda>buf. ctl_Read (buf @ rest)) = Ret (m, rest)"
  by (simp add: ctl_Marshal_bytes ctl_Read_bytes [OF assms])

definition sample_publish :: message where
  "sample_publish =
     Publish 7 [[108, 105, 118, 101], [97]] [118] 300
       [AuthorizationToken \<lparr>AliasType = 3, TokenType = 0, TokenValue = [1, 2, 3]\<rparr>] [Timestamp 70000]"

lemma wf_sample_publish: "wf_message sample_publish"
  by (simp add: sample_publish_def wf_message_def wf_token_def AliasTypeUseValue_def in_memory_def
      max_alloc_def namespace_size_def string_size_def counted_params_size_def params_MarshalSize_def
      props_MarshalSize_def token_marshalSize_def token_innerSize_def varint_MarshalSize_def
      u64_of_len_def typeAuthorizationToken_def timestampPropertyType_def)

theorem control_message_roundtrip_witness:
  "wf_message sample_publish \<and>
   obind (ctl_Marshal sample_publish) (\<lambda>buf. ctl_Read (buf @ [255])) = Ret (sample_publish, [255])"
  using control_message_roundtrip [OF wf_sample_publish] wf_sample_publish by simp

text \<open>
  Marshalling a control message never fails or panics and fills exactly the \<open>marshalSize\<close> bytes it
  has allocated, whatever the message.
\<close>
lemma control_message_marshal_total:
  "\<exists>buf. ctl_Marshal m = Ret buf \<and> length buf = ctl_marshalSize m"
  by (simp add: ctl_Marshal_bytes length_ctl_bytes)

text \<open>
  The length field has 16 bits and the writer does not check: of a larger payload the reader sees
  the size modulo 65536, decodes that prefix as the message and takes the rest for the next one.
\<close>
lemma control_message_length_wraps:
  "obind (ctl_Marshal m) (\<lambda>buf. ctl_Read (buf @ rest)) =
   obind (unmarshal_as (message_type m) (take (payload_size m mod 2 ^ 16) (payload_bytes m)))
     (\<lambda>m'. Ret (m', drop (payload_size m mod 2 ^ 16) (payload_bytes m) @ rest))"
  unfolding ctl_Marshal_bytes by (simp only: obind.simps ctl_Read_frame)

text \<open>
  A SUBSCRIBE whose track name announces a length of $2^{63}$ or more makes the decoder panic
  instead of returning an error: the length passes the signed bounds check.
\<close>
lemma subscribe_length_panics:
  assumes "sint l < 0" "in_memory rest"
  shows "subscribe_unmarshal (varint_bytes rid @ varint_bytes 0 @ varint_bytes l @ rest) = Panic"
  by (simp add: subscribe_unmarshal_def take_namespace_def take_string_panics [OF assms] go_make_def
      max_alloc_def)

lemma subscribe_length_panics_instance:
  "sint (-1 :: u64) < 0 \<and> in_memory [0 :: byte] \<and>
   subscribe_unmarshal (varint_bytes 1 @ varint_bytes 0 @ varint_bytes (-1) @ [0]) = Panic"
  using subscribe_length_panics [of "-1" "[0]" 1] by (simp add: in_memory_def max_alloc_def)

end
