(* ===== verification/Moq_Subgroup.thy ===== *)
theory Moq_Subgroup
  imports Moq_Property
begin

text \<open>
  \<^verbatim>\<open>internal/protocols/moq/subgroup\<close>: the data streams. A subgroup is a header followed by
  objects and closed by an empty end-of-group object; the reader supports one object.
\<close>

unbundle bit_operations_syntax

section \<open>Headers\<close>

record header =
  Properties :: bool
  FirstObject :: bool
  TrackAlias :: u64
  GroupID :: u64

text \<open>
  \<open>Header.read\<close> takes its first byte with one \<^verbatim>\<open>r.Read\<close>, which at the end of the stream
  reports \<^verbatim>\<open>io.EOF\<close>.
\<close>

definition header_read :: "bytes \<Rightarrow> (moq_error, header \<times> bytes) outcome" where
  "header_read r =
     (case r of
        [] \<Rightarrow> Fail (IoErr EOF)
      | b # r1 \<Rightarrow>
          obind (varint_Read r1) (\<lambda>(trackAlias, r2).
          obind (varint_Read r2) (\<lambda>(groupID, r3).
          Ret (\<lparr>Properties = (b AND 0x01 \<noteq> 0), FirstObject = (b AND 0x40 \<noteq> 0),
                TrackAlias = trackAlias, GroupID = groupID\<rparr>, r3))))"

definition header_type :: "header \<Rightarrow> u64" where
  "header_type h =
     (let st = 0x30;
          st = (if Properties h then st OR 0x01 else st)
      in if FirstObject h then st OR 0x40 else st)"

definition header_marshalSize :: "header \<Rightarrow> nat" where
  "header_marshalSize h =
     varint_MarshalSize (header_type h) + varint_MarshalSize (TrackAlias h) +
     varint_MarshalSize (GroupID h)"

definition header_marshalTo :: "header \<Rightarrow> moq_error wr" where
  "header_marshalTo h =
     w_seq (varint_MarshalTo (header_type h))
       (w_seq (varint_MarshalTo (TrackAlias h)) (varint_MarshalTo (GroupID h)))"

definition header_bytes :: "header \<Rightarrow> bytes" where
  "header_bytes h =
     varint_bytes (header_type h) @ varint_bytes (TrackAlias h) @ varint_bytes (GroupID h)"

section \<open>Objects\<close>

definition maxPayloadSize :: nat where
  "maxPayloadSize = 10 * 1024 * 1024"

record object =
  IDDelta :: u64
  ObjProperties :: "property list"
  Payload :: bytes

text \<open>The properties of an object, present when the header says so.\<close>

definition object_read_props :: "header \<Rightarrow> bytes \<Rightarrow> (moq_error, property list \<times> bytes) outcome" where
  "object_read_props h r =
     (if Properties h then
        obind (varint_Read r) (\<lambda>(propsLen, r1).
        if 0 < propsLen then
          obind (go_make 1 propsLen) (\<lambda>k.
          obind (omap_err IoErr (io_ReadFull k r1)) (\<lambda>(buf, r2).
          obind (props_Unmarshal buf) (\<lambda>ps. Ret (ps, r2))))
        else Ret ([], r1))
      else Ret ([], r))"

definition object_read :: "header \<Rightarrow> bytes \<Rightarrow> (moq_error, object \<times> bytes) outcome" where
  "object_read h r =
     obind (varint_Read r) (\<lambda>(idDelta, r1).
     obind (object_read_props h r1) (\<lambda>(ps, r2).
     obind (varint_Read r2) (\<lambda>(payloadLen, r3).
     if payloadLen = 0 then
       obind (varint_Read r3) (\<lambda>(status, r4).
       if status \<noteq> 0x03 \<and> status \<noteq> 0x04 then Fail (UnexpectedStatus status)
       else Ret (\<lparr>IDDelta = idDelta, ObjProperties = ps, Payload = []\<rparr>, r4))
     else if maxPayloadSize < unat payloadLen then Fail (PayloadTooLarge payloadLen)
     else
       obind (go_make 1 payloadLen) (\<lambda>k.
       obind (omap_err IoErr (io_ReadFull k r3)) (\<lambda>(payload, r4).
       Ret (\<lparr>IDDelta = idDelta, ObjProperties = ps, Payload = payload\<rparr>, r4))))))"

definition object_props_size :: "header \<Rightarrow> object \<Rightarrow> nat" where
  "object_props_size h ob =
     (if Properties h then
        (let propsLen = props_MarshalSize (ObjProperties ob)
         in varint_MarshalSize (u64_of_len propsLen) + propsLen)
      else 0)"

definition object_marshalSize :: "header \<Rightarrow> object \<Rightarrow> nat" where
  "object_marshalSize h ob =
     (if Payload ob = [] then varint_MarshalSize (IDDelta ob) + object_props_size h ob + 2
      else varint_MarshalSize (IDDelta ob) + object_props_size h ob +
           varint_MarshalSize (u64_of_len (length (Payload ob))) + length (Payload ob))"

definition object_props_writer :: "header \<Rightarrow> object \<Rightarrow> moq_error wr" where
  "object_props_writer h ob =
     (if Properties h then
        w_seq (varint_MarshalTo (u64_of_len (props_MarshalSize (ObjProperties ob))))
          (props_MarshalTo (ObjProperties ob))
      else w_nil)"

definition object_payload_writer :: "object \<Rightarrow> moq_error wr" where
  "object_payload_writer ob =
     (if Payload ob = [] then w_seq (w_put [0x00]) (w_put [0x03])
      else w_seq (varint_MarshalTo (u64_of_len (length (Payload ob)))) (w_copy (Payload ob)))"

definition object_marshalTo :: "header \<Rightarrow> object \<Rightarrow> moq_error wr" where
  "object_marshalTo h ob =
     w_seq (varint_MarshalTo (IDDelta ob))
       (w_seq (object_props_writer h ob) (object_payload_writer ob))"

definition object_props_bytes :: "header \<Rightarrow> object \<Rightarrow> bytes" where
  "object_props_bytes h ob =
     (if Properties h
      then varint_bytes (u64_of_len (props_MarshalSize (ObjProperties ob))) @
           props_bytes (ObjProperties ob)
      else [])"

definition object_payload_bytes :: "object \<Rightarrow> bytes" where
  "object_payload_bytes ob =
     (if Payload ob = [] then [0x00, 0x03]
      else varint_bytes (u64_of_len (length (Payload ob))) @ Payload ob)"

definition object_bytes :: "header \<Rightarrow> object \<Rightarrow> bytes" where
  "object_bytes h ob =
     varint_bytes (IDDelta ob) @ object_props_bytes h ob @ object_payload_bytes ob"

section \<open>Subgroups\<close>

record subgroup =
  Header :: header
  Objects :: "object list"

text \<open>\<^verbatim>\<open>Object{Payload: nil}\<close>, the end of the group.\<close>

definition end_object :: object where
  "end_object = \<lparr>IDDelta = 0, ObjProperties = [], Payload = []\<rparr>"

definition subgroup_Read :: "bytes \<Rightarrow> (moq_error, subgroup \<times> bytes) outcome" where
  "subgroup_Read r =
     obind (header_read r) (\<lambda>(h, r1).
     obind (object_read h r1) (\<lambda>(o1, r2).
     obind (object_read h r2) (\<lambda>(o2, r3).
     if Payload o2 \<noteq> [] then Fail UnexpectedSecondObject
     else Ret (\<lparr>Header = h, Objects = [o1]\<rparr>, r3))))"

definition subgroup_marshalSize :: "subgroup \<Rightarrow> nat" where
  "subgroup_marshalSize s =
     header_marshalSize (Header s) + sum_list (map (object_marshalSize (Header s)) (Objects s)) +
     object_marshalSize (Header s) end_object"

fun objects_writer :: "header \<Rightarrow> object list \<Rightarrow> moq_error wr" where
  "objects_writer h [] = w_nil"
| "objects_writer h (ob # obs) = w_seq (object_marshalTo h ob) (objects_writer h obs)"

definition subgroup_marshalTo :: "subgroup \<Rightarrow> moq_error wr" where
  "subgroup_marshalTo s =
     w_seq (header_marshalTo (Header s))
       (w_seq (objects_writer (Header s) (Objects s)) (object_marshalTo (Header s) end_object))"

definition subgroup_bytes :: "subgroup \<Rightarrow> bytes" where
  "subgroup_bytes s =
     header_bytes (Header s) @ concat (map (object_bytes (Header s)) (Objects s)) @
     object_bytes (Header s) end_object"

definition subgroup_Marshal :: "subgroup \<Rightarrow> (moq_error, bytes) outcome" where
  "subgroup_Marshal s =
     obind (subgroup_marshalTo s (replicate (subgroup_marshalSize s) 0)) (\<lambda>(buf, _). Ret buf)"

text \<open>
  What the wire format carries: without the header flag an object has no properties, a payload
  is within the reader's limit, and the properties are in memory.
\<close>

definition wf_object :: "header \<Rightarrow> object \<Rightarrow> bool" where
  "wf_object h ob \<longleftrightarrow>
     (\<not> Properties h \<longrightarrow> ObjProperties ob = []) \<and>
     length (Payload ob) \<le> maxPayloadSize \<and>
     props_MarshalSize (ObjProperties ob) \<le> max_alloc"

definition wf_subgroup :: "subgroup \<Rightarrow> bool" where
  "wf_subgroup s \<longleftrightarrow> (\<exists>ob. Objects s = [ob] \<and> wf_object (Header s) ob)"

section \<open>The encoder\<close>

lemma length_header_bytes: "length (header_bytes h) = header_marshalSize h"
  by (simp add: header_bytes_def header_marshalSize_def length_varint_bytes)

lemma length_object_bytes: "length (object_bytes h ob) = object_marshalSize h ob"
  by (simp add: object_bytes_def object_marshalSize_def object_props_bytes_def
      object_props_size_def object_payload_bytes_def length_varint_bytes length_props_bytes Let_def)

lemma length_subgroup_bytes: "length (subgroup_bytes s) = subgroup_marshalSize s"
  by (simp add: subgroup_bytes_def subgroup_marshalSize_def length_header_bytes
      length_object_bytes length_concat comp_def)

lemma writes_header [wire_intros]: "writes (header_marshalTo h) (header_bytes h)"
  unfolding header_marshalTo_def header_bytes_def by (intro wire_intros)

lemma writes_object_props [wire_intros]:
  "writes (object_props_writer h ob) (object_props_bytes h ob)"
  by (auto simp: object_props_writer_def object_props_bytes_def intro!: wire_intros)

lemma writes_object_payload [wire_intros]:
  "writes (object_payload_writer ob) (object_payload_bytes ob)"
  using writes_seq [OF writes_put [of "[0x00]"] writes_put [of "[0x03]"]]
  by (auto simp: object_payload_writer_def object_payload_bytes_def intro!: wire_intros)

lemma writes_object [wire_intros]: "writes (object_marshalTo h ob) (object_bytes h ob)"
  unfolding object_marshalTo_def object_bytes_def by (intro wire_intros)

lemma writes_objects [wire_intros]:
  "writes (objects_writer h obs) (concat (map (object_bytes h) obs))"
  by (induction obs) (auto intro!: wire_intros)

lemma writes_subgroup: "writes (subgroup_marshalTo s) (subgroup_bytes s)"
  unfolding subgroup_marshalTo_def subgroup_bytes_def by (intro wire_intros)

interpretation subgroup_enc: encoder subgroup_marshalSize subgroup_marshalTo subgroup_bytes
  by unfold_locales (simp_all add: length_subgroup_bytes writes_subgroup)

lemma subgroup_Marshal_bytes: "subgroup_Marshal s = Ret (subgroup_bytes s)"
  by (simp add: subgroup_Marshal_def subgroup_enc.marshal_fresh)

section \<open>The decoder undoes the encoder\<close>

lemma varint_Read_byte:
  "b < 0x80 \<Longrightarrow> varint_Read (ucast (b :: u64) # rest) = Ret (b, rest)"
  using varint_Read_bytes [of b rest] by (simp add: varint_bytes_def)

lemma header_type_cases:
  "header_type h = (if Properties h then if FirstObject h then 0x71 else 0x31
                    else if FirstObject h then 0x70 else 0x30)"
  by (simp add: header_type_def Let_def)

lemma header_read_bytes: "header_read (header_bytes h @ rest) = Ret (h, rest)"
proof -
  have "varint_bytes (header_type h) = [ucast (header_type h)]"
    by (simp add: header_type_cases varint_bytes_def)
  then show ?thesis
    by (cases h) (simp add: header_read_def header_bytes_def header_type_cases)
qed

lemma object_read_props_bytes:
  assumes "wf_object h ob"
  shows "object_read_props h (object_props_bytes h ob @ rest) = Ret (ObjProperties ob, rest)"
proof (cases "Properties h")
  case True
  let ?sz = "props_MarshalSize (ObjProperties ob)"
  have sz: "?sz < 2 ^ 64" "?sz \<le> max_alloc" "unat (u64_of_len ?sz) = ?sz"
    using assms by (simp_all add: wf_object_def max_alloc_def unat_u64_of_len)
  have pos: "0 < u64_of_len ?sz \<longleftrightarrow> 0 < ?sz"
    using sz(3) by (simp add: word_less_nat_alt)
  have nil: "ObjProperties ob = []" if "?sz = 0"
    using that length_props_bytes [of "ObjProperties ob"] props_Unmarshal_bytes [of "ObjProperties ob"]
      props_Unmarshal_bytes [of "[]"] by (simp add: props_bytes_def)
  show ?thesis
    using True sz pos nil length_props_bytes [of "ObjProperties ob"]
    by (auto simp: object_read_props_def object_props_bytes_def go_make_def props_Unmarshal_bytes)
next
  case False
  with assms show ?thesis
    by (simp add: object_read_props_def object_props_bytes_def wf_object_def)
qed

lemma object_read_bytes:
  assumes "wf_object h ob"
  shows "object_read h (object_bytes h ob @ rest) = Ret (ob, rest)"
proof (cases "Payload ob = []")
  case True
  have "varint_Read (0x00 # 0x03 # rest) = Ret (0, 0x03 # rest)"
    "varint_Read (0x03 # rest) = Ret (0x03, rest)"
    using varint_Read_byte [of 0 "0x03 # rest"] varint_Read_byte [of 3 rest] by simp_all
  with True assms show ?thesis
    by (simp add: object_read_def object_bytes_def object_read_props_bytes object_payload_bytes_def)
next
  case False
  let ?n = "length (Payload ob)"
  have n: "?n \<le> maxPayloadSize" "unat (u64_of_len ?n) = ?n" "?n \<le> max_alloc"
    using assms by (simp_all add: wf_object_def maxPayloadSize_def unat_u64_of_len max_alloc_def)
  moreover from n(2) False have "u64_of_len ?n \<noteq> 0" by (auto simp: unat_eq_0 [symmetric])
  ultimately show ?thesis using False assms
    by (simp add: object_read_def object_bytes_def object_read_props_bytes object_payload_bytes_def
        go_make_def)
qed

lemma wf_end_object: "wf_object h end_object"
  by (simp add: wf_object_def end_object_def maxPayloadSize_def max_alloc_def props_MarshalSize_def)

lemma subgroup_Read_bytes:
  assumes "wf_subgroup s"
  shows "subgroup_Read (subgroup_bytes s @ rest) = Ret (s, rest)"
proof -
  from assms obtain ob where ob: "Objects s = [ob]" "wf_object (Header s) ob"
    by (auto simp: wf_subgroup_def)
  then show ?thesis
    by (cases s) (simp add: subgroup_Read_def subgroup_bytes_def header_read_bytes
        object_read_bytes wf_end_object, simp add: end_object_def)
qed

text \<open>
  The reader's limit on a subgroup: whatever it accepts has one object whose payload is at most
  10 MiB.
\<close>

lemma object_read_payload_bound:
  "object_read h r = Ret (ob, r') \<Longrightarrow> length (Payload ob) \<le> maxPayloadSize"
  by (auto simp: object_read_def outcome_eqs io_ReadFull_Ret go_make_def split: if_splits)

lemma subgroup_Read_bound:
  assumes "subgroup_Read r = Ret (s, r')"
  shows "\<exists>ob. Objects s = [ob] \<and> length (Payload ob) \<le> maxPayloadSize"
  using assms object_read_payload_bound
  by (auto simp: subgroup_Read_def outcome_eqs split: if_splits)

section \<open>Correctness\<close>

text \<open>C34.
  Round trip of the data streams: a subgroup with one object within the limits is read back from
  what \<open>Marshal\<close> returns, up to and including its end-of-group object.
\<close>
theorem subgroup_roundtrip:
  assumes "wf_subgroup s"
  shows "obind (subgroup_Marshal s) (\<lambda>buf. subgroup_Read (buf @ rest)) = Ret (s, rest)"
  by (simp add: subgroup_Marshal_bytes subgroup_Read_bytes [OF assms])

definition sample_subgroup :: subgroup where
  "sample_subgroup =
     \<lparr>Header = \<lparr>Properties = True, FirstObject = True, TrackAlias = 3, GroupID = 500\<rparr>,
      Objects = [\<lparr>IDDelta = 0, ObjProperties = [Timestamp 90000], Payload = [1, 2, 3]\<rparr>]\<rparr>"

lemma wf_sample_subgroup: "wf_subgroup sample_subgroup"
  by (simp add: sample_subgroup_def wf_subgroup_def wf_object_def maxPayloadSize_def max_alloc_def
      props_MarshalSize_def varint_MarshalSize_def timestampPropertyType_def)

theorem subgroup_roundtrip_witness:
  "wf_subgroup sample_subgroup \<and>
   obind (subgroup_Marshal sample_subgroup) (\<lambda>buf. subgroup_Read (buf @ [9])) = Ret (sample_subgroup, [9])"
  using subgroup_roundtrip [OF wf_sample_subgroup] wf_sample_subgroup by simp

text \<open>
  Whatever bytes the peer sends, a subgroup that is accepted has one object and a payload of at
  most 10 MiB.
\<close>
lemma subgroup_payload_limit:
  assumes "subgroup_Read r = Ret (s, r')"
  shows "\<exists>ob. Objects s = [ob] \<and> length (Payload ob) \<le> maxPayloadSize"
  by (rule subgroup_Read_bound [OF assms])

lemma subgroup_payload_limit_instance:
  "subgroup_Read (subgroup_bytes sample_subgroup) = Ret (sample_subgroup, []) \<and>
   (\<exists>ob. Objects sample_subgroup = [ob] \<and> length (Payload ob) \<le> maxPayloadSize)"
  using subgroup_payload_limit [of "subgroup_bytes sample_subgroup" sample_subgroup "[]"]
    subgroup_Read_bytes [OF wf_sample_subgroup, of "[]"] by simp

end
