(* ===== verification/Moq_Reorderer.thy ===== *)
theory Moq_Reorderer
  imports Moq_Subgroup "HOL-Library.AList"
begin

text \<open>
  \<^verbatim>\<open>internal/protocols/moq/reorderer\<close>: puts subgroups back in the order of their group ids.
  The map of pending subgroups is an association list with distinct keys, so that its length is
  Go's \<^verbatim>\<open>len\<close>.
\<close>

section \<open>State and operations\<close>

record reorderer =
  MaxReordered :: int
  initialized :: bool
  curGroupID :: u64
  pending :: "(u64 \<times> subgroup) list"

abbreviation gid :: "subgroup \<Rightarrow> u64" where
  "gid sg \<equiv> GroupID (Header sg)"

definition reorderer_Initialize :: "reorderer \<Rightarrow> reorderer" where
  "reorderer_Initialize r = r\<lparr>pending := []\<rparr>"

text \<open>
  The first loop of \<open>flushUpTo\<close>, \<^verbatim>\<open>for i := cur+1; i <= max; i++\<close>, on machine words:
  \<open>None\<close> means that it does not end.
\<close>

partial_function (option) flush_range ::
  "u64 \<Rightarrow> u64 \<Rightarrow> (u64 \<times> subgroup) list \<Rightarrow> subgroup list \<Rightarrow>
   (subgroup list \<times> (u64 \<times> subgroup) list) option" where
  "flush_range maxGroupID i pend out =
     (if i \<le> maxGroupID then
        (case map_of pend i of
           Some e \<Rightarrow> flush_range maxGroupID (i + 1) (AList.delete i pend) (out @ [e])
         | None \<Rightarrow> flush_range maxGroupID (i + 1) pend out)
      else Some (out, pend))"

text \<open>The second loop: subgroups that directly follow. Each round removes one.\<close>

lemma delete_shorter: "map_of pend k = Some e \<Longrightarrow> length (AList.delete k pend) < length pend"
  by (induction pend) (auto simp: less_Suc_eq_le AList.length_delete_le split: if_splits)

function flush_next ::
  "u64 \<Rightarrow> (u64 \<times> subgroup) list \<Rightarrow> subgroup list \<Rightarrow> subgroup list \<times> u64 \<times> (u64 \<times> subgroup) list" where
  "flush_next cur pend out =
     (case map_of pend (cur + 1) of
        None \<Rightarrow> (out, cur, pend)
      | Some e \<Rightarrow> flush_next (cur + 1) (AList.delete (cur + 1) pend) (out @ [e]))"
  by pat_completeness auto
termination
  by (relation "measure (\<lambda>(_, pend, _). length pend)") (auto dest: delete_shorter)

declare flush_next.simps [simp del]

definition flushUpTo :: "reorderer \<Rightarrow> u64 \<Rightarrow> (reorderer \<times> subgroup list) option" where
  "flushUpTo r maxGroupID =
     map_option (\<lambda>(out, pend).
       let (out', cur', pend') = flush_next maxGroupID pend out
       in (r\<lparr>curGroupID := cur', pending := pend'\<rparr>, out'))
     (flush_range maxGroupID (curGroupID r + 1) (pending r) [])"

datatype reorder_log = SkippingOutOfOrder | TooManyReordered

definition Push :: "reorderer \<Rightarrow> subgroup \<Rightarrow> (reorderer \<times> subgroup list \<times> reorder_log list) option" where
  "Push r sg =
     (if \<not> initialized r then
        Some (r\<lparr>initialized := True, curGroupID := gid sg\<rparr>, [sg], [])
      else if gid sg \<le> curGroupID r then Some (r, [], [SkippingOutOfOrder])
      else if gid sg = curGroupID r + 1 \<and> pending r = [] then
        Some (r\<lparr>curGroupID := gid sg\<rparr>, [sg], [])
      else
        let r1 = r\<lparr>pending := AList.update (gid sg) sg (pending r)\<rparr>;
            diff = gid sg - curGroupID r;
            countInRange = (word_of_nat (length (filter (\<lambda>(k, _). k \<le> gid sg) (pending r1))) :: u64)
        in if countInRange = diff then
             map_option (\<lambda>(r2, out). (r2, out, [])) (flushUpTo r1 (gid sg))
           else if MaxReordered r1 < int (length (pending r1)) then
             map_option (\<lambda>(r2, out). (r2, out, [TooManyReordered])) (flushUpTo r1 (gid sg))
           else Some (r1, [], []))"

section \<open>The loops\<close>

text \<open>Keys of the pending list, and when they are the group ids of their entries.\<close>

definition keyed :: "(u64 \<times> subgroup) list \<Rightarrow> bool" where
  "keyed pend \<longleftrightarrow> distinct (map fst pend) \<and> (\<forall>(k, sg) \<in> set pend. gid sg = k)"

lemma keyed_delete [simp]: "keyed pend \<Longrightarrow> keyed (AList.delete k pend)"
  by (auto simp: keyed_def AList.delete_eq distinct_map_filter)

lemma keyed_update:
  assumes "keyed pend"
  shows "keyed (AList.update (gid sg) sg pend)"
proof -
  have "distinct (map fst (AList.update (gid sg) sg pend))"
    using assms by (simp add: keyed_def AList.distinct_update)
  moreover have "gid s = k" if "(k, s) \<in> set (AList.update (gid sg) sg pend)" for k s
  proof -
    from that calculation have "map_of (AList.update (gid sg) sg pend) k = Some s"
      by simp
    then have "k = gid sg \<and> s = sg \<or> map_of pend k = Some s"
      by (auto simp: AList.update_conv' split: if_splits)
    with assms show ?thesis by (auto simp: keyed_def dest: map_of_SomeD)
  qed
  ultimately show ?thesis by (auto simp: keyed_def)
qed

lemma keyed_map_of: "keyed pend \<Longrightarrow> map_of pend k = Some e \<Longrightarrow> gid e = k"
  by (auto simp: keyed_def dest: map_of_SomeD)

lemma keyed_unique:
  "keyed pend \<Longrightarrow> map_of pend k = Some e \<Longrightarrow> (k, sg) \<in> set pend \<longleftrightarrow> sg = e"
  by (metis keyed_def map_of_eq_Some_iff option.inject)

lemma suc_le_word: "(i :: u64) \<noteq> - 1 \<Longrightarrow> i + 1 \<le> k \<longleftrightarrow> i < k"
  by (simp add: word_le_nat_alt word_less_nat_alt unat_suc Suc_le_eq)

text \<open>The entries of a list of subgroups, as the pending map would hold them.\<close>

abbreviation entries :: "subgroup list \<Rightarrow> (u64 \<times> subgroup) set" where
  "entries out \<equiv> (\<lambda>sg. (gid sg, sg)) ` set out"

text \<open>
  Below the largest word the first loop ends, with the pending entries up to the bound in
  strictly increasing order and the others left in place.
\<close>

lemma flush_range_returns:
  assumes "m \<noteq> - 1" "keyed pend" "\<forall>k \<in> fst ` set pend. i \<le> k"
  shows "\<exists>es. flush_range m i pend out = Some (out @ es, filter (\<lambda>(k, _). m < k) pend) \<and>
              sorted_wrt (<) (map gid es) \<and> entries es = {(k, sg) \<in> set pend. k \<le> m}"
  using assms
proof (induction "Suc (unat m) - unat i" arbitrary: i pend out rule: less_induct)
  case less
  show ?case
  proof (cases "i \<le> m")
    case False
    with less.prems(3) have "\<forall>(k, sg) \<in> set pend. m < k" by fastforce
    then have "filter (\<lambda>(k, _). m < k) pend = pend" "{(k, sg) \<in> set pend. k \<le> m} = {}"
      by (auto simp: filter_id_conv)
    with False show ?thesis by (simp add: flush_range.simps)
  next
    case True
    with less.prems(1) have i: "i \<noteq> - 1" by (metis word_n1_ge antisym)
    have smaller: "Suc (unat m) - unat (i + 1) < Suc (unat m) - unat i"
      using True i by (simp add: unat_suc word_le_nat_alt)
    show ?thesis
    proof (cases "map_of pend i")
      case None
      then have "\<forall>k \<in> fst ` set pend. i + 1 \<le> k"
        using less.prems(3) i by (auto simp: suc_le_word map_of_eq_None_iff order.strict_iff_order)
      from less.hyps [OF smaller less.prems(1,2) this, of out] True None show ?thesis
        by (simp add: flush_range.simps [of m i])
    next
      case (Some e)
      let ?pend = "AList.delete i pend"
      have set_del: "set ?pend = {x \<in> set pend. fst x \<noteq> i}"
        by (auto simp: AList.delete_eq)
      have "\<forall>k \<in> fst ` set ?pend. i + 1 \<le> k"
        using less.prems(3) i by (auto simp: set_del suc_le_word order.strict_iff_order)
      from less.hyps [OF smaller less.prems(1) keyed_delete [OF less.prems(2)] this, of "out @ [e]"]
      obtain es where es: "flush_range m (i + 1) ?pend (out @ [e])
            = Some (out @ e # es, filter (\<lambda>(k, _). m < k) ?pend)"
        "sorted_wrt (<) (map gid es)" "entries es = {(k, sg) \<in> set ?pend. k \<le> m}"
        by auto
      have gid_e: "gid e = i" "(i, e) \<in> set pend"
        using keyed_map_of [OF less.prems(2) Some] map_of_SomeD [OF Some] by auto
      have uniq: "(i, sg) \<in> set pend \<longleftrightarrow> sg = e" for sg
        by (rule keyed_unique [OF less.prems(2) Some])
      have "filter (\<lambda>(k, _). m < k) ?pend = filter (\<lambda>(k, _). m < k) pend"
        using True by (auto simp: AList.delete_eq intro!: filter_cong)
      moreover have "i < gid sg" if "sg \<in> set es" for sg
        using that es(3) less.prems(3) by (fastforce simp: set_del order.strict_iff_order)
      moreover have "entries (e # es) = {(k, sg) \<in> set pend. k \<le> m}"
        using es(3) gid_e True uniq by (auto simp: set_del)
      ultimately show ?thesis
        using es(1,2) True Some gid_e(1)
        by (intro exI [of _ "e # es"]) (simp add: flush_range.simps [of m i])
    qed
  qed
qed

text \<open>
  With the largest word as the bound the loop condition never fails, so \<open>flushUpTo\<close> does not
  return.
\<close>

lemma flush_range_bound:
  assumes "flush_range m i pend out = Some y"
  shows "m \<noteq> - 1"
  by (rule flush_range.raw_induct [of "\<lambda>m _ _ _ _. m \<noteq> - 1", OF _ assms])
    (auto split: option.splits if_splits)

lemma flush_range_diverges: "flush_range (- 1) i pend out = None"
  using flush_range_bound by (metis not_None_eq)

lemma flush_next_spec:
  assumes "keyed pend" "\<forall>k \<in> fst ` set pend. cur < k"
  shows "\<exists>es cur' pend'. flush_next cur pend out = (out @ es, cur', pend') \<and>
           sorted_wrt (<) (cur # map gid es) \<and> cur' = last (cur # map gid es) \<and>
           keyed pend' \<and> (\<forall>k \<in> fst ` set pend'. cur' < k) \<and> cur' + 1 \<notin> fst ` set pend' \<and>
           set pend = entries es \<union> set pend' \<and> length pend' \<le> length pend \<and>
           {cur<..cur'} \<subseteq> gid ` set es"
  using assms
proof (induction cur pend out rule: flush_next.induct)
  case (1 cur pend out)
  show ?case
  proof (cases "map_of pend (cur + 1)")
    case None
    then show ?thesis
      using "1.prems"
      by (intro exI [of _ "[]"] exI [of _ cur] exI [of _ pend])
        (simp add: flush_next.simps [of cur], simp add: map_of_eq_None_iff)
  next
    case (Some e)
    let ?pend = "AList.delete (cur + 1) pend"
    have set_del: "set ?pend = {x \<in> set pend. fst x \<noteq> cur + 1}"
      by (auto simp: AList.delete_eq)
    have mem: "(cur + 1, e) \<in> set pend" and gid_e: "gid e = cur + 1"
      using keyed_map_of [OF "1.prems"(1) Some] map_of_SomeD [OF Some] by auto
    have step: "cur < cur + 1" using "1.prems"(2) mem by force
    then have cur: "cur \<noteq> - 1" by (metis word_n1_ge leD)
    have "\<forall>k \<in> fst ` set ?pend. cur + 1 < k"
      using "1.prems"(2) by (auto simp: set_del order.strict_iff_order suc_le_word [OF cur])
    from "1.IH" [OF Some keyed_delete [OF "1.prems"(1)] this]
    obtain es cur' pend' where es:
      "flush_next (cur + 1) ?pend (out @ [e]) = (out @ e # es, cur', pend')"
      "sorted_wrt (<) ((cur + 1) # map gid es)" "cur' = last ((cur + 1) # map gid es)"
      "keyed pend'" "\<forall>k \<in> fst ` set pend'. cur' < k" "cur' + 1 \<notin> fst ` set pend'"
      "set ?pend = entries es \<union> set pend'" "length pend' \<le> length ?pend"
      "{cur + 1<..cur'} \<subseteq> gid ` set es"
      by auto
    have uniq: "(cur + 1, sg) \<in> set pend \<longleftrightarrow> sg = e" for sg
      by (rule keyed_unique [OF "1.prems"(1) Some])
    have "set pend = entries (e # es) \<union> set pend'"
    proof -
      have "set pend = insert (cur + 1, e) (set ?pend)"
        using mem by (auto simp: set_del dest: uniq [THEN iffD1])
      then show ?thesis using es(7) gid_e by simp
    qed
    moreover have "sorted_wrt (<) (cur # map gid (e # es))"
      using es(2) step gid_e by (auto dest: less_trans)
    moreover have "length pend' \<le> length pend"
      using es(8) AList.length_delete_le [of "cur + 1" pend] by linarith
    moreover have "{cur<..cur'} \<subseteq> gid ` set (e # es)"
      using es(9) gid_e by (auto simp: suc_le_word [OF cur] order.strict_iff_order subset_iff)
    ultimately show ?thesis
      using es gid_e Some
      by (intro exI [of _ "e # es"] exI [of _ cur'] exI [of _ pend'])
        (simp add: flush_next.simps [of cur])
  qed
qed


section \<open>The invariant\<close>

text \<open>
  Between calls: the pending entries lie beyond the current group and do not directly follow it
  (they would have been delivered), their number is bounded, and nothing is pending before the
  first subgroup.
\<close>

definition reo_inv :: "reorderer \<Rightarrow> bool" where
  "reo_inv r \<longleftrightarrow>
     keyed (pending r) \<and> 0 \<le> MaxReordered r \<and> int (length (pending r)) \<le> MaxReordered r \<and>
     (\<forall>k \<in> fst ` set (pending r). curGroupID r < k) \<and>
     curGroupID r + 1 \<notin> fst ` set (pending r) \<and>
     (\<not> initialized r \<longrightarrow> pending r = [])"

text \<open>What a call of \<open>Push\<close> promises about the delivered subgroups and the new state.\<close>

definition delivers ::
  "reorderer \<Rightarrow> subgroup \<Rightarrow> reorderer \<Rightarrow> subgroup list \<Rightarrow> reorder_log list \<Rightarrow> bool" where
  "delivers r sg r' out log \<longleftrightarrow>
     reo_inv r' \<and> initialized r' \<and> MaxReordered r' = MaxReordered r \<and>
     length (pending r') \<le> Suc (length (pending r)) \<and>
     (int (length (pending r)) < MaxReordered r \<longrightarrow> TooManyReordered \<notin> set log) \<and>
     (initialized r \<and> TooManyReordered \<notin> set log \<longrightarrow>
        {curGroupID r<..curGroupID r'} \<subseteq> gid ` set out) \<and>
     sorted_wrt (<) (map gid out) \<and>
     (out \<noteq> [] \<longrightarrow> curGroupID r' = gid (last out)) \<and> (out = [] \<longrightarrow> curGroupID r' = curGroupID r) \<and>
     (initialized r \<longrightarrow> (\<forall>s \<in> set out. curGroupID r < gid s)) \<and>
     (if initialized r \<and> gid sg \<le> curGroupID r then out = [] \<and> r' = r
      else entries out \<union> set (pending r')
         = insert (gid sg, sg) {(k, s) \<in> set (pending r). k \<noteq> gid sg})"

lemma set_update: "set (AList.update k v al) = insert (k, v) {x \<in> set al. fst x \<noteq> k}"
  if "distinct (map fst al)"
  using that
proof (induction al)
  case (Cons x al)
  then show ?case by (cases x) (auto simp: rev_image_eqI)
qed simp

lemma sorted_last:
  "sorted_wrt (<) (map (f :: 'a \<Rightarrow> u64) xs) \<Longrightarrow> x \<in> set xs \<Longrightarrow> f x \<le> f (last xs)"
  by (induction xs) (auto intro: less_imp_le)

lemma flushUpTo_returns:
  assumes "keyed (pending r)" "\<forall>k \<in> fst ` set (pending r). curGroupID r < k"
    and "m \<noteq> - 1" "(m, sg) \<in> set (pending r)"
  shows "\<exists>cur' pend' out. flushUpTo r m = Some (r\<lparr>curGroupID := cur', pending := pend'\<rparr>, out) \<and>
           sorted_wrt (<) (curGroupID r # map gid out) \<and> out \<noteq> [] \<and> cur' = gid (last out) \<and>
           keyed pend' \<and> (\<forall>k \<in> fst ` set pend'. cur' < k) \<and> cur' + 1 \<notin> fst ` set pend' \<and>
           set (pending r) = entries out \<union> set pend' \<and> length pend' < length (pending r) \<and>
           {m<..cur'} \<subseteq> gid ` set out"
proof -
  let ?cur = "curGroupID r" and ?high = "filter (\<lambda>(k, _). m < k) (pending r)"
  have "?cur < m" using assms(2,4) by force
  then have cur: "?cur \<noteq> - 1" by (metis word_n1_ge leD)
  with assms(2) have "\<forall>k \<in> fst ` set (pending r). ?cur + 1 \<le> k"
    by (simp add: suc_le_word)
  from flush_range_returns [OF assms(3,1) this, of "[]"] obtain es where es:
    "flush_range m (?cur + 1) (pending r) [] = Some (es, ?high)"
    "sorted_wrt (<) (map gid es)" "entries es = {(k, sg) \<in> set (pending r). k \<le> m}"
    by auto
  have "keyed ?high" using assms(1) by (auto simp: keyed_def distinct_map_filter)
  moreover have "\<forall>k \<in> fst ` set ?high. m < k" by auto
  ultimately obtain es' cur' pend' where nx: "flush_next m ?high es = (es @ es', cur', pend')"
    "sorted_wrt (<) (m # map gid es')" "cur' = last (m # map gid es')" "keyed pend'"
    "\<forall>k \<in> fst ` set pend'. cur' < k" "cur' + 1 \<notin> fst ` set pend'"
    "set ?high = entries es' \<union> set pend'" "length pend' \<le> length ?high"
    "{m<..cur'} \<subseteq> gid ` set es'"
    using flush_next_spec [of ?high m es] by blast
  have sgm: "sg \<in> set es" "gid sg = m"
  proof -
    from assms(4) have "(m, sg) \<in> entries es" by (simp add: es(3))
    then show "sg \<in> set es" "gid sg = m" by auto
  qed
  have le_m: "\<forall>s \<in> set es. ?cur < gid s \<and> gid s \<le> m"
    using es(3) assms(2) by fastforce
  have ne: "es \<noteq> []" using sgm(1) by auto
  have last_m: "gid (last es) = m"
  proof -
    have "gid sg \<le> gid (last es)"
      by (rule sorted_last [OF es(2) sgm(1)])
    with le_m sgm(2) ne show ?thesis by (simp add: order.antisym)
  qed
  have "sorted_wrt (<) (?cur # map gid (es @ es'))"
    using es(2) nx(2) le_m \<open>?cur < m\<close>
    by (auto simp: sorted_wrt_append intro: order.strict_trans1 order.strict_trans)
  moreover have "cur' = gid (last (es @ es'))"
    using nx(3) last_m ne by (auto simp: last_map)
  moreover have "set (pending r) = entries (es @ es') \<union> set pend'"
  proof -
    have "set (pending r) = {(k, sg) \<in> set (pending r). k \<le> m} \<union> set ?high" by auto
    also have "\<dots> = entries es \<union> (entries es' \<union> set pend')" by (simp only: es(3) nx(7))
    finally show ?thesis by (simp add: image_Un Un_assoc)
  qed
  moreover have "length pend' < length (pending r)"
    using nx(8) length_filter_less [OF assms(4), of "\<lambda>(k, _). m < k"] by simp
  moreover have "{m<..cur'} \<subseteq> gid ` set (es @ es')" using nx(9) by auto
  ultimately show ?thesis using es(1) nx ne
    by (intro exI [of _ cur'] exI [of _ pend'] exI [of _ "es @ es'"]) (simp add: flushUpTo_def)
qed


text \<open>
  As many distinct keys as the range has ids fill the range.
\<close>

lemma full_range:
  assumes "keyed pend" "\<forall>k \<in> fst ` set pend. cur < k" "cur < g"
    and "(word_of_nat (length (filter (\<lambda>(k, _). k \<le> g) pend)) :: u64) = g - cur"
  shows "{cur<..g} \<subseteq> fst ` set pend"
proof -
  let ?low = "filter (\<lambda>(k, _). k \<le> g) pend"
  let ?keys = "fst ` set ?low"
  have sub: "?keys \<subseteq> {cur<..g}" using assms(2) by auto
  have "distinct (map fst ?low)" using assms(1) by (simp add: keyed_def distinct_map_filter)
  from distinct_card [OF this] have len: "length ?low = card ?keys"
    by (simp only: set_map length_map)
  have img: "unat ` {cur<..g} \<subseteq> {unat cur<..unat g}"
    by (auto simp: word_less_nat_alt word_le_nat_alt)
  have "inj_on unat {cur<..g}" by (rule inj_onI) (simp add: word_unat_eq_iff)
  then have range: "card {cur<..g} \<le> unat g - unat cur"
    using card_mono [OF _ img] by (simp add: card_image)
  have "card ?keys \<le> unat g - unat cur"
    using card_mono [OF _ sub] range by simp
  then have "length ?low < 2 ^ 64"
    using len unsigned_less [of g, where 'a = nat] by simp
  then have "length ?low = unat (g - cur)"
    using unat_u64_of_len [of "length ?low"] assms(4) by (simp add: u64_of_len_def)
  also have "\<dots> = unat g - unat cur" using assms(3) by (simp add: unat_sub less_imp_le)
  finally have "card {cur<..g} \<le> card ?keys" using range len by simp
  then have "?keys = {cur<..g}" using sub by (simp add: card_seteq)
  then show ?thesis by auto
qed

text \<open>
  In a reachable state \<open>Push\<close> keeps the invariant and delivers in order, for every group id
  other than the largest word; there too unless it has to flush.
\<close>

definition push_flushes :: "reorderer \<Rightarrow> subgroup \<Rightarrow> bool" where
  "push_flushes r sg \<longleftrightarrow>
     initialized r \<and> curGroupID r < gid sg \<and> \<not> (gid sg = curGroupID r + 1 \<and> pending r = []) \<and>
     (let pend = AList.update (gid sg) sg (pending r) in
      (word_of_nat (length (filter (\<lambda>(k, _). k \<le> gid sg) pend)) :: u64) = gid sg - curGroupID r \<or>
      MaxReordered r < int (length pend))"

lemma Push_flush:
  assumes "push_flushes r sg"
  obtains log where "Push r sg = map_option (\<lambda>(r2, out). (r2, out, log))
      (flushUpTo (r\<lparr>pending := AList.update (gid sg) sg (pending r)\<rparr>) (gid sg))"
    and "TooManyReordered \<notin> set log \<Longrightarrow>
      (word_of_nat (length (filter (\<lambda>(k, _). k \<le> gid sg)
         (AList.update (gid sg) sg (pending r)))) :: u64) = gid sg - curGroupID r"
    and "TooManyReordered \<in> set log \<Longrightarrow>
      MaxReordered r < int (length (AList.update (gid sg) sg (pending r)))"
proof -
  let ?upd = "AList.update (gid sg) sg (pending r)"
  let ?full = "(word_of_nat (length (filter (\<lambda>(k, _). k \<le> gid sg) ?upd)) :: u64)
    = gid sg - curGroupID r"
  show thesis
    by (rule that [of "if ?full then [] else [TooManyReordered]"])
      (use assms in \<open>auto simp: push_flushes_def Push_def Let_def split: if_splits\<close>)
qed

lemma length_update_le: "length (AList.update k v al) \<le> Suc (length al)"
  by (induction al) auto

lemma count_next:
  assumes "reo_inv r" "curGroupID r < gid sg" "gid sg = curGroupID r + 1"
  shows "length (filter (\<lambda>(k, _). k \<le> gid sg) (AList.update (gid sg) sg (pending r))) = 1"
proof -
  let ?upd = "AList.update (gid sg) sg (pending r)"
  have k: "keyed (pending r)" "\<forall>k \<in> fst ` set (pending r). curGroupID r < k"
    "gid sg \<notin> fst ` set (pending r)"
    using assms by (auto simp: reo_inv_def)
  have cur: "curGroupID r \<noteq> - 1" using assms(2) by (metis word_n1_ge leD)
  have low: "gid sg \<le> k" if "k \<in> fst ` set (pending r)" for k
    using bspec [OF k(2) that] assms(3) by (simp add: suc_le_word [OF cur])
  have "set (filter (\<lambda>(k, _). k \<le> gid sg) ?upd) = {(gid sg, sg)}"
    using low k(1,3) by (auto simp: set_update keyed_def order.antisym rev_image_eqI)
  moreover have "distinct (filter (\<lambda>(k, _). k \<le> gid sg) ?upd)"
    using keyed_update [OF k(1)] by (simp add: keyed_def distinct_map)
  ultimately show ?thesis by (metis distinct_card card_1_singleton_iff One_nat_def)
qed

lemma Push_holds:
  assumes inv: "reo_inv r" and "\<not> push_flushes r sg" "initialized r" "curGroupID r < gid sg"
    "\<not> (gid sg = curGroupID r + 1 \<and> pending r = [])"
  shows "\<exists>r'. Push r sg = Some (r', [], []) \<and> delivers r sg r' [] []"
proof -
  have keys: "distinct (map fst (pending r))" using inv by (simp add: reo_inv_def keyed_def)
  let ?upd = "AList.update (gid sg) sg (pending r)"
  have "Push r sg = Some (r\<lparr>pending := ?upd\<rparr>, [], [])"
    using assms by (auto simp: Push_def push_flushes_def Let_def)
  moreover have "int (length ?upd) \<le> MaxReordered r" and
    nofill: "(word_of_nat (length (filter (\<lambda>(k, _). k \<le> gid sg) ?upd)) :: u64)
      \<noteq> gid sg - curGroupID r"
    using assms by (auto simp: push_flushes_def Let_def)
  moreover have "gid sg \<noteq> curGroupID r + 1"
    using nofill count_next [OF inv assms(4)] by auto
  ultimately have "reo_inv (r\<lparr>pending := ?upd\<rparr>)" "Push r sg = Some (r\<lparr>pending := ?upd\<rparr>, [], [])"
    using inv assms(3,4) keyed_update by (auto simp: reo_inv_def set_update [OF keys])
  then show ?thesis
    using assms(3,4) length_update_le
    by (auto simp: delivers_def set_update [OF keys])
qed

lemma Push_flushes:
  assumes inv: "reo_inv r" and "push_flushes r sg" "gid sg \<noteq> - 1"
  shows "\<exists>r' out log. Push r sg = Some (r', out, log) \<and> delivers r sg r' out log"
proof -
  let ?upd = "AList.update (gid sg) sg (pending r)"
  let ?r1 = "r\<lparr>pending := ?upd\<rparr>"
  have keys: "distinct (map fst (pending r))" using inv by (simp add: reo_inv_def keyed_def)
  have r: "initialized r" "curGroupID r < gid sg"
    using assms(2) by (auto simp: push_flushes_def)
  have k: "keyed (pending ?r1)" "\<forall>k \<in> fst ` set (pending ?r1). curGroupID ?r1 < k"
    "(gid sg, sg) \<in> set (pending ?r1)"
    using inv r keyed_update by (auto simp: reo_inv_def set_update [OF keys])
  from flushUpTo_returns [OF k(1,2) assms(3) k(3)] obtain cur' pend' out where fl:
    "flushUpTo ?r1 (gid sg) = Some (?r1\<lparr>curGroupID := cur', pending := pend'\<rparr>, out)"
    "sorted_wrt (<) (curGroupID r # map gid out)" "out \<noteq> []" "cur' = gid (last out)"
    "keyed pend'" "\<forall>k \<in> fst ` set pend'. cur' < k" "cur' + 1 \<notin> fst ` set pend'"
    "set ?upd = entries out \<union> set pend'" "length pend' < length ?upd"
    "{gid sg<..cur'} \<subseteq> gid ` set out"
    by auto
  let ?r2 = "?r1\<lparr>curGroupID := cur', pending := pend'\<rparr>"
  have len: "length ?upd \<le> Suc (length (pending r))" by (rule length_update_le)
  have inv2: "reo_inv ?r2"
    using fl(5-9) inv r(1) len by (auto simp: reo_inv_def)
  from Push_flush [OF assms(2)] obtain log where log:
    "Push r sg = Some (?r2, out, log)"
    "TooManyReordered \<notin> set log \<Longrightarrow>
      (word_of_nat (length (filter (\<lambda>(k, _). k \<le> gid sg) ?upd)) :: u64) = gid sg - curGroupID r"
    "TooManyReordered \<in> set log \<Longrightarrow> MaxReordered r < int (length ?upd)"
    using fl(1) by (metis (no_types, lifting) case_prod_conv option.simps(9))
  have gapless: "{curGroupID r<..cur'} \<subseteq> gid ` set out" if "TooManyReordered \<notin> set log"
  proof
    fix g assume g: "g \<in> {curGroupID r<..cur'}"
    show "g \<in> gid ` set out"
    proof (cases "g \<le> gid sg")
      case True
      with full_range [OF k(1,2)] r(2) log(2) [OF that] g obtain s where "(g, s) \<in> set ?upd"
        by fastforce
      with fl(6,8) g show ?thesis by fastforce
    next
      case False
      with g fl(10) show ?thesis by auto
    qed
  qed
  have "entries out \<union> set pend' = insert (gid sg, sg) {(k, s) \<in> set (pending r). k \<noteq> gid sg}"
    unfolding fl(8) [symmetric] set_update [OF keys] by auto
  then have "delivers r sg ?r2 out log"
    unfolding delivers_def using inv2 fl(2,3,4,9) r log(3) len gapless by auto
  with log(1) show ?thesis by blast
qed

lemma Push_delivers:
  assumes inv: "reo_inv r" and "gid sg \<noteq> - 1 \<or> \<not> push_flushes r sg"
  shows "\<exists>r' out log. Push r sg = Some (r', out, log) \<and> delivers r sg r' out log"
proof -
  consider (flush) "push_flushes r sg" "gid sg \<noteq> - 1" | (first) "\<not> initialized r"
    | (old) "initialized r" "gid sg \<le> curGroupID r"
    | (nx) "initialized r" "curGroupID r < gid sg" "gid sg = curGroupID r + 1" "pending r = []"
    | (hold) "\<not> push_flushes r sg" "initialized r" "curGroupID r < gid sg"
      "\<not> (gid sg = curGroupID r + 1 \<and> pending r = [])"
    using assms(2) by force
  then show ?thesis
  proof cases
    case flush
    with inv show ?thesis by (rule Push_flushes)
  next
    case first
    then show ?thesis using inv by (auto simp: Push_def delivers_def reo_inv_def)
  next
    case old
    then show ?thesis using inv by (auto simp: Push_def delivers_def)
  next
    case nx
    from nx(2) have "curGroupID r \<noteq> - 1" by (metis word_n1_ge leD)
    then have "{curGroupID r<..curGroupID r + 1} = {curGroupID r + 1}"
      using nx(2,3) by (auto simp: suc_le_word [symmetric])
    with nx show ?thesis using inv
      by (auto simp: Push_def delivers_def reo_inv_def)
  next
    case hold
    from Push_holds [OF inv hold] show ?thesis by blast
  qed
qed

lemma Push_diverges: "push_flushes r sg \<Longrightarrow> gid sg = - 1 \<Longrightarrow> Push r sg = None"
  by (erule Push_flush) (simp add: flushUpTo_def flush_range_diverges)


section \<open>Whole streams\<close>

text \<open>The calls a session makes, one per received subgroup, with everything delivered.\<close>

fun push_all :: "reorderer \<Rightarrow> subgroup list \<Rightarrow> (reorderer \<times> subgroup list) option" where
  "push_all r [] = Some (r, [])"
| "push_all r (sg # sgs) =
     (case Push r sg of
        None \<Rightarrow> None
      | Some (r1, out, _) \<Rightarrow> map_option (\<lambda>(r2, outs). (r2, out @ outs)) (push_all r1 sgs))"

lemma deliversD:
  assumes "delivers r sg r' out log"
  shows "reo_inv r'" "initialized r'" "MaxReordered r' = MaxReordered r"
    "length (pending r') \<le> Suc (length (pending r))"
    "sorted_wrt (<) (map gid out)"
    "initialized r \<Longrightarrow> s \<in> set out \<Longrightarrow> curGroupID r < gid s"
    "\<not> (initialized r \<and> gid sg \<le> curGroupID r) \<Longrightarrow> entries out \<union> set (pending r')
       = insert (gid sg, sg) {(k, s) \<in> set (pending r). k \<noteq> gid sg}"
    "initialized r \<Longrightarrow> int (length (pending r)) < MaxReordered r \<Longrightarrow>
       {curGroupID r<..curGroupID r'} \<subseteq> gid ` set out"
  using assms by (simp_all add: delivers_def split: if_splits)

lemma delivers_last:
  assumes "delivers r sg r' out log" "s \<in> set out"
  shows "gid s \<le> curGroupID r'"
proof -
  from sorted_last [OF deliversD(5) [OF assms(1)] assms(2)] have "gid s \<le> gid (last out)" .
  moreover have "curGroupID r' = gid (last out)"
    using assms by (cases "out = []") (simp_all add: delivers_def)
  ultimately show ?thesis by simp
qed

lemma delivers_mono:
  assumes "delivers r sg r' out log" "initialized r"
  shows "curGroupID r \<le> curGroupID r'"
proof (cases "out = []")
  case True
  with assms show ?thesis by (simp add: delivers_def)
next
  case False
  from deliversD(6) [OF assms last_in_set [OF False]] delivers_last [OF assms(1) last_in_set [OF False]]
  show ?thesis by simp
qed

lemma push_all_ordered:
  assumes "reo_inv r" "\<forall>sg \<in> set sgs. gid sg \<noteq> - 1"
  shows "\<exists>r' out. push_all r sgs = Some (r', out) \<and> reo_inv r' \<and> sorted_wrt (<) (map gid out) \<and>
           (initialized r \<longrightarrow> (\<forall>s \<in> set out. curGroupID r < gid s)) \<and>
           set out \<union> snd ` set (pending r') \<subseteq> set sgs \<union> snd ` set (pending r)"
  using assms
proof (induction sgs arbitrary: r)
  case (Cons sg sgs)
  then obtain r1 out log where p: "Push r sg = Some (r1, out, log)" "delivers r sg r1 out log"
    using Push_delivers [of r sg] by auto
  then have r1: "reo_inv r1" "initialized r1" by (auto simp: delivers_def)
  from Cons.IH [OF r1(1)] Cons.prems(2) obtain r2 outs where q:
    "push_all r1 sgs = Some (r2, outs)" "reo_inv r2" "sorted_wrt (<) (map gid outs)"
    "\<forall>s \<in> set outs. curGroupID r1 < gid s"
    "set outs \<union> snd ` set (pending r2) \<subseteq> set sgs \<union> snd ` set (pending r1)"
    using r1(2) by auto
  have "gid x < gid y" if "x \<in> set out" "y \<in> set outs" for x y
    using delivers_last [OF p(2) that(1)] q(4) that(2) by (blast intro: le_less_trans)
  then have "sorted_wrt (<) (map gid (out @ outs))"
    using deliversD(5) [OF p(2)] q(3) by (simp add: sorted_wrt_append)
  moreover have "curGroupID r < gid s" if "initialized r" "s \<in> set (out @ outs)" for s
    using deliversD(6) [OF p(2) that(1), of s] delivers_mono [OF p(2) that(1)] q(4) that(2)
    by (auto intro: le_less_trans)
  moreover have "set out \<union> snd ` set (pending r1) \<subseteq> insert sg (snd ` set (pending r))"
  proof (cases "initialized r \<and> gid sg \<le> curGroupID r")
    case True
    with p(2) show ?thesis by (auto simp: delivers_def)
  next
    case False
    with p(2) have e: "entries out \<union> set (pending r1)
        = insert (gid sg, sg) {(k, s) \<in> set (pending r). k \<noteq> gid sg}"
      by (auto simp: delivers_def)
    have "set out \<union> snd ` set (pending r1) = snd ` (entries out \<union> set (pending r1))"
      by (simp add: image_Un image_image)
    then show ?thesis by (simp only: e) auto
  qed
  then have "set (out @ outs) \<union> snd ` set (pending r2) \<subseteq> set (sg # sgs) \<union> snd ` set (pending r)"
    using q(5) by (simp only: set_append list.set) blast
  ultimately show ?case using p(1) q(1,2)
    by (intro exI [of _ r2] exI [of _ "out @ outs"]) simp
qed simp

text \<open>
  A window large enough for the reordering loses nothing: subgroups with ids \<open>c + 1 \<dots> c + n\<close>, in
  any order, are all delivered. \<open>rcv\<close> is what has been received so far, \<open>dl\<close> what has been
  delivered; every id up to the current one has been received.
\<close>

definition lossless :: "u64 \<Rightarrow> subgroup set \<Rightarrow> subgroup set \<Rightarrow> reorderer \<Rightarrow> bool" where
  "lossless c rcv dl r \<longleftrightarrow>
     reo_inv r \<and> initialized r \<and> c \<le> curGroupID r \<and>
     {c<..curGroupID r} \<subseteq> gid ` rcv \<and> rcv = dl \<union> snd ` set (pending r) \<and>
     (\<forall>s \<in> dl. gid s \<le> curGroupID r)"

lemma lossless_step:
  assumes "lossless c rcv dl r" "gid sg \<noteq> - 1" "c < gid sg" "gid sg \<notin> gid ` rcv"
    "int (length (pending r)) < MaxReordered r"
  shows "\<exists>r' out log. Push r sg = Some (r', out, log) \<and>
           lossless c (insert sg rcv) (dl \<union> set out) r' \<and> MaxReordered r' = MaxReordered r \<and>
           length (pending r') \<le> Suc (length (pending r))"
proof -
  have inv: "reo_inv r" "initialized r" "c \<le> curGroupID r" "{c<..curGroupID r} \<subseteq> gid ` rcv"
    "rcv = dl \<union> snd ` set (pending r)" "\<forall>s \<in> dl. gid s \<le> curGroupID r"
    using assms(1) by (auto simp: lossless_def)
  from Push_delivers [OF inv(1), of sg] assms(2) obtain r' out log where
    p: "Push r sg = Some (r', out, log)" "delivers r sg r' out log" by blast
  have new: "curGroupID r < gid sg"
    using assms(3,4) inv(4) by (meson greaterThanAtMost_iff not_le subsetD)
  with p(2) inv(2) have e: "entries out \<union> set (pending r')
      = insert (gid sg, sg) {(k, s) \<in> set (pending r). k \<noteq> gid sg}"
    by (auto simp: delivers_def)
  also have "{(k, s) \<in> set (pending r). k \<noteq> gid sg} = set (pending r)"
  proof -
    have "k \<noteq> gid sg" if "(k, s) \<in> set (pending r)" for k s
    proof -
      have "gid s = k" using inv(1) that by (auto simp: reo_inv_def keyed_def)
      moreover have "s \<in> rcv" unfolding inv(5) using that by (auto intro: rev_image_eqI)
      ultimately show ?thesis using assms(4) by (metis imageI)
    qed
    then show ?thesis by auto
  qed
  finally have e': "entries out \<union> set (pending r') = insert (gid sg, sg) (set (pending r))" .
  have "set out \<union> snd ` set (pending r') = snd ` (entries out \<union> set (pending r'))"
    by (simp add: image_Un image_image)
  also have "\<dots> = insert sg (snd ` set (pending r))" by (simp add: e')
  finally have rcv: "insert sg rcv = (dl \<union> set out) \<union> snd ` set (pending r')"
    using inv(5) by auto
  have gapless: "{curGroupID r<..curGroupID r'} \<subseteq> gid ` set out"
    by (rule deliversD(8) [OF p(2) inv(2) assms(5)])
  have mono: "curGroupID r \<le> curGroupID r'" by (rule delivers_mono [OF p(2) inv(2)])
  have le: "gid s \<le> curGroupID r'" if "s \<in> set out" for s
    by (rule delivers_last [OF p(2) that])
  have "{c<..curGroupID r'} \<subseteq> {c<..curGroupID r} \<union> {curGroupID r<..curGroupID r'}" by auto
  also have "\<dots> \<subseteq> gid ` rcv \<union> gid ` set out" using gapless inv(4) by (rule Un_mono [rotated])
  also have "\<dots> = gid ` (rcv \<union> set out)" by (rule image_Un [symmetric])
  also have "\<dots> \<subseteq> gid ` insert sg rcv" by (rule image_mono) (use rcv in blast)
  finally have "{c<..curGroupID r'} \<subseteq> gid ` insert sg rcv" .
  moreover have "\<forall>s \<in> dl \<union> set out. gid s \<le> curGroupID r'"
    using inv(6) mono le by (auto intro: order_trans)
  ultimately have "lossless c (insert sg rcv) (dl \<union> set out) r'"
    using p(2) rcv inv(3) mono by (auto simp: lossless_def delivers_def)
  with p show ?thesis by (auto simp: delivers_def)
qed


lemma lossless_run:
  assumes "lossless c rcv dl r" "\<forall>sg \<in> set sgs. gid sg \<noteq> - 1 \<and> c < gid sg \<and> gid sg \<notin> gid ` rcv"
    "distinct (map gid sgs)" "int (length (pending r) + length sgs) \<le> MaxReordered r"
  shows "\<exists>r' out. push_all r sgs = Some (r', out) \<and> lossless c (rcv \<union> set sgs) (dl \<union> set out) r'"
  using assms
proof (induction sgs arbitrary: r rcv dl)
  case (Cons sg sgs)
  from lossless_step [OF Cons.prems(1), of sg] Cons.prems(2,4) obtain r1 out log where p:
    "Push r sg = Some (r1, out, log)" "lossless c (insert sg rcv) (dl \<union> set out) r1"
    "MaxReordered r1 = MaxReordered r" "length (pending r1) \<le> Suc (length (pending r))"
    by auto
  have "\<forall>s \<in> set sgs. gid s \<noteq> - 1 \<and> c < gid s \<and> gid s \<notin> gid ` insert sg rcv"
    using Cons.prems(2,3) by (auto simp: image_iff)
  moreover have "distinct (map gid sgs)" "int (length (pending r1) + length sgs) \<le> MaxReordered r1"
    using Cons.prems(3,4) p(3,4) by auto
  ultimately obtain r2 outs where
    "push_all r1 sgs = Some (r2, outs)"
    "lossless c (insert sg rcv \<union> set sgs) (dl \<union> set out \<union> set outs) r2"
    using Cons.IH [OF p(2)] by blast
  with p(1) show ?case by (simp add: Un_assoc)
qed simp

lemma lossless_complete:
  assumes "lossless c rcv dl r" "gid ` rcv = {c<..m}" "c \<le> m" "m \<noteq> - 1"
  shows "pending r = [] \<and> dl = rcv \<and> curGroupID r = m"
proof -
  have inv: "reo_inv r" "c \<le> curGroupID r" "{c<..curGroupID r} \<subseteq> {c<..m}"
    "rcv = dl \<union> snd ` set (pending r)" "\<forall>s \<in> dl. gid s \<le> curGroupID r"
    using assms(1,2) by (auto simp: lossless_def)
  have pend: "curGroupID r < k" "k \<le> m" if "(k, s) \<in> set (pending r)" for k s
  proof -
    have "gid s = k" "curGroupID r < k" using inv(1) that by (auto simp: reo_inv_def keyed_def)
    moreover have "s \<in> rcv" unfolding inv(4) using that by (auto intro: rev_image_eqI)
    ultimately show "curGroupID r < k" "k \<le> m" using assms(2) by auto
  qed
  have cur: "curGroupID r = m"
  proof (rule ccontr)
    assume ne: "curGroupID r \<noteq> m"
    have "curGroupID r \<le> m"
      using subsetD [OF inv(3), of "curGroupID r"] inv(2) assms(3)
      by (cases "c = curGroupID r") auto
    with ne have lt: "curGroupID r < m" by simp
    then have "curGroupID r \<noteq> - 1" by (metis word_n1_ge leD)
    then have nx: "curGroupID r < curGroupID r + 1" "curGroupID r + 1 \<le> m"
      using lt suc_le_word by auto
    then have "curGroupID r + 1 \<in> {c<..m}" using inv(2) by auto
    then obtain s where s: "s \<in> rcv" "gid s = curGroupID r + 1"
      using assms(2) by (metis imageE)
    have "s \<notin> dl" using inv(5) s(2) nx(1) by auto
    then obtain k where "(k, s) \<in> set (pending r)" using s(1) inv(4) by auto
    moreover from this have "k = curGroupID r + 1"
      using inv(1) s(2) by (auto simp: reo_inv_def keyed_def)
    ultimately show False using inv(1) by (force simp: reo_inv_def)
  qed
  then have "pending r = []" using pend by (cases "pending r") (auto, force)
  with cur inv(4) show ?thesis by simp
qed

lemma push_all_lossless:
  assumes "reo_inv r" "initialized r" "pending r = []" "curGroupID r = c"
    and "gid ` set sgs = {c<..m}" "c \<le> m" "m \<noteq> - 1" "distinct (map gid sgs)"
    and "int (length sgs) \<le> MaxReordered r"
  shows "\<exists>r' out. push_all r sgs = Some (r', out) \<and> set out = set sgs \<and> pending r' = [] \<and>
           curGroupID r' = m"
proof -
  have "lossless c {} {} r" using assms(1-4) by (simp add: lossless_def)
  moreover have "\<forall>sg \<in> set sgs. gid sg \<noteq> - 1 \<and> c < gid sg \<and> gid sg \<notin> gid ` {}"
  proof
    fix sg assume "sg \<in> set sgs"
    then have "gid sg \<in> {c<..m}" using assms(5) by blast
    moreover have "gid sg = - 1 \<Longrightarrow> gid sg \<le> m \<Longrightarrow> False" using assms(7) by (metis word_n1_ge antisym)
    ultimately show "gid sg \<noteq> - 1 \<and> c < gid sg \<and> gid sg \<notin> gid ` {}" by auto
  qed
  ultimately obtain r' out where *: "push_all r sgs = Some (r', out)" "lossless c (set sgs) (set out) r'"
    using lossless_run [of c "{}" "{}" r sgs] assms(3,8,9) by auto
  from lossless_complete [OF *(2) assms(5-7)] *(1) show ?thesis by blast
qed

section \<open>Correctness\<close>

text \<open>C35.
  One call of \<open>Push\<close> returns (unless it flushes up to the largest group id) and keeps its promises:
  the invariant, the bound on pending subgroups, delivery in increasing order of group ids beyond
  the current one, and that the new subgroup and the pending ones are delivered or stay pending,
  none lost and none duplicated.
\<close>
theorem reorderer_push_correct:
  assumes "reo_inv r" "gid sg \<noteq> - 1 \<or> \<not> push_flushes r sg"
  shows "\<exists>r' out log. Push r sg = Some (r', out, log) \<and> delivers r sg r' out log"
  by (rule Push_delivers [OF assms])

definition sample_reorderer :: reorderer where
  "sample_reorderer = \<lparr>MaxReordered = 4, initialized = True, curGroupID = 10, pending = []\<rparr>"

definition group_at :: "u64 \<Rightarrow> subgroup" where
  "group_at g =
     \<lparr>Header = \<lparr>Properties = False, FirstObject = True, TrackAlias = 0, GroupID = g\<rparr>, Objects = []\<rparr>"

lemma sample_reorderer_inv: "reo_inv sample_reorderer"
  by (simp add: sample_reorderer_def reo_inv_def keyed_def)

lemma gid_group_at [simp]: "gid (group_at g) = g"
  by (simp add: group_at_def)

theorem reorderer_push_correct_witness:
  "reo_inv sample_reorderer \<and> gid (group_at 12) \<noteq> - 1 \<and>
   (\<exists>r' out log. Push sample_reorderer (group_at 12) = Some (r', out, log) \<and>
      delivers sample_reorderer (group_at 12) r' out log)"
  using reorderer_push_correct [OF sample_reorderer_inv, of "group_at 12"] sample_reorderer_inv by simp

text \<open>C36.
  A subgroup with the largest group id that has to be flushed up to makes \<open>Push\<close> loop forever: the
  loop counter wraps around before it exceeds the bound.
\<close>
theorem reorderer_push_diverges:
  assumes "push_flushes r sg" "gid sg = - 1"
  shows "Push r sg = None"
  by (rule Push_diverges [OF assms])

definition full_reorderer :: reorderer where
  "full_reorderer = \<lparr>MaxReordered = 0, initialized = True, curGroupID = 10, pending = []\<rparr>"

theorem reorderer_push_diverges_witness:
  "push_flushes full_reorderer (group_at (- 1)) \<and> Push full_reorderer (group_at (- 1)) = None"
proof -
  have "push_flushes full_reorderer (group_at (- 1))"
    by (simp add: push_flushes_def full_reorderer_def)
  then show ?thesis using reorderer_push_diverges [of full_reorderer "group_at (- 1)"] by simp
qed

text \<open>
  A whole stream, in any order: \<open>Push\<close> returns for every subgroup, what is delivered is strictly
  increasing in group id (so nothing is delivered twice) and is only what was received.
\<close>
lemma reorderer_stream_ordered:
  assumes "reo_inv r" "\<forall>sg \<in> set sgs. gid sg \<noteq> - 1"
  shows "\<exists>r' out. push_all r sgs = Some (r', out) \<and> reo_inv r' \<and> sorted_wrt (<) (map gid out) \<and>
    set out \<union> snd ` set (pending r') \<subseteq> set sgs \<union> snd ` set (pending r)"
  using push_all_ordered [OF assms] by blast

lemma reorderer_stream_ordered_instance:
  "reo_inv sample_reorderer \<and>
   (\<exists>r' out. push_all sample_reorderer [group_at 13, group_at 12] = Some (r', out) \<and> reo_inv r' \<and>
      sorted_wrt (<) (map gid out) \<and>
      set out \<union> snd ` set (pending r') \<subseteq> {group_at 13, group_at 12})"
  using reorderer_stream_ordered [OF sample_reorderer_inv, of "[group_at 13, group_at 12]"]
    sample_reorderer_inv by (simp add: sample_reorderer_def)

text \<open>C37.
  Liveness: when the subgroups with ids \<open>c + 1, \<dots>, m\<close> arrive in any order and fit the window, all
  of them are delivered and nothing stays pending.
\<close>
theorem reorderer_stream_lossless:
  assumes "reo_inv r" "initialized r" "pending r = []" "curGroupID r = c"
    and "gid ` set sgs = {c<..m}" "c \<le> m" "m \<noteq> - 1" "distinct (map gid sgs)"
    and "int (length sgs) \<le> MaxReordered r"
  shows "\<exists>r' out. push_all r sgs = Some (r', out) \<and> set out = set sgs \<and> pending r' = [] \<and>
    curGroupID r' = m"
  using push_all_lossless [OF assms] by blast

lemma ids_11_12: "{10<..12 :: u64} = {12, 11}"
proof -
  have ids: "x = 12 \<or> x = 11" if "10 < x" "x \<le> 12" for x :: u64
  proof -
    have "10 < unat x" "unat x \<le> 12" using that by (simp_all add: word_less_nat_alt word_le_nat_alt)
    then have "unat x = 12 \<or> unat x = 11" by linarith
    moreover have "word_of_nat (unat x) = x" by simp
    ultimately show ?thesis by (metis of_nat_numeral)
  qed
  show ?thesis
  proof (rule set_eqI)
    show "x \<in> {10<..12} \<longleftrightarrow> x \<in> {12, 11}" for x :: u64 using ids [of x] by auto
  qed
qed

theorem reorderer_stream_lossless_witness:
  "\<exists>r' out. push_all sample_reorderer [group_at 12, group_at 11] = Some (r', out) \<and>
     set out = {group_at 12, group_at 11} \<and> pending r' = [] \<and> curGroupID r' = 12"
  using reorderer_stream_lossless [OF sample_reorderer_inv, of 10 "[group_at 12, group_at 11]" 12]
  by (simp add: sample_reorderer_def ids_11_12)

end
