(* ===== verification/Go_Float.thy ===== *)
theory Go_Float
  imports Go_Prelude "HOL-Library.Log_Nat" "HOL-Library.Signed_Division"
begin

text \<open>
  The part of Go's \<^verbatim>\<open>float64\<close> arithmetic and of package \<^verbatim>\<open>time\<close> that the control loops
  of the repository use. A finite \<^verbatim>\<open>float64\<close> is the rational it denotes; every conversion and
  operation rounds its exact result to the nearest value with a 53-bit significand, ties to even
  (\<open>fl64\<close>). The loops only form ratios of packet and byte counters, whose magnitudes lie far
  inside the exponent range, so overflow, subnormals and NaN do not occur and the exponent is
  unbounded here. Settings are not computed but read, from the environment by \<^verbatim>\<open>strconv.ParseFloat\<close>,
  which accepts infinities and NaN: they have the type \<open>go_float\<close> with the comparisons of Go.
\<close>

section \<open>Rounding\<close>

type_synonym f64 = rat

text \<open>The exponent \<open>e\<close> with \<open>2 ^ e \<le> x < 2 ^ (e + 1)\<close>, for a positive \<open>x\<close>.\<close>

definition pow2 :: "int \<Rightarrow> rat" where
  "pow2 e = (if 0 \<le> e then 2 ^ nat e else 1 / 2 ^ nat (- e))"

definition f64_exp :: "rat \<Rightarrow> int" where
  "f64_exp x =
     (let (p, q) = quotient_of x;
          e = int (floorlog 2 (nat p)) - int (floorlog 2 (nat q))
      in if pow2 e \<le> x then e else e - 1)"

definition round_half_even :: "rat \<Rightarrow> int" where
  "round_half_even y =
     (let f = \<lfloor>y\<rfloor>; d = y - of_int f
      in if d < 1 / 2 then f else if 1 / 2 < d then f + 1 else if even f then f else f + 1)"

definition fl64 :: "rat \<Rightarrow> f64" where
  "fl64 x =
     (if x = 0 then 0
      else let e = f64_exp \<bar>x\<bar> - 52
           in sgn x * of_int (round_half_even (\<bar>x\<bar> / pow2 e)) * pow2 e)"

text \<open>\<^verbatim>\<open>float64(v)\<close> for an unsigned and for a signed integer, and the operators.\<close>

definition f64_of_u64 :: "u64 \<Rightarrow> f64" where
  "f64_of_u64 v = fl64 (of_nat (unat v))"

definition f64_of_int :: "int \<Rightarrow> f64" where
  "f64_of_int v = fl64 (of_int v)"

definition f64_div :: "f64 \<Rightarrow> f64 \<Rightarrow> f64" where
  "f64_div a b = fl64 (a / b)"

definition f64_mul :: "f64 \<Rightarrow> f64 \<Rightarrow> f64" where
  "f64_mul a b = fl64 (a * b)"

definition f64_add :: "f64 \<Rightarrow> f64 \<Rightarrow> f64" where
  "f64_add a b = fl64 (a + b)"

definition f64_sub :: "f64 \<Rightarrow> f64 \<Rightarrow> f64" where
  "f64_sub a b = fl64 (a - b)"

lemmas f64_ops = f64_of_u64_def f64_of_int_def f64_div_def f64_mul_def f64_add_def f64_sub_def

lemma fl64_0 [simp]: "fl64 0 = 0"
  by (simp add: fl64_def)

lemma pow2_pos [simp]: "0 < pow2 e"
  by (simp add: pow2_def)

lemma pow2_nonzero [simp]: "pow2 e \<noteq> 0"
  using pow2_pos [of e] by linarith

lemma pow2_Suc: "pow2 (e + 1) = 2 * pow2 e"
proof (cases "0 \<le> e")
  case True
  then show ?thesis by (simp add: pow2_def nat_add_distrib)
next
  case False
  then obtain k where k: "e = - int (Suc k)" by (metis negD not_le)
  then show ?thesis by (cases k) (simp_all add: pow2_def nat_add_distrib)
qed

lemma round_half_even_nonneg: "0 \<le> y \<Longrightarrow> 0 \<le> round_half_even y"
  by (simp add: round_half_even_def Let_def)

lemma round_half_even_err: "\<bar>of_int (round_half_even y) - y\<bar> \<le> 1 / 2"
proof -
  define f where "f = \<lfloor>y\<rfloor>"
  have "of_int f \<le> y" "y < of_int f + 1" unfolding f_def by linarith+
  then show ?thesis unfolding round_half_even_def f_def [symmetric] Let_def
    by (auto simp: abs_if)
qed

lemma fl64_nonneg: "0 \<le> x \<Longrightarrow> 0 \<le> fl64 x"
  by (auto simp: fl64_def Let_def round_half_even_nonneg less_imp_le intro!: mult_nonneg_nonneg)


text \<open>
  The exponent is not too large, so the rounding error is at most half a unit in the last of 53
  places: a relative error of at most $2^{-53}$.
\<close>

lemma floorlog_bounds:
  assumes "0 < n"
  shows "2 ^ (floorlog 2 n - 1) \<le> n" "n < 2 ^ floorlog 2 n" "0 < floorlog 2 n"
  using floorlog_bounds [of n 2] floorlog_eq_zero_iff [of 2 n] assms by (auto simp: neq0_conv)

lemma pow2_diff: "pow2 (int a - int b) = 2 ^ a / 2 ^ b"
proof (cases "b \<le> a")
  case True
  then show ?thesis by (simp add: pow2_def power_diff nat_diff_distrib')
next
  case False
  then have "int a - int b < 0" "nat (- (int a - int b)) = b - a" by auto
  with False show ?thesis by (simp add: pow2_def power_diff)
qed

lemma f64_exp_le:
  assumes "0 < x"
  shows "pow2 (f64_exp x) \<le> x"
proof -
  obtain p q where pq: "quotient_of x = (p, q)" by force
  have q: "0 < q" using quotient_of_denom_pos [OF pq] .
  have x: "x = of_int p / of_int q" using quotient_of_div [OF pq] .
  have p: "0 < p" using assms q by (simp add: x zero_less_divide_iff)
  let ?a = "floorlog 2 (nat p)" and ?b = "floorlog 2 (nat q)"
  have a: "2 ^ (?a - 1) \<le> nat p" "0 < ?a" and b: "nat q < 2 ^ ?b"
    using floorlog_bounds [of "nat p"] floorlog_bounds [of "nat q"] p q by auto
  have "(2 :: rat) ^ (?a - 1) \<le> of_int p" "(of_int q :: rat) \<le> 2 ^ ?b"
    using a(1) b p q by (metis of_nat_le_iff of_nat_numeral of_nat_power of_nat_nat less_imp_le)+
  then have "pow2 (int (?a - 1) - int ?b) \<le> x"
    unfolding x pow2_diff using p q by (intro frac_le) auto
  moreover have "int (?a - 1) - int ?b = int ?a - int ?b - 1" using a(2) by simp
  ultimately have "pow2 (int ?a - int ?b - 1) \<le> x" by (simp only:)
  then show ?thesis using pq by (simp add: f64_exp_def Let_def)
qed

lemma fl64_error:
  assumes "0 < x"
  shows "\<bar>fl64 x - x\<bar> \<le> x / 2 ^ 53"
proof -
  let ?e = "f64_exp x - 52"
  let ?y = "x / pow2 ?e"
  have "\<bar>fl64 x - x\<bar> = \<bar>(of_int (round_half_even ?y) - ?y) * pow2 ?e\<bar>"
    using assms pow2_pos [of ?e] by (simp add: fl64_def Let_def algebra_simps)
  also have "\<dots> \<le> 1 / 2 * pow2 ?e"
    unfolding abs_mult using round_half_even_err [of ?y]
    by (intro mult_mono) (simp_all add: abs_of_pos less_imp_le)
  also have "pow2 ?e = pow2 (f64_exp x) / 2 ^ 52"
  proof -
    have "pow2 (d + int n) = 2 ^ n * pow2 d" for d n
      by (induction n) (simp_all add: pow2_Suc flip: add.assoc add: add.commute [of 1])
    from this [of ?e 52] show ?thesis by simp
  qed
  also have "1 / 2 * (pow2 (f64_exp x) / 2 ^ 52) \<le> x / 2 ^ 53"
    using f64_exp_le [OF assms] by simp
  finally show ?thesis .
qed

section \<open>Durations and times\<close>

text \<open>
  A \<^verbatim>\<open>time.Duration\<close> is an \<^verbatim>\<open>int64\<close> count of nanoseconds, so multiplying by a unit wraps.
  A \<^verbatim>\<open>time.Time\<close> is its nanosecond count, \<open>None\<close> the zero time; the difference of two times
  is within 292 years, where \<^verbatim>\<open>Sub\<close> does not saturate.
\<close>

definition int64 :: "int \<Rightarrow> int" where
  "int64 n = sint (word_of_int n :: u64)"

lemma int64_eq: "- (2 ^ 63) \<le> n \<Longrightarrow> n < 2 ^ 63 \<Longrightarrow> int64 n = n"
  by (simp add: int64_def signed_of_int signed_take_bit_int_eq_self)

definition time_Second :: int where "time_Second = 1000000000"
definition time_Millisecond :: int where "time_Millisecond = 1000000"

definition duration_of_seconds :: "int \<Rightarrow> int" where
  "duration_of_seconds n = int64 (n * time_Second)"

type_synonym time = "int option"

text \<open>\<^verbatim>\<open>now.Before(t)\<close>, with the zero time before every other.\<close>

fun time_before :: "int \<Rightarrow> time \<Rightarrow> bool" where
  "time_before now None = False"
| "time_before now (Some t) = (now < t)"

text \<open>\<^verbatim>\<open>time.Since(t)\<close>: the distance from the zero time saturates at the largest duration.\<close>

definition max_duration :: int where "max_duration = 2 ^ 63 - 1"

fun time_since :: "int \<Rightarrow> time \<Rightarrow> int" where
  "time_since now None = max_duration"
| "time_since now (Some t) = now - t"

section \<open>Truncating division\<close>

text \<open>Go's \<^verbatim>\<open>/\<close> and \<^verbatim>\<open>%\<close> truncate; on non-negative operands they are \<open>div\<close> and \<open>mod\<close>.\<close>

lemma sdiv_nonneg: "0 \<le> a \<Longrightarrow> 0 \<le> b \<Longrightarrow> a sdiv b = a div (b :: int)"
  by (cases "a = 0"; cases "b = 0") (simp_all add: signed_divide_int_def sgn_if)

lemma smod_nonneg: "0 \<le> a \<Longrightarrow> 0 \<le> b \<Longrightarrow> a smod b = a mod (b :: int)"
  by (simp add: smod_mod_positive)

section \<open>Settings\<close>

datatype go_float = Fin f64 | PosInf | NegInf | NaN

text \<open>\<open>a < b\<close> and \<open>a <= b\<close>: false when one of the two is NaN.\<close>

fun go_less :: "go_float \<Rightarrow> go_float \<Rightarrow> bool" where
  "go_less (Fin a) (Fin b) \<longleftrightarrow> a < b"
| "go_less (Fin a) b \<longleftrightarrow> b = PosInf"
| "go_less NegInf b \<longleftrightarrow> b \<noteq> NegInf \<and> b \<noteq> NaN"
| "go_less PosInf b \<longleftrightarrow> False"
| "go_less NaN b \<longleftrightarrow> False"

definition go_le :: "go_float \<Rightarrow> go_float \<Rightarrow> bool" where
  "go_le a b \<longleftrightarrow> go_less a b \<or> a = b \<and> a \<noteq> NaN"

lemma go_less_NaN [simp]: "\<not> go_less a NaN" "\<not> go_less NaN a"
  by (cases a; simp)+

lemma go_le_NaN [simp]: "\<not> go_le a NaN" "\<not> go_le NaN a"
  by (auto simp: go_le_def)

text \<open>Only without NaN the two are complements of each other.\<close>

lemma go_not_le: "a \<noteq> NaN \<Longrightarrow> b \<noteq> NaN \<Longrightarrow> \<not> go_le a b \<longleftrightarrow> go_less b a"
  by (cases a; cases b) (auto simp: go_le_def)

lemma go_not_less: "a \<noteq> NaN \<Longrightarrow> b \<noteq> NaN \<Longrightarrow> \<not> go_less a b \<longleftrightarrow> go_le b a"
  by (cases a; cases b) (auto simp: go_le_def)

end
