(* ===== verification/Degrade.thy ===== *)
theory Degrade
  imports Go_Float "HOL-Library.Sublist"
begin

text \<open>
  \<^verbatim>\<open>internal/degrade\<close>: the per-path quality ladder driven by unrecoverable loss. First the
  bitrate goes down (100, 80, 60 percent), then simulcast layers are cut one by one; recovery
  climbs back in the opposite order. \<open>State\<close> is a record, every method returns the messages it
  writes to the executor's WebSocket (with the connection they go to). Logging and the outcome of
  \<^verbatim>\<open>WriteJSON\<close> (only logged by the code) are left out.
\<close>

section \<open>State\<close>

record thresholds =
  RaisePct :: f64
  LowerPct :: f64
  RestartPct :: f64
  ObservationSec :: int

datatype action = ActionNone | ActionDegrade | ActionRestart | ActionRecover

text \<open>\<open>TargetStateMsg\<close> (path, codec, layers, bitrate) and \<open>AlertMsg\<close> (path).\<close>

datatype degrade_msg = TargetStateMsg string string int int | AlertMsg string

type_synonym conn = nat

record degrade_state =
  path :: string
  maxLayers :: int
  layers :: int
  bitratePercent :: int
  haveLastCum :: bool
  lastUnrecov :: u64
  lastTotal :: u64
  goodSince :: time
  lastSampleAt :: time
  degradeCooldownUntil :: time
  lastAlertTime :: time
  wsConn :: "conn option"

definition SampleInterval :: int where
  "SampleInterval = 6 * time_Second"

definition StaleGap :: int where
  "StaleGap = 5 * SampleInterval"

definition SamplePeriod :: "int \<Rightarrow> int" where
  "SamplePeriod sec = (if sec \<le> 0 then SampleInterval else duration_of_seconds sec)"

definition codecFromPath :: "string \<Rightarrow> string" where
  "codecFromPath p =
     (if suffix ''/h264'' p then ''h264'' else if suffix ''/hevc'' p then ''hevc'' else '''')"

definition newState :: "string \<Rightarrow> degrade_state" where
  "newState p =
     \<lparr>path = p, maxLayers = 0, layers = 0, bitratePercent = 100, haveLastCum = False,
      lastUnrecov = 0, lastTotal = 0, goodSince = None, lastSampleAt = None,
      degradeCooldownUntil = None, lastAlertTime = None, wsConn = None\<rparr>"

section \<open>Operations\<close>

type_synonym pushes = "(conn \<times> degrade_msg) list"

definition pushLocked :: "degrade_state \<Rightarrow> degrade_msg \<Rightarrow> pushes" where
  "pushLocked d msg = (case wsConn d of None \<Rightarrow> [] | Some c \<Rightarrow> [(c, msg)])"

definition target_state :: "degrade_state \<Rightarrow> degrade_msg" where
  "target_state d = TargetStateMsg (path d) (codecFromPath (path d)) (layers d) (bitratePercent d)"

definition pushTargetStateLocked :: "degrade_state \<Rightarrow> pushes" where
  "pushTargetStateLocked d = pushLocked d (target_state d)"

definition ObserveSessionLayerCount :: "int \<Rightarrow> degrade_state \<Rightarrow> degrade_state \<times> pushes" where
  "ObserveSessionLayerCount realLayers d =
     (if realLayers \<le> 0 then (d, [])
      else if maxLayers d < realLayers then
        (let d1 = d\<lparr>maxLayers := realLayers, layers := realLayers, bitratePercent := 100\<rparr>
         in (d1, pushTargetStateLocked d1))
      else (d, []))"

text \<open>\<open>degrade\<close>: one step down, and whether it cut a layer.\<close>

definition degrade :: "int \<Rightarrow> bool \<Rightarrow> degrade_state \<Rightarrow> degrade_state \<times> pushes \<times> bool" where
  "degrade now allowLayer d =
     (if maxLayers d = 0 then (d, [], False)
      else if 60 < bitratePercent d then
        (let d1 = d\<lparr>bitratePercent := bitratePercent d - 20\<rparr>
         in (d1, pushTargetStateLocked d1, False))
      else if 1 < layers d then
        (if \<not> allowLayer then (d, [], False)
         else let d1 = d\<lparr>layers := layers d - 1\<rparr> in (d1, pushTargetStateLocked d1, True))
      else
        (case lastAlertTime d of
           None \<Rightarrow> (d\<lparr>lastAlertTime := Some now\<rparr>, pushLocked d (AlertMsg (path d)), False)
         | Some t \<Rightarrow>
             if 60 * time_Second \<le> now - t
             then (d\<lparr>lastAlertTime := Some now\<rparr>, pushLocked d (AlertMsg (path d)), False)
             else (d, [], False)))"

definition recover :: "degrade_state \<Rightarrow> degrade_state \<times> pushes" where
  "recover d =
     (if layers d < maxLayers d then
        (let d1 = d\<lparr>layers := layers d + 1\<rparr> in (d1, pushTargetStateLocked d1))
      else if bitratePercent d < 100 then
        (let d1 = d\<lparr>bitratePercent := bitratePercent d + 20\<rparr> in (d1, pushTargetStateLocked d1))
      else (d, []))"

text \<open>\<^verbatim>\<open>float64(unrecovDelta) / float64(totalDelta) * 100\<close>, 0 without traffic.\<close>

definition ulr :: "u64 \<Rightarrow> u64 \<Rightarrow> f64" where
  "ulr unrecovDelta totalDelta =
     (if 0 < totalDelta
      then f64_mul (f64_div (f64_of_u64 unrecovDelta) (f64_of_u64 totalDelta)) 100 else 0)"

text \<open>The head of \<open>recordSample\<close>: timers are forgotten after a long silence.\<close>

definition touch_sample :: "int \<Rightarrow> degrade_state \<Rightarrow> degrade_state" where
  "touch_sample now d =
     (let d1 = (case lastSampleAt d of
                  None \<Rightarrow> d
                | Some t \<Rightarrow>
                    if StaleGap < now - t
                    then d\<lparr>goodSince := None, degradeCooldownUntil := None\<rparr> else d)
      in d1\<lparr>lastSampleAt := Some now\<rparr>)"

definition allow_layer :: "thresholds \<Rightarrow> f64 \<Rightarrow> bool" where
  "allow_layer t u \<longleftrightarrow> RestartPct t \<le> 0 \<or> RestartPct t < u"

definition recordSample ::
  "int \<Rightarrow> u64 \<Rightarrow> u64 \<Rightarrow> thresholds \<Rightarrow> degrade_state \<Rightarrow> degrade_state \<times> pushes \<times> action" where
  "recordSample now unrecovDelta totalDelta t d0 =
     (let d = touch_sample now d0;
          u = ulr unrecovDelta totalDelta;
          observation = duration_of_seconds (ObservationSec t)
      in if RaisePct t < u then
           (let d1 = d\<lparr>goodSince := None\<rparr> in
            if \<not> time_before now (degradeCooldownUntil d1) then
              (let (d2, out, restarted) = degrade now (allow_layer t u) d1
               in (d2\<lparr>degradeCooldownUntil := Some (now + observation)\<rparr>, out,
                   if restarted then ActionRestart else ActionDegrade))
            else (d1, [], ActionNone))
         else if u \<le> LowerPct t then
           (let d1 = d\<lparr>degradeCooldownUntil := None\<rparr> in
            case goodSince d1 of
              None \<Rightarrow> (d1\<lparr>goodSince := Some now\<rparr>, [], ActionNone)
            | Some g \<Rightarrow>
                if observation \<le> now - g then
                  (let (d2, out) = recover d1
                   in (d2\<lparr>goodSince := Some now\<rparr>, out, ActionRecover))
                else (d1, [], ActionNone))
         else (d, [], ActionNone))"

text \<open>
  \<open>Sample\<close> holds the mutex twice: first to turn the cumulative counters into deltas
  (\<open>sample_deltas\<close>, \<open>None\<close> when the counters went backwards and become the new baseline), then
  in \<open>recordSample\<close>.
\<close>

definition sample_deltas :: "u64 \<Rightarrow> u64 \<Rightarrow> degrade_state \<Rightarrow> degrade_state \<times> (u64 \<times> u64) option" where
  "sample_deltas cumUnrecov cumTotal d =
     (let d1 = d\<lparr>lastUnrecov := cumUnrecov, lastTotal := cumTotal\<rparr> in
      if \<not> haveLastCum d \<or> cumUnrecov < lastUnrecov d \<or> cumTotal < lastTotal d
      then (d1\<lparr>haveLastCum := True\<rparr>, None)
      else (d1, Some (cumUnrecov - lastUnrecov d, cumTotal - lastTotal d)))"

definition Sample ::
  "int \<Rightarrow> u64 \<Rightarrow> u64 \<Rightarrow> thresholds \<Rightarrow> degrade_state \<Rightarrow> degrade_state \<times> pushes \<times> action" where
  "Sample now cumUnrecov cumTotal t d =
     (case sample_deltas cumUnrecov cumTotal d of
        (d1, None) \<Rightarrow> (d1, [], ActionNone)
      | (d1, Some (unrecovDelta, totalDelta)) \<Rightarrow> recordSample now unrecovDelta totalDelta t d1)"

text \<open>\<open>BindConn\<close> also returns the connection it closes.\<close>

definition BindConn :: "conn \<Rightarrow> degrade_state \<Rightarrow> degrade_state \<times> pushes \<times> conn option" where
  "BindConn c d =
     (let closed = (case wsConn d of None \<Rightarrow> None | Some p \<Rightarrow> if p \<noteq> c then Some p else None);
          d1 = d\<lparr>wsConn := Some c\<rparr>
      in (d1, if maxLayers d1 = 0 then [] else [(c, target_state d1)], closed))"

definition UnbindConn :: "conn \<Rightarrow> degrade_state \<Rightarrow> degrade_state" where
  "UnbindConn c d = (if wsConn d = Some c then d\<lparr>wsConn := None\<rparr> else d)"

section \<open>The manager\<close>

type_synonym degrade_manager = "string \<rightharpoonup> degrade_state"

definition GetOrCreate :: "degrade_manager \<Rightarrow> string \<Rightarrow> degrade_manager \<times> degrade_state" where
  "GetOrCreate m p =
     (case m p of Some st \<Rightarrow> (m, st) | None \<Rightarrow> (let st = newState p in (m(p \<mapsto> st), st)))"

definition RecordSample ::
  "int \<Rightarrow> degrade_manager \<Rightarrow> string \<Rightarrow> u64 \<Rightarrow> u64 \<Rightarrow> thresholds \<Rightarrow> degrade_manager \<times> pushes \<times> action" where
  "RecordSample now m p cumUnrecov cumTotal t =
     (let (m1, st) = GetOrCreate m p;
          (st', out, act) = Sample now cumUnrecov cumTotal t st
      in (m1(p \<mapsto> st'), out, act))"

definition ObserveSessionLayers ::
  "degrade_manager \<Rightarrow> string \<Rightarrow> int \<Rightarrow> degrade_manager \<times> pushes" where
  "ObserveSessionLayers m p realLayers =
     (let (m1, st) = GetOrCreate m p;
          (st', out) = ObserveSessionLayerCount realLayers st
      in (m1(p \<mapsto> st'), out))"


section \<open>The ladder\<close>

text \<open>
  The reference: a position on a ladder of \<open>n + 1\<close> steps below full quality (two of bitrate,
  then \<open>n - 1\<close> of layers), moved one step at a time. The layer steps need permission.
\<close>

definition ladder_down :: "int \<Rightarrow> bool \<Rightarrow> int \<Rightarrow> int" where
  "ladder_down n allowLayer pos =
     (if n = 0 then pos
      else if pos < 2 \<or> allowLayer \<and> pos < n + 1 then pos + 1 else pos)"

definition ladder_up :: "int \<Rightarrow> int" where
  "ladder_up pos = (if 0 < pos then pos - 1 else 0)"

definition ladder_target :: "int \<Rightarrow> int \<Rightarrow> int \<times> int" where
  "ladder_target n pos = (n - max 0 (pos - 2), 100 - 20 * min 2 pos)"

definition ladder :: "degrade_state \<Rightarrow> int" where
  "ladder d = (100 - bitratePercent d) div 20 + (maxLayers d - layers d)"

definition deg_inv :: "degrade_state \<Rightarrow> bool" where
  "deg_inv d \<longleftrightarrow>
     (if maxLayers d = 0 then layers d = 0 \<and> bitratePercent d = 100
      else 1 \<le> layers d \<and> layers d \<le> maxLayers d \<and> bitratePercent d \<in> {60, 80, 100} \<and>
           (layers d < maxLayers d \<longrightarrow> bitratePercent d = 60))"

text \<open>The fields that only timers, counters and connections touch do not matter for the ladder.\<close>

lemma ladder_frame [simp]:
  "ladder (d\<lparr>haveLastCum := a\<rparr>) = ladder d" "ladder (d\<lparr>lastUnrecov := b\<rparr>) = ladder d"
  "ladder (d\<lparr>lastTotal := b\<rparr>) = ladder d" "ladder (d\<lparr>goodSince := t\<rparr>) = ladder d"
  "ladder (d\<lparr>lastSampleAt := t\<rparr>) = ladder d" "ladder (d\<lparr>degradeCooldownUntil := t\<rparr>) = ladder d"
  "ladder (d\<lparr>lastAlertTime := t\<rparr>) = ladder d" "ladder (d\<lparr>wsConn := c\<rparr>) = ladder d"
  by (simp_all add: ladder_def)

lemma deg_inv_frame [simp]:
  "deg_inv (d\<lparr>haveLastCum := a\<rparr>) = deg_inv d" "deg_inv (d\<lparr>lastUnrecov := b\<rparr>) = deg_inv d"
  "deg_inv (d\<lparr>lastTotal := b\<rparr>) = deg_inv d" "deg_inv (d\<lparr>goodSince := t\<rparr>) = deg_inv d"
  "deg_inv (d\<lparr>lastSampleAt := t\<rparr>) = deg_inv d" "deg_inv (d\<lparr>degradeCooldownUntil := t\<rparr>) = deg_inv d"
  "deg_inv (d\<lparr>lastAlertTime := t\<rparr>) = deg_inv d" "deg_inv (d\<lparr>wsConn := c\<rparr>) = deg_inv d"
  by (simp_all add: deg_inv_def)

lemma target_state_frame [simp]:
  "target_state (d\<lparr>haveLastCum := a\<rparr>) = target_state d"
  "target_state (d\<lparr>lastUnrecov := b\<rparr>) = target_state d"
  "target_state (d\<lparr>lastTotal := b\<rparr>) = target_state d"
  "target_state (d\<lparr>goodSince := t\<rparr>) = target_state d"
  "target_state (d\<lparr>lastSampleAt := t\<rparr>) = target_state d"
  "target_state (d\<lparr>degradeCooldownUntil := t\<rparr>) = target_state d"
  "target_state (d\<lparr>lastAlertTime := t\<rparr>) = target_state d"
  "target_state (d\<lparr>wsConn := c\<rparr>) = target_state d"
  by (simp_all add: target_state_def)

lemma deg_inv_ladder:
  assumes "deg_inv d"
  shows "0 \<le> ladder d" "ladder d \<le> (if maxLayers d = 0 then 0 else maxLayers d + 1)"
    "ladder_target (maxLayers d) (ladder d) = (layers d, bitratePercent d)"
proof -
  have "0 \<le> ladder d \<and> ladder d \<le> (if maxLayers d = 0 then 0 else maxLayers d + 1) \<and>
    ladder_target (maxLayers d) (ladder d) = (layers d, bitratePercent d)"
    using assms
    by (cases "layers d = maxLayers d")
      (auto simp: deg_inv_def ladder_def ladder_target_def split: if_splits)
  then show "0 \<le> ladder d" "ladder d \<le> (if maxLayers d = 0 then 0 else maxLayers d + 1)"
    "ladder_target (maxLayers d) (ladder d) = (layers d, bitratePercent d)" by blast+
qed

lemma degrade_refines:
  assumes "deg_inv d" "degrade now a d = (d', out, restarted)"
  shows "deg_inv d'" "maxLayers d' = maxLayers d"
    "ladder d' = ladder_down (maxLayers d) a (ladder d)"
    "restarted \<longleftrightarrow> layers d' < layers d"
    "restarted \<Longrightarrow> a \<and> bitratePercent d = 60 \<and> layers d' = layers d - 1"
    "\<not> restarted \<Longrightarrow> layers d' = layers d"
proof -
  have "deg_inv d' \<and> maxLayers d' = maxLayers d \<and>
    ladder d' = ladder_down (maxLayers d) a (ladder d) \<and> (restarted \<longleftrightarrow> layers d' < layers d) \<and>
    (restarted \<longrightarrow> a \<and> bitratePercent d = 60 \<and> layers d' = layers d - 1) \<and>
    (\<not> restarted \<longrightarrow> layers d' = layers d)"
    using assms
    by (cases "maxLayers d = 0"; cases "layers d < maxLayers d")
      (auto simp: degrade_def deg_inv_def ladder_def ladder_down_def Let_def
        split: if_splits option.splits)
  then show "deg_inv d'" "maxLayers d' = maxLayers d"
    "ladder d' = ladder_down (maxLayers d) a (ladder d)" "restarted \<longleftrightarrow> layers d' < layers d"
    "restarted \<Longrightarrow> a \<and> bitratePercent d = 60 \<and> layers d' = layers d - 1"
    "\<not> restarted \<Longrightarrow> layers d' = layers d"
    by blast+
qed

lemma recover_refines:
  assumes "deg_inv d" "recover d = (d', out)"
  shows "deg_inv d'" "maxLayers d' = maxLayers d" "ladder d' = ladder_up (ladder d)"
    "layers d \<le> layers d'" "lastSampleAt d' = lastSampleAt d"
proof -
  have "deg_inv d' \<and> maxLayers d' = maxLayers d \<and> ladder d' = ladder_up (ladder d) \<and>
    layers d \<le> layers d' \<and> lastSampleAt d' = lastSampleAt d"
    using assms
    by (cases "maxLayers d = 0"; cases "layers d < maxLayers d")
      (auto simp: recover_def deg_inv_def ladder_def ladder_up_def Let_def split: if_splits)
  then show "deg_inv d'" "maxLayers d' = maxLayers d" "ladder d' = ladder_up (ladder d)"
    "layers d \<le> layers d'" "lastSampleAt d' = lastSampleAt d"
    by blast+
qed

lemma deg_inv_newState: "deg_inv (newState p)"
  by (simp add: deg_inv_def newState_def)

lemma deg_inv_observe: "deg_inv d \<Longrightarrow> deg_inv (fst (ObserveSessionLayerCount n d))"
  by (auto simp: ObserveSessionLayerCount_def deg_inv_def Let_def split: if_splits)

lemma touch_sample_frame [simp]:
  "ladder (touch_sample now d) = ladder d" "deg_inv (touch_sample now d) = deg_inv d"
  "target_state (touch_sample now d) = target_state d"
  "maxLayers (touch_sample now d) = maxLayers d" "layers (touch_sample now d) = layers d"
  "bitratePercent (touch_sample now d) = bitratePercent d"
  "wsConn (touch_sample now d) = wsConn d" "lastSampleAt (touch_sample now d) = Some now"
  by (auto simp: touch_sample_def Let_def split: option.splits)

section \<open>One sample\<close>

text \<open>
  What a sample does to the ladder, by the action it reports. \<open>cooled\<close> is the cooldown guard
  after the stale-gap reset.
\<close>

definition cooled :: "int \<Rightarrow> degrade_state \<Rightarrow> bool" where
  "cooled now d \<longleftrightarrow> \<not> time_before now (degradeCooldownUntil (touch_sample now d))"

fun ladder_after :: "thresholds \<Rightarrow> f64 \<Rightarrow> action \<Rightarrow> int \<Rightarrow> int \<Rightarrow> int" where
  "ladder_after t u ActionNone n pos = pos"
| "ladder_after t u ActionDegrade n pos = ladder_down n (allow_layer t u) pos"
| "ladder_after t u ActionRestart n pos = ladder_down n (allow_layer t u) pos"
| "ladder_after t u ActionRecover n pos = ladder_up pos"

lemma recordSample_raise:
  assumes "RaisePct t < ulr x y"
  shows "recordSample now x y t d =
    (let d1 = (touch_sample now d)\<lparr>goodSince := None\<rparr> in
     if cooled now d then
       (let (d2, out, restarted) = degrade now (allow_layer t (ulr x y)) d1
        in (d2\<lparr>degradeCooldownUntil := Some (now + duration_of_seconds (ObservationSec t))\<rparr>, out,
            if restarted then ActionRestart else ActionDegrade))
     else (d1, [], ActionNone))"
  using assms by (simp add: recordSample_def Let_def cooled_def)

lemma recordSample_refines:
  assumes "deg_inv d" "recordSample now x y t d = (d', out, act)"
  shows "deg_inv d'" "maxLayers d' = maxLayers d"
    "ladder d' = ladder_after t (ulr x y) act (maxLayers d) (ladder d)"
    "act = ActionRestart \<longleftrightarrow> layers d' < layers d"
    "act = ActionRestart \<Longrightarrow> layers d' = layers d - 1 \<and> bitratePercent d = 60 \<and> allow_layer t (ulr x y)"
    "act \<in> {ActionDegrade, ActionRestart} \<Longrightarrow> RaisePct t < ulr x y \<and> cooled now d \<and>
       degradeCooldownUntil d' = Some (now + duration_of_seconds (ObservationSec t))"
    "lastSampleAt d' = Some now"
proof -
  let ?P = "deg_inv d' \<and> maxLayers d' = maxLayers d \<and>
    ladder d' = ladder_after t (ulr x y) act (maxLayers d) (ladder d) \<and>
    (act = ActionRestart \<longleftrightarrow> layers d' < layers d) \<and>
    (act = ActionRestart \<longrightarrow>
      layers d' = layers d - 1 \<and> bitratePercent d = 60 \<and> allow_layer t (ulr x y)) \<and>
    (act \<in> {ActionDegrade, ActionRestart} \<longrightarrow> RaisePct t < ulr x y \<and> cooled now d \<and>
      degradeCooldownUntil d' = Some (now + duration_of_seconds (ObservationSec t))) \<and>
    lastSampleAt d' = Some now"
  have ?P
  proof (cases "RaisePct t < ulr x y")
    case True
    let ?d1 = "(touch_sample now d)\<lparr>goodSince := None\<rparr>"
    show ?thesis
    proof (cases "cooled now d")
      case c: True
      obtain d2 o2 restarted where deg: "degrade now (allow_layer t (ulr x y)) ?d1 = (d2, o2, restarted)"
        using prod_cases3 by blast
      have inv1: "deg_inv ?d1" using assms(1) by simp
      have "lastSampleAt d2 = Some now"
        using deg by (auto simp: degrade_def Let_def split: if_splits option.splits)
      moreover have res: "d' = d2\<lparr>degradeCooldownUntil := Some (now + duration_of_seconds (ObservationSec t))\<rparr>"
        "act = (if restarted then ActionRestart else ActionDegrade)"
        using assms(2) recordSample_raise [OF True, of now d] c deg by simp_all
      moreover have "deg_inv d2" "maxLayers d2 = maxLayers d"
        "ladder d2 = ladder_down (maxLayers d) (allow_layer t (ulr x y)) (ladder d)"
        "restarted \<longleftrightarrow> layers d2 < layers d"
        using degrade_refines(1-4) [OF inv1 deg] by simp_all
      moreover have "allow_layer t (ulr x y)" "bitratePercent d = 60" "layers d2 = layers d - 1"
        if restarted using degrade_refines(5) [OF inv1 deg that] by simp_all
      ultimately show ?thesis using True c by (cases restarted) (simp_all only: refl, simp_all)
    next
      case False
      then show ?thesis using assms True recordSample_raise [OF True, of now d] by auto
    qed
  next
    case False
    then show ?thesis
      using assms recover_refines [of "(touch_sample now d)\<lparr>degradeCooldownUntil := None\<rparr>"]
      by (auto simp: recordSample_def Let_def split: if_splits option.splits prod.splits)
  qed
  then show "deg_inv d'" "maxLayers d' = maxLayers d"
    "ladder d' = ladder_after t (ulr x y) act (maxLayers d) (ladder d)"
    "act = ActionRestart \<longleftrightarrow> layers d' < layers d"
    "act = ActionRestart \<Longrightarrow> layers d' = layers d - 1 \<and> bitratePercent d = 60 \<and> allow_layer t (ulr x y)"
    "act \<in> {ActionDegrade, ActionRestart} \<Longrightarrow> RaisePct t < ulr x y \<and> cooled now d \<and>
       degradeCooldownUntil d' = Some (now + duration_of_seconds (ObservationSec t))"
    "lastSampleAt d' = Some now"
    by blast+
qed


section \<open>Reachable states\<close>

text \<open>
  Every critical section of \<open>State\<close> as an event, in any order: samples of several sessions can
  interleave between the two sections of \<open>Sample\<close>. \<open>sent\<close> remembers the last target state written
  to each connection.
\<close>

datatype degrade_event =
    EObserve int
  | EDeltas u64 u64
  | ERecord int u64 u64 thresholds
  | EBind conn
  | EUnbind conn

fun degrade_step :: "degrade_event \<Rightarrow> degrade_state \<Rightarrow> degrade_state \<times> pushes" where
  "degrade_step (EObserve n) d = ObserveSessionLayerCount n d"
| "degrade_step (EDeltas a b) d = (fst (sample_deltas a b d), [])"
| "degrade_step (ERecord now x y t) d =
     (let (d', out, _) = recordSample now x y t d in (d', out))"
| "degrade_step (EBind c) d = (let (d', out, _) = BindConn c d in (d', out))"
| "degrade_step (EUnbind c) d = (UnbindConn c d, [])"

fun record_sent :: "pushes \<Rightarrow> (conn \<rightharpoonup> degrade_msg) \<Rightarrow> (conn \<rightharpoonup> degrade_msg)" where
  "record_sent [] sent = sent"
| "record_sent ((c, AlertMsg _) # out) sent = record_sent out sent"
| "record_sent ((c, TargetStateMsg p k l b) # out) sent =
     record_sent out (sent(c \<mapsto> TargetStateMsg p k l b))"

inductive degrade_reach :: "string \<Rightarrow> degrade_state \<Rightarrow> (conn \<rightharpoonup> degrade_msg) \<Rightarrow> bool" for p where
  start: "degrade_reach p (newState p) (\<lambda>_. None)"
| step: "degrade_reach p d sent \<Longrightarrow> degrade_step ev d = (d', out) \<Longrightarrow>
    degrade_reach p d' (record_sent out sent)"

definition in_sync :: "degrade_state \<Rightarrow> (conn \<rightharpoonup> degrade_msg) \<Rightarrow> bool" where
  "in_sync d sent \<longleftrightarrow>
     (\<forall>c. wsConn d = Some c \<and> maxLayers d \<noteq> 0 \<longrightarrow> sent c = Some (target_state d))"

lemma record_sent_target:
  "record_sent (pushLocked d (target_state d)) sent
   = (case wsConn d of None \<Rightarrow> sent | Some c \<Rightarrow> sent(c \<mapsto> target_state d))"
  by (simp add: pushLocked_def target_state_def split: option.splits)

lemma record_sent_alert: "record_sent (pushLocked d (AlertMsg p)) sent = sent"
  by (simp add: pushLocked_def split: option.splits)

lemmas sync_simps = in_sync_def record_sent_target record_sent_alert pushTargetStateLocked_def

lemma degrade_in_sync:
  assumes "degrade now a d = (d', out, restarted)" "in_sync d sent"
  shows "in_sync d' (record_sent out sent)"
  using assms by (auto simp: degrade_def sync_simps Let_def split: if_splits option.splits)

lemma recover_in_sync:
  assumes "recover d = (d', out)" "in_sync d sent"
  shows "in_sync d' (record_sent out sent)"
  using assms by (auto simp: recover_def sync_simps Let_def split: if_splits option.splits)

lemma in_sync_frame [simp]:
  "in_sync (d\<lparr>haveLastCum := h\<rparr>) sent = in_sync d sent"
  "in_sync (d\<lparr>lastUnrecov := b\<rparr>) sent = in_sync d sent"
  "in_sync (d\<lparr>lastTotal := b\<rparr>) sent = in_sync d sent"
  "in_sync (d\<lparr>goodSince := t\<rparr>) sent = in_sync d sent"
  "in_sync (d\<lparr>degradeCooldownUntil := t\<rparr>) sent = in_sync d sent"
  "in_sync (touch_sample now d) sent = in_sync d sent"
  by (simp_all add: in_sync_def)

lemma recordSample_in_sync:
  assumes "recordSample now x y t d = (d', out, act)" "in_sync d sent"
  shows "in_sync d' (record_sent out sent)"
proof (cases "RaisePct t < ulr x y")
  case True
  obtain d2 o2 restarted where deg: "degrade now (allow_layer t (ulr x y))
      ((touch_sample now d)\<lparr>goodSince := None\<rparr>) = (d2, o2, restarted)"
    using prod_cases3 by blast
  show ?thesis
    using assms recordSample_raise [OF True, of now d] deg degrade_in_sync [OF deg]
    by (auto simp: Let_def split: if_splits)
next
  case False
  then show ?thesis
    using assms recover_in_sync [of "(touch_sample now d)\<lparr>degradeCooldownUntil := None\<rparr>"]
    by (auto simp: recordSample_def Let_def split: if_splits option.splits prod.splits)
qed

lemma sample_deltas_frame:
  "deg_inv (fst (sample_deltas a b d)) = deg_inv d"
  "in_sync (fst (sample_deltas a b d)) sent = in_sync d sent"
  "path (fst (sample_deltas a b d)) = path d"
  by (simp_all add: sample_deltas_def Let_def)

lemma degrade_step_inv:
  assumes "degrade_step ev d = (d', out)" "deg_inv d" "in_sync d sent"
  shows "deg_inv d' \<and> in_sync d' (record_sent out sent)"
proof (cases ev)
  case (EObserve n)
  with assms show ?thesis
    using deg_inv_observe [of d n]
    by (auto simp: ObserveSessionLayerCount_def sync_simps Let_def split: if_splits option.splits)
next
  case (EDeltas a b)
  with assms show ?thesis by (auto simp: sample_deltas_frame)
next
  case (ERecord now x y t)
  with assms(1) obtain act where "recordSample now x y t d = (d', out, act)"
    by (auto split: prod.splits)
  with assms(2,3) show ?thesis
    using recordSample_refines(1) recordSample_in_sync by blast
next
  case (EBind c)
  with assms show ?thesis by (auto simp: BindConn_def in_sync_def target_state_def Let_def)
next
  case (EUnbind c)
  with assms show ?thesis by (auto simp: UnbindConn_def in_sync_def split: if_splits)
qed

lemma degrade_reach_inv:
  "degrade_reach p d sent \<Longrightarrow> deg_inv d \<and> in_sync d sent"
proof (induction rule: degrade_reach.induct)
  case start
  show ?case using deg_inv_newState by (simp add: in_sync_def) (simp add: newState_def)
next
  case (step d sent ev d' out)
  then show ?case using degrade_step_inv by blast
qed


section \<open>Sequences of samples\<close>

text \<open>Samples of one path: time, unrecovered and total packets since the previous one.\<close>

type_synonym sample = "int \<times> u64 \<times> u64"

fun record_all :: "thresholds \<Rightarrow> sample list \<Rightarrow> degrade_state \<Rightarrow> degrade_state \<times> action list" where
  "record_all t [] d = (d, [])"
| "record_all t ((now, x, y) # ss) d =
     (let (d1, _, act) = recordSample now x y t d; (d2, acts) = record_all t ss d1
      in (d2, act # acts))"

text \<open>The samples come after \<open>prev\<close>, at most \<open>gap\<close> apart; \<open>end_time\<close> is the time of the last.\<close>

fun spaced :: "int \<Rightarrow> int \<Rightarrow> sample list \<Rightarrow> bool" where
  "spaced gap prev [] = True"
| "spaced gap prev ((now, _, _) # ss) = (prev \<le> now \<and> now \<le> prev + gap \<and> spaced gap now ss)"

fun end_time :: "int \<Rightarrow> sample list \<Rightarrow> int" where
  "end_time prev [] = prev"
| "end_time prev ((now, _, _) # ss) = end_time now ss"

lemma touch_sample_fresh:
  "lastSampleAt d = Some l \<Longrightarrow> now \<le> l + StaleGap \<Longrightarrow>
   touch_sample now d = d\<lparr>lastSampleAt := Some now\<rparr>"
  by (simp add: touch_sample_def)

text \<open>
  During the cooldown the ladder does not move, whatever the loss, as long as no sample is
  compliant (a compliant one ends the cooldown).
\<close>

lemma record_all_cooldown:
  assumes "degradeCooldownUntil d = Some c" "lastSampleAt d = Some l"
    and "spaced StaleGap l ss" "\<forall>(now, x, y) \<in> set ss. now < c \<and> LowerPct t < ulr x y"
  shows "ladder (fst (record_all t ss d)) = ladder d \<and>
         set (snd (record_all t ss d)) \<subseteq> {ActionNone}"
  using assms
proof (induction ss arbitrary: d l)
  case (Cons s ss)
  obtain now x y where s: "s = (now, x, y)" by (cases s)
  have touch: "touch_sample now d = d\<lparr>lastSampleAt := Some now\<rparr>"
    using Cons.prems(2,3) s by (simp add: touch_sample_fresh)
  have guard: "time_before now (degradeCooldownUntil d)" "\<not> ulr x y \<le> LowerPct t"
    using Cons.prems(1,4) s by auto
  define d1 where "d1 = (if RaisePct t < ulr x y then d\<lparr>lastSampleAt := Some now, goodSince := None\<rparr>
    else d\<lparr>lastSampleAt := Some now\<rparr>)"
  have "recordSample now x y t d = (d1, [], ActionNone)"
    using guard by (simp add: recordSample_def touch d1_def Let_def)
  moreover have "degradeCooldownUntil d1 = Some c" "lastSampleAt d1 = Some now" "ladder d1 = ladder d"
    using Cons.prems(1) by (simp_all add: d1_def)
  moreover from this(1,2) have "ladder (fst (record_all t ss d1)) = ladder d1 \<and>
      set (snd (record_all t ss d1)) \<subseteq> {ActionNone}"
    using Cons.prems(3,4) s by (intro Cons.IH [of d1 now]) auto
  ultimately show ?case using s by (auto split: prod.splits)
qed simp

text \<open>
  Recovery takes a bounded time: while every sample is compliant, the time since the first
  compliant one is at most one observation window plus one window and sampling gap per step
  recovered.
\<close>

definition compliant :: "thresholds \<Rightarrow> sample \<Rightarrow> bool" where
  "compliant t s \<longleftrightarrow> (case s of (_, x, y) \<Rightarrow> ulr x y \<le> LowerPct t \<and> \<not> RaisePct t < ulr x y)"

abbreviation observation :: "thresholds \<Rightarrow> int" where
  "observation t \<equiv> duration_of_seconds (ObservationSec t)"

lemma compliant_step:
  assumes "deg_inv d" "goodSince d = Some g" "lastSampleAt d = Some l" "now \<le> l + StaleGap"
    and "compliant t (now, x, y)"
  shows "\<exists>d1 out act. recordSample now x y t d = (d1, out, act) \<and> deg_inv d1 \<and>
           lastSampleAt d1 = Some now \<and>
           (if observation t \<le> now - g
            then act = ActionRecover \<and> ladder d1 = ladder_up (ladder d) \<and> goodSince d1 = Some now
            else act = ActionNone \<and> ladder d1 = ladder d \<and> goodSince d1 = Some g)"
proof -
  let ?d = "d\<lparr>lastSampleAt := Some now, degradeCooldownUntil := None\<rparr>"
  obtain d2 out where rec: "recover ?d = (d2, out)" by force
  have "recordSample now x y t d =
      (if observation t \<le> now - g then (d2\<lparr>goodSince := Some now\<rparr>, out, ActionRecover)
       else (?d, [], ActionNone))"
    using assms(2,5) rec
    by (simp add: recordSample_def touch_sample_fresh [OF assms(3,4)] compliant_def Let_def)
  moreover have "deg_inv ?d" using assms(1) by simp
  from recover_refines [OF this rec]
  have "deg_inv d2" "ladder d2 = ladder_up (ladder d)" "lastSampleAt d2 = Some now" by simp_all
  ultimately show ?thesis using assms(1,2) by auto
qed

lemma ladder_up_iter: "0 \<le> k \<Longrightarrow> 0 \<le> pos \<Longrightarrow> ladder_up (max 0 (pos - k)) = max 0 (pos - (k + 1))"
  by (simp add: ladder_up_def max_def)

lemma record_all_recovers:
  assumes "deg_inv d" "goodSince d = Some g" "lastSampleAt d = Some l" "g \<le> l" "l - g < observation t"
    and "spaced gap l ss" "gap \<le> StaleGap" "list_all (compliant t) ss" "0 < observation t" "0 \<le> gap"
  shows "\<exists>n d' acts. record_all t ss d = (d', acts) \<and> 0 \<le> n \<and>
           ladder d' = max 0 (ladder d - n) \<and>
           end_time l ss - g < n * (observation t + gap) + observation t"
  using assms
proof (induction ss arbitrary: d g l)
  case Nil
  then show ?case using deg_inv_ladder(1) [OF Nil.prems(1)] by (intro exI [of _ 0]) auto
next
  case (Cons s ss)
  obtain now x y where s: "s = (now, x, y)" by (cases s)
  have now: "l \<le> now" "now \<le> l + gap" "spaced gap now ss" "compliant t (now, x, y)"
    "list_all (compliant t) ss"
    using Cons.prems(6,8) s by auto
  have pos: "0 \<le> ladder d" by (rule deg_inv_ladder(1) [OF Cons.prems(1)])
  from compliant_step [OF Cons.prems(1-3) _ now(4)] Cons.prems(7) now(2)
  obtain d1 out act where st: "recordSample now x y t d = (d1, out, act)" "deg_inv d1"
    "lastSampleAt d1 = Some now"
    "if observation t \<le> now - g
     then act = ActionRecover \<and> ladder d1 = ladder_up (ladder d) \<and> goodSince d1 = Some now
     else act = ActionNone \<and> ladder d1 = ladder d \<and> goodSince d1 = Some g"
    by auto
  show ?case
  proof (cases "observation t \<le> now - g")
    case True
    with st(4) have d1: "ladder d1 = ladder_up (ladder d)" "goodSince d1 = Some now" by auto
    obtain n d' acts where n: "record_all t ss d1 = (d', acts)" "0 \<le> n"
      "ladder d' = max 0 (ladder d1 - n)"
      "end_time now ss - now < n * (observation t + gap) + observation t"
      using Cons.IH [OF st(2) d1(2) st(3) _ _ now(3) Cons.prems(7) now(5) Cons.prems(9,10)]
        Cons.prems(9) by auto
    have "ladder d' = max 0 (ladder d - (n + 1))"
      using n(2,3) d1(1) pos by (simp add: ladder_up_def max_def split: if_splits)
    moreover have "end_time now ss - g < (n + 1) * (observation t + gap) + observation t"
      using n(4) now(2) Cons.prems(5) by (simp add: algebra_simps)
    ultimately show ?thesis
      using n(1,2) s st(1) by (intro exI [of _ "n + 1"] exI [of _ d'] exI [of _ "act # acts"]) simp
  next
    case False
    with st(4) have d1: "ladder d1 = ladder d" "goodSince d1 = Some g" by auto
    have "g \<le> now" "now - g < observation t" using False Cons.prems(4) now(1) by auto
    with Cons.IH [OF st(2) d1(2) st(3) _ _ now(3) Cons.prems(7) now(5) Cons.prems(9,10)]
    obtain n d' acts where "record_all t ss d1 = (d', acts)" "0 \<le> n"
      "ladder d' = max 0 (ladder d1 - n)"
      "end_time now ss - g < n * (observation t + gap) + observation t"
      by auto
    then show ?thesis
      using s st(1) d1(1) by (intro exI [of _ n] exI [of _ d'] exI [of _ "act # acts"]) simp
  qed
qed

lemma record_all_full_quality:
  assumes "deg_inv d" "goodSince d = Some g" "lastSampleAt d = Some l" "g \<le> l" "l - g < observation t"
    and "spaced gap l ss" "gap \<le> StaleGap" "list_all (compliant t) ss" "0 < observation t" "0 \<le> gap"
    and "ladder d * (observation t + gap) + observation t \<le> end_time l ss - g"
  shows "ladder (fst (record_all t ss d)) = 0"
proof -
  from record_all_recovers [OF assms(1-10)] obtain n d' acts where
    n: "record_all t ss d = (d', acts)" "0 \<le> n" "ladder d' = max 0 (ladder d - n)"
    "end_time l ss - g < n * (observation t + gap) + observation t" by blast
  from n(4) assms(11) have "ladder d * (observation t + gap) < n * (observation t + gap)" by linarith
  then have "ladder d < n" using assms(9,10) by (simp add: mult_less_cancel_right)
  with n show ?thesis by simp
qed

section \<open>Counters and the manager\<close>

text \<open>A restarted session, whose counters are below the last ones, never moves the ladder.\<close>

lemma Sample_reset:
  assumes "\<not> haveLastCum d \<or> a < lastUnrecov d \<or> b < lastTotal d"
  shows "Sample now a b t d = (d\<lparr>lastUnrecov := a, lastTotal := b, haveLastCum := True\<rparr>, [], ActionNone)"
  using assms by (auto simp: Sample_def sample_deltas_def Let_def)

lemma Sample_delta:
  assumes "haveLastCum d" "lastUnrecov d \<le> a" "lastTotal d \<le> b"
  shows "Sample now a b t d = recordSample now (a - lastUnrecov d) (b - lastTotal d) t
           (d\<lparr>lastUnrecov := a, lastTotal := b\<rparr>)"
  using assms by (auto simp: Sample_def sample_deltas_def Let_def)

lemma ulr_no_loss [simp]: "ulr 0 b = 0"
  by (simp add: ulr_def f64_ops)

lemma RecordSample_other:
  "RecordSample now m p a b t = (m', out, act) \<Longrightarrow> q \<noteq> p \<Longrightarrow> m' q = m q"
  by (auto simp: RecordSample_def GetOrCreate_def Let_def split: option.splits prod.splits)

lemma GetOrCreate_stable:
  "GetOrCreate m p = (m1, st) \<Longrightarrow> GetOrCreate m1 p = (m1, st)"
  by (auto simp: GetOrCreate_def Let_def split: option.splits)

section \<open>Correctness\<close>

text \<open>C38.
  Refinement: a sample moves the abstract ladder exactly as its reported action says, and layers
  are cut, one at a time, only with the restart action, only from the lowest bitrate and only when
  the loss is above the restart threshold.
\<close>
theorem degrade_sample_refines_ladder:
  assumes "deg_inv d" "recordSample now x y t d = (d', out, act)"
  shows "deg_inv d' \<and> ladder d' = ladder_after t (ulr x y) act (maxLayers d) (ladder d) \<and>
    ladder_target (maxLayers d') (ladder d') = (layers d', bitratePercent d') \<and>
    (act = ActionRestart \<longleftrightarrow> layers d' = layers d - 1) \<and>
    (act = ActionRestart \<longrightarrow> bitratePercent d = 60 \<and> allow_layer t (ulr x y))"
  using recordSample_refines [OF assms] deg_inv_ladder(3) [of d'] by auto

definition sample_thresholds :: thresholds where
  "sample_thresholds = \<lparr>RaisePct = 5, LowerPct = 1, RestartPct = 0, ObservationSec = 30\<rparr>"

definition sample_degrade_state :: degrade_state where
  "sample_degrade_state = (newState ''cam/h264'')\<lparr>maxLayers := 3, layers := 3, bitratePercent := 60\<rparr>"

lemma sample_degrade_inv: "deg_inv sample_degrade_state"
  by (simp add: sample_degrade_state_def newState_def deg_inv_def)

theorem degrade_sample_refines_ladder_witness:
  "\<exists>d' out act. deg_inv sample_degrade_state \<and>
     recordSample 100 50 100 sample_thresholds sample_degrade_state = (d', out, act) \<and>
     deg_inv d' \<and>
     ladder d' = ladder_after sample_thresholds (ulr 50 100) act
       (maxLayers sample_degrade_state) (ladder sample_degrade_state)"
proof -
  obtain d' out act where
    r: "recordSample 100 50 100 sample_thresholds sample_degrade_state = (d', out, act)"
    using prod_cases3 by blast
  from degrade_sample_refines_ladder [OF sample_degrade_inv r] r sample_degrade_inv
  show ?thesis by blast
qed

text \<open>
  Under every interleaving of observations, samples, binds and unbinds the state stays on the
  ladder and the bound executor has last been told exactly the current target.
\<close>
lemma degrade_executor_in_sync:
  assumes "degrade_reach p d sent"
  shows "deg_inv d \<and> in_sync d sent"
  by (rule degrade_reach_inv [OF assms])

lemma degrade_executor_in_sync_instance:
  "degrade_reach ''cam'' (newState ''cam'') (\<lambda>_. None) \<and>
   deg_inv (newState ''cam'') \<and> in_sync (newState ''cam'') (\<lambda>_. None)"
  using degrade_executor_in_sync [OF degrade_reach.start, of "''cam''"] degrade_reach.start by blast

text \<open>
  Cooldown: after a step down, samples before its end that are not compliant move nothing, however
  large the loss, and every one of them reports no action.
\<close>
lemma degrade_cooldown_holds:
  assumes "degradeCooldownUntil d = Some c" "lastSampleAt d = Some l" "spaced StaleGap l ss"
    "\<forall>(now, x, y) \<in> set ss. now < c \<and> LowerPct t < ulr x y"
  shows "ladder (fst (record_all t ss d)) = ladder d \<and>
    set (snd (record_all t ss d)) \<subseteq> {ActionNone}"
  by (rule record_all_cooldown [OF assms])

definition cooling_state :: degrade_state where
  "cooling_state =
     sample_degrade_state\<lparr>degradeCooldownUntil := Some 1000, lastSampleAt := Some 0\<rparr>"

lemma ulr_all_lost: "ulr 100 100 = 100"
  by (simp add: ulr_def) code_simp

lemma degrade_cooldown_holds_instance:
  "degradeCooldownUntil cooling_state = Some 1000 \<and>
   ladder (fst (record_all sample_thresholds [(10, 100, 100)] cooling_state)) = ladder cooling_state"
  using degrade_cooldown_holds [of cooling_state 1000 0 "[(10, 100, 100)]" sample_thresholds]
  by (simp add: cooling_state_def StaleGap_def SampleInterval_def time_Second_def
      sample_thresholds_def ulr_all_lost)

text \<open>C39.
  Liveness of recovery: while every sample is compliant, full quality is back after one observation
  window plus one window and one sampling gap for each step the ladder was down.
\<close>
theorem degrade_recovers_full_quality:
  assumes "deg_inv d" "goodSince d = Some g" "lastSampleAt d = Some l" "g \<le> l"
    "l - g < observation t" "spaced gap l ss" "gap \<le> StaleGap" "list_all (compliant t) ss"
    "0 < observation t" "0 \<le> gap"
    "ladder d * (observation t + gap) + observation t \<le> end_time l ss - g"
  shows "ladder (fst (record_all t ss d)) = 0"
  by (rule record_all_full_quality [OF assms])

definition good_state :: degrade_state where
  "good_state = (newState ''cam'')\<lparr>maxLayers := 1, layers := 1, goodSince := Some 0, lastSampleAt := Some 0\<rparr>"

definition one_second :: thresholds where
  "one_second = \<lparr>RaisePct = 5, LowerPct = 1, RestartPct = 0, ObservationSec = 1\<rparr>"

theorem degrade_recovers_full_quality_witness:
  "deg_inv good_state \<and> ladder (fst (record_all one_second [(1000000000, 0, 100)] good_state)) = 0"
proof -
  have "deg_inv good_state" by (simp add: good_state_def newState_def deg_inv_def)
  moreover have "observation one_second = 1000000000"
    by (simp add: one_second_def) code_simp
  ultimately show ?thesis
    using degrade_recovers_full_quality [of good_state 0 0 one_second 1000000000 "[(1000000000, 0, 100)]"]
    by (simp add: good_state_def newState_def ladder_def StaleGap_def SampleInterval_def
        time_Second_def compliant_def one_second_def)
qed

end
