(* ===== verification/Go_Strings.thy ===== *)
theory Go_Strings
  imports Main "HOL-Library.Sublist" "HOL-Library.List_Lexorder" "HOL-Library.Char_ord"
begin

text \<open>
  The string functions of Go's standard library that the modelled code calls. A Go string is a
  byte sequence; the names and paths handled here are lists of HOL characters, one per byte, and
  the order on them is the bytewise lexicographic one of Go's \<^verbatim>\<open><\<close>.
\<close>

section \<open>Splitting\<close>

text \<open>\<^verbatim>\<open>strings.Split(s, sep)\<close> for a one-byte separator: one more part than separators.\<close>

fun split_at :: "'a \<Rightarrow> 'a list \<Rightarrow> 'a list list" where
  "split_at c [] = [[]]"
| "split_at c (x # xs) =
     (if x = c then [] # split_at c xs
      else case split_at c xs of [] \<Rightarrow> [[x]] | p # ps \<Rightarrow> (x # p) # ps)"

fun join_with :: "'a \<Rightarrow> 'a list list \<Rightarrow> 'a list" where
  "join_with c [] = []"
| "join_with c [p] = p"
| "join_with c (p # ps) = p @ c # join_with c ps"

lemma split_at_nonempty [simp]: "split_at c xs \<noteq> []"
  by (induction xs) (auto split: list.splits)

lemma split_at_parts: "p \<in> set (split_at c xs) \<Longrightarrow> c \<notin> set p"
  by (induction xs arbitrary: p) (auto split: list.splits if_splits)

lemma join_with_cons: "ps \<noteq> [] \<Longrightarrow> join_with c (p # ps) = p @ c # join_with c ps"
  by (cases ps) simp_all

lemma join_split_at: "join_with c (split_at c xs) = xs"
proof (induction xs)
  case (Cons x xs)
  show ?case
  proof (cases "split_at c xs")
    case (Cons p ps)
    with Cons.IH show ?thesis by (cases ps) auto
  qed simp
qed simp

lemma split_at_append:
  assumes "c \<notin> set p"
  shows "split_at c (p @ c # rest) = p # split_at c rest" and "split_at c p = [p]"
  using assms by (induction p) (auto split: list.splits)

lemma split_join_with:
  assumes "ps \<noteq> []" "\<forall>p \<in> set ps. c \<notin> set p"
  shows "split_at c (join_with c ps) = ps"
  using assms by (induction c ps rule: join_with.induct) (auto simp: split_at_append)

section \<open>Decimal numbers\<close>

text \<open>\<^verbatim>\<open>%d\<close> of a non-negative integer.\<close>

definition digit_char :: "nat \<Rightarrow> char" where
  "digit_char d = char_of (48 + d)"

fun show_nat :: "nat \<Rightarrow> string" where
  "show_nat n = (if n < 10 then [digit_char n] else show_nat (n div 10) @ [digit_char (n mod 10)])"

declare show_nat.simps [simp del]

definition digit_value :: "char \<Rightarrow> nat" where
  "digit_value c = of_char c - 48"

definition is_digit :: "char \<Rightarrow> bool" where
  "is_digit c \<longleftrightarrow> CHR ''0'' \<le> c \<and> c \<le> CHR ''9''"

definition read_nat :: "string \<Rightarrow> nat" where
  "read_nat s = foldl (\<lambda>n c. 10 * n + digit_value c) 0 s"

lemma digit_value_char [simp]: "d < 10 \<Longrightarrow> digit_value (digit_char d) = d"
  by (simp add: digit_value_def digit_char_def)

lemma is_digit_char [simp]: "d < 10 \<Longrightarrow> is_digit (digit_char d)"
  by (simp add: is_digit_def digit_char_def less_eq_char_def)

lemma read_show_nat [simp]: "read_nat (show_nat n) = n"
proof (induction n rule: show_nat.induct)
  case (1 n)
  then show ?case by (simp add: show_nat.simps [of n] read_nat_def)
qed

lemma show_nat_inject [simp]: "show_nat m = show_nat n \<longleftrightarrow> m = n"
  by (metis read_show_nat)

lemma show_nat_digits: "list_all is_digit (show_nat n)"
proof (induction n rule: show_nat.induct)
  case (1 n)
  then show ?case by (simp add: show_nat.simps [of n])
qed

lemma show_nat_nonempty [simp]: "show_nat n \<noteq> []"
  by (simp add: show_nat.simps [of n])

section \<open>Prefixes and suffixes\<close>

text \<open>\<^verbatim>\<open>strings.HasPrefix\<close>\<close>

definition has_prefix :: "string \<Rightarrow> string \<Rightarrow> bool" where
  "has_prefix s p \<longleftrightarrow> take (length p) s = p"

text \<open>\<^verbatim>\<open>strings.TrimSuffix\<close>\<close>

definition TrimSuffix :: "string \<Rightarrow> string \<Rightarrow> string" where
  "TrimSuffix suf s =
     (if length suf \<le> length s \<and> drop (length s - length suf) s = suf
      then take (length s - length suf) s else s)"

lemma TrimSuffix_append [simp]: "TrimSuffix suf (s @ suf) = s"
  by (simp add: TrimSuffix_def)

lemma TrimSuffix_cases: "TrimSuffix suf s = s \<or> s = TrimSuffix suf s @ suf"
  by (simp add: TrimSuffix_def) (metis append_take_drop_id)

text \<open>\<^verbatim>\<open>strings.Cut\<close> at a one-byte separator.\<close>

fun strings_Cut :: "char \<Rightarrow> string \<Rightarrow> string \<times> string \<times> bool" where
  "strings_Cut c [] = ([], [], False)"
| "strings_Cut c (x # xs) = (if x = c then ([], xs, True) else let (a, b, ok) = strings_Cut c xs in (x # a, b, ok))"

lemma cut_append: "c \<notin> set a \<Longrightarrow> strings_Cut c (a @ c # b) = (a, b, True)"
  by (induction a) auto

lemma cut_True: "strings_Cut c s = (a, b, True) \<Longrightarrow> s = a @ c # b \<and> c \<notin> set a"
proof (induction s arbitrary: a)
  case (Cons x s)
  show ?case
  proof (cases "x = c")
    case False
    then obtain a' where "strings_Cut c s = (a', b, True)" "a = x # a'"
      using Cons.prems by (auto split: prod.splits)
    with Cons.IH [of a'] False show ?thesis by simp
  qed (use Cons.prems in simp)
qed simp

end
