(* ===== verification/Path_Conf.thy ===== *)
theory Path_Conf
  imports Go_Strings "HOL-Library.Product_Lexorder" "HOL-Library.Multiset"
begin

text \<open>
  \<^verbatim>\<open>internal/conf/path.go\<close>: the part of a path configuration that the path and the path manager
  consult, validation of path names and the search for the configuration of a name.
\<close>

section \<open>The configuration of a path\<close>

record mmx_target =
  TargetURL :: string
  TargetToken :: string

text \<open>
  \<open>Regexp\<close> is the source text of the compiled expression. \<open>RPICamera\<close> stands for the camera
  settings a running path accepts and \<open>OtherSettings\<close> for every remaining field, as printed
  names and values: the modelled code only compares them.
\<close>

record path_conf =
  Name :: string
  Regexp :: "string option"
  Source :: string
  SourceOnDemand :: bool
  SourceRedirect :: string
  AlwaysAvailable :: bool
  OverridePublisher :: bool
  MaxReaders :: int
  Fallback :: "string option"
  RunOnDemand :: string
  Record :: bool
  RecordPath :: string
  RecordFormat :: string
  RecordPartDuration :: int
  RecordMaxPartSize :: nat
  RecordSegmentDuration :: int
  RecordDeleteAfter :: int
  ForwardTencent :: bool
  ForwardTencentStreamKey :: string
  ForwardMmx :: bool
  ForwardMmxURL :: string
  ForwardMmxToken :: string
  ForwardMmxTargets :: "mmx_target list"
  RPICamera :: "(string \<times> string) list"
  OtherSettings :: "(string \<times> string) list"

definition HasStaticSource :: "path_conf \<Rightarrow> bool" where
  "HasStaticSource c \<longleftrightarrow> Source c \<noteq> ''publisher'' \<and> Source c \<noteq> ''redirect''"

definition HasOnDemandStaticSource :: "path_conf \<Rightarrow> bool" where
  "HasOnDemandStaticSource c \<longleftrightarrow> HasStaticSource c \<and> SourceOnDemand c"

definition HasOnDemandPublisher :: "path_conf \<Rightarrow> bool" where
  "HasOnDemandPublisher c \<longleftrightarrow> RunOnDemand c \<noteq> ''''"

definition MmxTargets :: "path_conf \<Rightarrow> mmx_target list" where
  "MmxTargets c =
     (if ForwardMmxURL c \<noteq> '''' then [\<lparr>TargetURL = ForwardMmxURL c, TargetToken = ForwardMmxToken c\<rparr>]
      else []) @ ForwardMmxTargets c"

section \<open>Path names\<close>

datatype name_error = NameEmpty | NameBeginSlash | NameEndSlash | NameBadChar | NameDotSegment

text \<open>The character class of \<^verbatim>\<open>rePathName\<close>, \<^verbatim>\<open>^[0-9a-zA-Z_\-/\.]+$\<close>.\<close>

definition path_char :: "char \<Rightarrow> bool" where
  "path_char c \<longleftrightarrow>
     (let n = of_char c :: nat in 48 \<le> n \<and> n \<le> 57 \<or> 65 \<le> n \<and> n \<le> 90 \<or> 97 \<le> n \<and> n \<le> 122) \<or>
     c \<in> set ''_-/.''"

definition IsValidPathName :: "string \<Rightarrow> name_error option" where
  "IsValidPathName name =
     (if name = '''' then Some NameEmpty
      else if hd name = CHR ''/'' then Some NameBeginSlash
      else if last name = CHR ''/'' then Some NameEndSlash
      else if \<not> list_all path_char name then Some NameBadChar
      else if \<exists>segment \<in> set (split_at CHR ''/'' name). segment = ''.'' \<or> segment = ''..''
        then Some NameDotSegment
      else None)"

section \<open>Finding the configuration of a name\<close>

datatype find_error = InvalidPathName name_error | PathNotConfigured

text \<open>
  The configurations are a Go map, kept as an association list in some iteration order. The
  comparison function of \<^verbatim>\<open>sort.Slice\<close> puts \<open>all\<close> and \<open>all_others\<close> last and orders the others
  by name, which is the order of the keys \<open>conf_key\<close>.
\<close>

definition is_all :: "path_conf \<Rightarrow> bool" where
  "is_all c \<longleftrightarrow> Name c = ''all'' \<or> Name c = ''all_others''"

definition conf_less :: "path_conf \<Rightarrow> path_conf \<Rightarrow> bool" where
  "conf_less ci cj = (if is_all ci then False else if is_all cj then True else Name ci < Name cj)"

definition conf_key :: "path_conf \<Rightarrow> bool \<times> string" where
  "conf_key c = (is_all c, Name c)"

definition regexp_confs :: "(string \<times> path_conf) list \<Rightarrow> path_conf list" where
  "regexp_confs pathConfs =
     sort_key conf_key (filter (\<lambda>c. Regexp c \<noteq> None) (map snd pathConfs))"

text \<open>\<open>find_submatch\<close> is \<^verbatim>\<open>Regexp.FindStringSubmatch\<close> of the compiled expression.\<close>

fun first_match ::
  "(string \<Rightarrow> string \<Rightarrow> string list option) \<Rightarrow> string \<Rightarrow> path_conf list \<Rightarrow>
   (path_conf \<times> string list) option" where
  "first_match find_submatch name [] = None"
| "first_match find_submatch name (c # cs) =
     (case Regexp c of
        None \<Rightarrow> first_match find_submatch name cs
      | Some re \<Rightarrow>
          (case find_submatch re name of
             Some m \<Rightarrow> Some (c, m)
           | None \<Rightarrow> first_match find_submatch name cs))"

definition FindPathConf ::
  "(string \<Rightarrow> string \<Rightarrow> string list option) \<Rightarrow> (string \<times> path_conf) list \<Rightarrow> string \<Rightarrow>
   find_error + (path_conf \<times> string list)" where
  "FindPathConf find_submatch pathConfs name =
     (case map_of pathConfs name of
        Some c \<Rightarrow> Inr (c, [])
      | None \<Rightarrow>
          (case IsValidPathName name of
             Some e \<Rightarrow> Inl (InvalidPathName e)
           | None \<Rightarrow>
               (case first_match find_submatch name (regexp_confs pathConfs) of
                  Some r \<Rightarrow> Inr r
                | None \<Rightarrow> Inl PathNotConfigured)))"

text \<open>
  What loading a configuration guarantees of the map: entries are stored under their name, and
  \<open>all\<close> and \<open>all_others\<close>, being aliases, do not occur together.
\<close>

definition wf_confs :: "(string \<times> path_conf) list \<Rightarrow> bool" where
  "wf_confs pathConfs \<longleftrightarrow>
     distinct (map fst pathConfs) \<and> list_all (\<lambda>(k, c). Name c = k) pathConfs \<and>
     \<not> (''all'' \<in> fst ` set pathConfs \<and> ''all_others'' \<in> fst ` set pathConfs)"

section \<open>Properties\<close>

lemma valid_name_segments:
  assumes "IsValidPathName name = None"
  shows "name \<noteq> []" "hd name \<noteq> CHR ''/''" "last name \<noteq> CHR ''/''" "list_all path_char name"
    "''.'' \<notin> set (split_at CHR ''/'' name)" "''..'' \<notin> set (split_at CHR ''/'' name)"
  using assms by (auto simp: IsValidPathName_def split: if_splits)

lemma wf_confs_name: "wf_confs cs \<Longrightarrow> (k, c) \<in> set cs \<Longrightarrow> Name c = k"
  by (auto simp: wf_confs_def list_all_iff)

lemma wf_confs_same_name:
  assumes "wf_confs cs" "a \<in> snd ` set cs" "b \<in> snd ` set cs" "Name a = Name b"
  shows "a = b"
proof -
  from assms(2,3) obtain k l where kl: "(k, a) \<in> set cs" "(l, b) \<in> set cs" by auto
  with assms(4) have "k = l" using wf_confs_name [OF assms(1)] by metis
  with kl assms(1) show ?thesis by (auto simp: wf_confs_def intro: eq_key_imp_eq_value)
qed

lemma conf_key_inject:
  "wf_confs cs \<Longrightarrow> a \<in> snd ` set cs \<Longrightarrow> b \<in> snd ` set cs \<Longrightarrow> conf_key a = conf_key b \<Longrightarrow> a = b"
  by (rule wf_confs_same_name) (auto simp: conf_key_def)

text \<open>
  On such a map \<open>conf_less\<close> is the order of the keys, so sorting by it, stable or not, gives the
  list of the model.
\<close>

lemma conf_less_key:
  assumes "wf_confs cs" "a \<in> snd ` set cs" "b \<in> snd ` set cs"
  shows "conf_less a b \<longleftrightarrow> conf_key a < conf_key b"
proof -
  from assms(2,3) obtain k l where kl: "(k, a) \<in> set cs" "(l, b) \<in> set cs" by auto
  then have "Name a = k" "Name b = l" using wf_confs_name [OF assms(1)] by auto
  with kl have "Name a \<in> fst ` set cs" "Name b \<in> fst ` set cs" by (auto intro: rev_image_eqI)
  then have "Name a = Name b" if "is_all a" "is_all b"
    using assms(1) that unfolding wf_confs_def is_all_def by metis
  then show ?thesis by (auto simp: conf_less_def conf_key_def)
qed

lemma FindPathConf_order_irrelevant:
  assumes "wf_confs cs" "mset cs' = mset cs"
  shows "FindPathConf fs cs' name = FindPathConf fs cs name"
proof -
  have set: "set cs' = set cs" using assms(2) by (rule mset_eq_setD)
  have "distinct (map fst cs)" using assms(1) by (simp add: wf_confs_def)
  moreover have "mset (map fst cs') = mset (map fst cs)" using assms(2) by simp
  ultimately have "distinct (map fst cs')" "distinct (map fst cs)"
    using mset_eq_imp_distinct_iff by blast+
  then have map: "map_of cs' = map_of cs" by (simp add: map_of_inject_set set)
  have sorted: "regexp_confs cs' = regexp_confs cs"
  proof -
    let ?f = "\<lambda>xs. filter (\<lambda>c. Regexp c \<noteq> None) (map snd xs)"
    have "mset (?f cs') = mset (sort_key conf_key (?f cs))" using assms(2) by simp
    moreover have "inj_on conf_key (set (?f cs'))"
      by (rule inj_onI) (use conf_key_inject [OF assms(1)] set in auto)
    ultimately show ?thesis
      unfolding regexp_confs_def by (rule sort_key_inj_key_eq) simp
  qed
  show ?thesis unfolding FindPathConf_def map sorted ..
qed

text \<open>What the search returns: the entry of that name, else the first matching expression.\<close>

lemma first_match_Some:
  "first_match fs name cs = Some (c, m) \<Longrightarrow>
   \<exists>pre post re. cs = pre @ c # post \<and> Regexp c = Some re \<and> fs re name = Some m \<and>
     (\<forall>d \<in> set pre. \<forall>r. Regexp d = Some r \<longrightarrow> fs r name = None)"
proof (induction cs)
  case (Cons d cs)
  show ?case
  proof (cases "\<exists>re. Regexp d = Some re \<and> fs re name \<noteq> None")
    case True
    with Cons.prems have "d = c" "\<exists>re. Regexp c = Some re \<and> fs re name = Some m"
      by (auto split: option.splits)
    then show ?thesis by (metis append_Nil empty_iff list.set(1))
  next
    case False
    with Cons.prems have "first_match fs name cs = Some (c, m)" by (auto split: option.splits)
    from Cons.IH [OF this] False show ?thesis
      by (metis append_Cons option.exhaust set_ConsD)
  qed
qed simp

lemma first_match_None:
  "first_match fs name cs = None \<longleftrightarrow> (\<forall>c \<in> set cs. \<forall>re. Regexp c = Some re \<longrightarrow> fs re name = None)"
  by (induction cs) (auto split: option.splits)

lemma set_regexp_confs: "set (regexp_confs cs) = {c \<in> snd ` set cs. Regexp c \<noteq> None}"
  by (auto simp: regexp_confs_def)

lemma FindPathConf_member:
  assumes "wf_confs cs" "FindPathConf fs cs name = Inr (c, m)"
  shows "(Name c, c) \<in> set cs"
proof -
  have "c \<in> snd ` set cs"
  proof (cases "map_of cs name")
    case None
    with assms(2) have "first_match fs name (regexp_confs cs) = Some (c, m)"
      by (auto simp: FindPathConf_def split: option.splits)
    then have "c \<in> set (regexp_confs cs)" by (auto dest!: first_match_Some)
    then show ?thesis by (simp add: set_regexp_confs)
  next
    case (Some d)
    with assms(2) show ?thesis by (auto simp: FindPathConf_def dest!: map_of_SomeD intro: rev_image_eqI)
  qed
  then show ?thesis using wf_confs_name [OF assms(1)] by auto
qed

section \<open>Correctness\<close>

text \<open>
  A path name that is accepted is not empty, does not begin or end with a slash, uses only the
  allowed characters and has no \<open>.\<close> or \<open>..\<close> segment, so it cannot climb out of a directory.
\<close>
lemma path_name_safe:
  "IsValidPathName name = None \<longleftrightarrow>
   name \<noteq> [] \<and> hd name \<noteq> CHR ''/'' \<and> last name \<noteq> CHR ''/'' \<and> list_all path_char name \<and>
   set (split_at CHR ''/'' name) \<inter> {''.'', ''..''} = {}"
  by (auto simp: IsValidPathName_def)

text \<open>
  The configuration found for a name does not depend on the iteration order of the Go map.
\<close>
lemma find_path_conf_deterministic:
  assumes "wf_confs cs" "mset cs' = mset cs"
  shows "FindPathConf find_submatch cs' name = FindPathConf find_submatch cs name"
  by (rule FindPathConf_order_irrelevant [OF assms])

definition sample_conf :: "string \<Rightarrow> string option \<Rightarrow> path_conf" where
  "sample_conf name re =
     \<lparr>Name = name, Regexp = re, Source = ''publisher'', SourceOnDemand = False, SourceRedirect = '''',
      AlwaysAvailable = False, OverridePublisher = True, MaxReaders = 2, Fallback = None,
      RunOnDemand = '''', Record = False, RecordPath = ''rec'', RecordFormat = ''fmp4'',
      RecordPartDuration = 1, RecordMaxPartSize = 1, RecordSegmentDuration = 1,
      RecordDeleteAfter = 0, ForwardTencent = False, ForwardTencentStreamKey = '''',
      ForwardMmx = False, ForwardMmxURL = '''', ForwardMmxToken = '''', ForwardMmxTargets = [],
      RPICamera = [], OtherSettings = []\<rparr>"

definition sample_confs :: "(string \<times> path_conf) list" where
  "sample_confs = [(''cam'', sample_conf ''cam'' None), (''~^live'', sample_conf ''~^live'' (Some ''^live''))]"

definition prefix_match :: "string \<Rightarrow> string \<Rightarrow> string list option" where
  "prefix_match re name = (if prefix (tl re) name then Some [name] else None)"

lemma wf_sample_confs: "wf_confs sample_confs"
  by (simp add: wf_confs_def sample_confs_def sample_conf_def)

lemma find_path_conf_deterministic_instance:
  "wf_confs sample_confs \<and>
   FindPathConf prefix_match (rev sample_confs) ''live/a'' = FindPathConf prefix_match sample_confs ''live/a''"
  using find_path_conf_deterministic [OF wf_sample_confs, of "rev sample_confs"] wf_sample_confs
  by simp

text \<open>
  The search is correct: a name that is a key gets its entry with no groups; otherwise the result
  is an entry with an expression that matches, every entry before it in the documented order
  (\<open>all\<close> and \<open>all_others\<close> last, the others by name) not matching.
\<close>
lemma find_path_conf_first_match:
  assumes "wf_confs cs" "FindPathConf find_submatch cs name = Inr (c, groups)"
  shows "(Name c, c) \<in> set cs \<and>
    (Name c = name \<and> groups = [] \<or>
     (\<exists>re. Regexp c = Some re \<and> find_submatch re name = Some groups \<and>
        (\<forall>d \<in> snd ` set cs. \<forall>r. conf_less d c \<and> Regexp d = Some r \<longrightarrow> find_submatch r name = None)))"
proof (cases "map_of cs name")
  case None
  with assms(2) have "first_match find_submatch name (regexp_confs cs) = Some (c, groups)"
    by (auto simp: FindPathConf_def split: option.splits)
  from first_match_Some [OF this] obtain pre post re where
    m: "regexp_confs cs = pre @ c # post" "Regexp c = Some re" "find_submatch re name = Some groups"
    "\<forall>d \<in> set pre. \<forall>r. Regexp d = Some r \<longrightarrow> find_submatch r name = None" by blast
  have mem: "x \<in> snd ` set cs" if "x \<in> set (regexp_confs cs)" for x
    using that by (simp add: set_regexp_confs)
  have "find_submatch r name = None" if d: "d \<in> snd ` set cs" "conf_less d c" "Regexp d = Some r" for d r
  proof -
    have "d \<in> set (regexp_confs cs)" using d(1,3) by (simp add: set_regexp_confs)
    moreover have "d \<notin> set (c # post)"
    proof
      assume p: "d \<in> set (c # post)"
      have "sorted (map conf_key (pre @ c # post))"
        unfolding m(1) [symmetric] regexp_confs_def by simp
      then have "conf_key c \<le> conf_key d" using p by (auto simp: sorted_append)
      moreover have "conf_key d < conf_key c"
        using conf_less_key [OF assms(1) d(1), of c] mem [of c] m(1) d(2) by simp
      ultimately show False by simp
    qed
    ultimately have "d \<in> set pre" using m(1) by auto
    with m(4) d(3) show ?thesis by blast
  qed
  with m(2,3) FindPathConf_member [OF assms] show ?thesis by blast
next
  case (Some d)
  with assms(2) have "c = d" "groups = []" by (auto simp: FindPathConf_def)
  moreover have "Name d = name" using wf_confs_name [OF assms(1) map_of_SomeD [OF Some]] .
  ultimately show ?thesis using map_of_SomeD [OF Some] by auto
qed

lemma find_sample: "FindPathConf prefix_match sample_confs ''live/a'' =
    Inr (sample_conf ''~^live'' (Some ''^live''), [''live/a''])"
  by code_simp

lemma find_path_conf_first_match_instance:
  "FindPathConf prefix_match sample_confs ''live/a'' =
     Inr (sample_conf ''~^live'' (Some ''^live''), [''live/a'']) \<and>
   (''~^live'', sample_conf ''~^live'' (Some ''^live'')) \<in> set sample_confs"
  using find_path_conf_first_match [OF wf_sample_confs find_sample] find_sample
  by (simp add: sample_conf_def)

end
