(* ===== verification/Forward_Layers.thy ===== *)
theory Forward_Layers
  imports Go_Strings
begin

text \<open>
  \<^verbatim>\<open>internal/forward/layers.go\<close>: how the description of a path's stream is split into one
  forwarded stream per H264 video media, with the stream keys Tencent expects.
\<close>

section \<open>Descriptions\<close>

text \<open>
  What the code reads of \<^verbatim>\<open>description.Session\<close> (gortsplib): the type of a media and which of
  its formats are H264, or which of the codecs a layer selector names. The rest of a media is its identity.
\<close>

datatype media_type = MediaTypeVideo | MediaTypeAudio | MediaTypeApplication

datatype media_format = H264 | H265 | VP9 | VP8 | AV1 | OtherFormat nat

record media =
  media_id :: nat
  mtype :: media_type
  formats :: "media_format list"

record session_desc =
  Medias :: "media list"

record layer =
  StreamKey :: string
  Desc :: session_desc

definition layerSuffixes :: "string list" where
  "layerSuffixes = ['''', ''_standard'', ''_economic'', ''_lite'']"

definition layerSuffix :: "nat \<Rightarrow> string" where
  "layerSuffix i = (if i < length layerSuffixes then layerSuffixes ! i else ''_q'' @ show_nat i)"

text \<open>The loop over the medias: the H264 video medias in order, and the first audio media.\<close>

fun scan_medias :: "media list \<Rightarrow> media list \<Rightarrow> media option \<Rightarrow> media list \<times> media option" where
  "scan_medias [] videoMedias audioMedia = (videoMedias, audioMedia)"
| "scan_medias (m # ms) videoMedias audioMedia =
     (case mtype m of
        MediaTypeVideo \<Rightarrow>
          scan_medias ms (if H264 \<in> set (formats m) then videoMedias @ [m] else videoMedias) audioMedia
      | MediaTypeAudio \<Rightarrow>
          scan_medias ms videoMedias (if audioMedia = None then Some m else audioMedia)
      | MediaTypeApplication \<Rightarrow> scan_medias ms videoMedias audioMedia)"

definition SplitLayers :: "string \<Rightarrow> session_desc \<Rightarrow> layer list" where
  "SplitLayers streamKeyPrefix orig =
     (let (videoMedias, audioMedia) = scan_medias (Medias orig) [] None
      in map (\<lambda>(i, v).
           \<lparr>StreamKey = streamKeyPrefix @ layerSuffix i,
            Desc = \<lparr>Medias = v # (case audioMedia of None \<Rightarrow> [] | Some a \<Rightarrow> [a])\<rparr>\<rparr>)
         (zip [0..<length videoMedias] videoMedias))"

section \<open>Properties\<close>

definition is_h264_video :: "media \<Rightarrow> bool" where
  "is_h264_video m \<longleftrightarrow> mtype m = MediaTypeVideo \<and> H264 \<in> set (formats m)"

lemma scan_medias_eq:
  "scan_medias ms vs a =
   (vs @ filter is_h264_video ms,
    case a of Some x \<Rightarrow> Some x | None \<Rightarrow> find (\<lambda>m. mtype m = MediaTypeAudio) ms)"
  by (induction ms arbitrary: vs a)
    (auto simp: is_h264_video_def split: media_type.splits option.splits)

lemma SplitLayers_eq:
  "SplitLayers p d =
   map (\<lambda>(i, v). \<lparr>StreamKey = p @ layerSuffix i,
      Desc = \<lparr>Medias = v # (case find (\<lambda>m. mtype m = MediaTypeAudio) (Medias d) of
                               None \<Rightarrow> [] | Some a \<Rightarrow> [a])\<rparr>\<rparr>)
     (enumerate 0 (filter is_h264_video (Medias d)))"
  by (simp add: SplitLayers_def scan_medias_eq enumerate_eq_zip)

lemma layerSuffix_small:
  "layerSuffix 0 = ''''" "layerSuffix (Suc 0) = ''_standard''" "layerSuffix 2 = ''_economic''"
  "layerSuffix 3 = ''_lite''" "4 \<le> i \<Longrightarrow> layerSuffix i = ''_q'' @ show_nat i"
  by (simp_all add: layerSuffix_def layerSuffixes_def)

lemma layerSuffix_inject: "layerSuffix i = layerSuffix j \<longleftrightarrow> i = j"
proof -
  have cases4: "k = 0 \<or> k = 1 \<or> k = 2 \<or> k = 3 \<or> 4 \<le> k" for k :: nat by arith
  show ?thesis
    using cases4 [of i] cases4 [of j] by (auto simp: layerSuffix_small)
qed

lemma SplitLayers_keys: "map StreamKey (SplitLayers p d) =
    map (\<lambda>i. p @ layerSuffix i) [0..<length (filter is_h264_video (Medias d))]"
  by (rule nth_equalityI) (simp_all add: SplitLayers_eq enumerate_eq_zip)

lemma SplitLayers_distinct: "distinct (map StreamKey (SplitLayers p d))"
  by (simp add: SplitLayers_keys distinct_map inj_on_def layerSuffix_inject)

lemma SplitLayers_video: "map (\<lambda>l. hd (Medias (Desc l))) (SplitLayers p d) =
    filter is_h264_video (Medias d)"
  by (simp add: SplitLayers_eq enumerate_eq_zip comp_def case_prod_beta)

section \<open>Correctness\<close>

text \<open>
  Splitting a description yields one layer per H264 video media, in their order, with pairwise
  different stream keys, and every layer carries that video and the first audio media.
\<close>
lemma split_layers_correct:
  "map (\<lambda>l. hd (Medias (Desc l))) (SplitLayers p d) = filter is_h264_video (Medias d) \<and>
   distinct (map StreamKey (SplitLayers p d)) \<and>
   map (\<lambda>l. tl (Medias (Desc l))) (SplitLayers p d) =
     map (\<lambda>_. case find (\<lambda>m. mtype m = MediaTypeAudio) (Medias d) of None \<Rightarrow> [] | Some a \<Rightarrow> [a])
       (filter is_h264_video (Medias d))"
  by (intro conjI SplitLayers_video SplitLayers_distinct nth_equalityI)
    (simp_all add: SplitLayers_eq enumerate_eq_zip)

end
