(* ===== verification/Core_Path.thy ===== *)
theory Core_Path
  imports Path_Conf Forward_Layers
begin

text \<open>
  \<^verbatim>\<open>internal/core/path.go\<close>: a path, the meeting point of one source and many readers, with the
  two on-demand machines (static source and publisher). The goroutine \<open>run\<close> owns the state and
  handles one event at a time, so a handler is a function from the state to the new state and the
  list of its outward effects; \<open>None\<close> is a panic (an explicit one, a failed type assertion or a
  call of a nil function). The state of a timer is whether it is armed: handlers replace a
  stopped timer by an empty one, so no stale tick is ever received. What the media layer answers
  (\<^verbatim>\<open>stream.Initialize\<close>, \<^verbatim>\<open>SubStream.Initialize\<close>, \<^verbatim>\<open>StartOfflineSubStream\<close>) and the clock are
  part of the event.
\<close>

section \<open>State\<close>

datatype ondemand_state = StInitial | StWaitingReady | StReady | StClosing

text \<open>
  \<open>defs.Source\<close>: the redirect source, the static source handler with its \<^verbatim>\<open>running\<close> flag, or a
  publisher.
\<close>

datatype path_source = RedirectSource | HandlerSource bool | PublisherSource nat

text \<open>
  \<^verbatim>\<open>stream.Stream\<close>, as far as a path uses it. A stream whose \<open>Initialize\<close> has failed is left with an
  output description that lacks medias: \<open>OutDescCopy\<close> then dereferences a nil media.
\<close>

record stream =
  stream_id :: nat
  OrigDesc :: session_desc
  initialized :: bool

record reader_req =
  rr_id :: nat
  rr_author :: nat
  rr_query :: string

record describe_req =
  dr_id :: nat
  dr_query :: string

record publisher_req =
  pr_id :: nat
  pr_author :: nat
  pr_query :: string
  pr_desc :: session_desc
  pr_now :: int
  pr_streamErr :: "string option"
  pr_subErr :: "string option"
  pr_offlineErr :: bool

record set_ready_req =
  sr_desc :: session_desc
  sr_now :: int
  sr_streamErr :: "string option"
  sr_subErr :: "string option"

record path_state =
  pconf :: path_conf
  pname :: string
  tencentEnable :: bool
  forwardMmxEnable :: bool
  pendingRequests :: int
  source :: "path_source option"
  stream :: "stream option"
  recorder :: "nat option"
  tencentForwarders :: "string list"
  mmxForwarders :: "mmx_target list"
  availableTime :: int
  onlineTime :: int
  onUnDemandHook :: bool
  onNotReadyHook :: bool
  readers :: "nat list"
  describeRequestsOnHold :: "describe_req list"
  readerAddRequestsOnHold :: "reader_req list"
  staticState :: ondemand_state
  staticReadyTimer :: bool
  staticCloseTimer :: bool
  pubState :: ondemand_state
  pubReadyTimer :: bool
  pubCloseTimer :: bool
  nextStream :: nat

section \<open>Effects\<close>

datatype path_err =
    ErrTimedOut | ErrTerminated | ErrNoStream | ErrNotPublisher | ErrAlreadyPublishing
  | ErrMaxReaders | ErrMedia string

datatype describe_res = DescribeStream nat | DescribeRedirect string | DescribeErr path_err

text \<open>What the API tells about a path, less the counters and tracks of the media layer.\<close>

record api_path =
  ap_Name :: string
  ap_ConfName :: string
  ap_AvailableTime :: "int option"
  ap_OnlineTime :: "int option"
  ap_Source :: "path_source option"
  ap_Readers :: "nat list"

datatype path_eff =
    ResDescribe nat describe_res
  | ResAddReader nat "path_err + nat"
  | ResAddPublisher nat "path_err + nat"
  | ResSetReady "path_err + nat"
  | ResDone
  | ParentSetReady | ParentSetNotReady | ParentCloseIfIdle | ParentRemove
  | CloseReader nat | ClosePublisher nat | RequestKeyFrame nat
  | HandlerStart bool string | HandlerStop string | HandlerReload
  | HookOnDemand string | HookUnDemand string | HookReady string | HookNotReady
  | HookInit | HookUnInit
  | RecorderStart | RecorderClose
  | TencentStart string | TencentClose string
  | MmxStart mmx_target | MmxClose mmx_target
  | StreamClose nat | OfflineStart
  | ResAPIPathsGet api_path

text \<open>
  Handlers are sequences of actions. A panic ends the whole process, also in the goroutine of an HTTP
  request (\<^verbatim>\<open>internal/protocols/httpp/handler_exit_on_panic.go\<close>).
\<close>

type_synonym act = "path_state \<Rightarrow> (path_state \<times> path_eff list) option"

definition skip :: act where
  "skip s = Some (s, [])"

definition panic :: act where
  "panic s = None"

definition upd :: "(path_state \<Rightarrow> path_state) \<Rightarrow> act" where
  "upd f s = Some (f s, [])"

definition emit :: "path_eff \<Rightarrow> act" where
  "emit e s = Some (s, [e])"

definition whenever :: "(path_state \<Rightarrow> bool) \<Rightarrow> act \<Rightarrow> act" where
  "whenever c a s = (if c s then a s else skip s)"

definition andthen :: "act \<Rightarrow> act \<Rightarrow> act" where
  "andthen a b s =
     (case a s of
        None \<Rightarrow> None
      | Some (s1, e1) \<Rightarrow> (case b s1 of None \<Rightarrow> None | Some (s2, e2) \<Rightarrow> Some (s2, e1 @ e2)))"

fun seqs :: "act list \<Rightarrow> act" where
  "seqs [] = skip"
| "seqs (a # as) = andthen a (seqs as)"

declare seqs.simps [simp del]

text \<open>\<open>for _, x := range xs { f(x) }\<close>\<close>

definition for_each :: "'a list \<Rightarrow> ('a \<Rightarrow> act) \<Rightarrow> act" where
  "for_each xs f = seqs (map f xs)"

section \<open>Recording and forwarding\<close>

text \<open>
  \<open>Recorder.Initialize\<close> starts a recorder instance: both formats read the description of the stream,
  the fMP4 one (the default) its output description.
\<close>

definition recorderInitialize :: act where
  "recorderInitialize s =
     (case stream s of
        None \<Rightarrow> panic s
      | Some st \<Rightarrow>
          if RecordFormat (pconf s) = ''mpegts'' \<or> initialized st then emit RecorderStart s
          else panic s)"

definition startRecording :: act where
  "startRecording =
     seqs [upd (\<lambda>s. s\<lparr>recorder := map_option stream_id (stream s)\<rparr>), recorderInitialize]"

definition closeRecorder :: act where
  "closeRecorder =
     whenever (\<lambda>s. recorder s \<noteq> None)
       (seqs [emit RecorderClose, upd (\<lambda>s. s\<lparr>recorder := None\<rparr>)])"

text \<open>The stream key prefix: the configured one, else the last segment of the path name.\<close>

definition tencent_prefix :: "path_state \<Rightarrow> string" where
  "tencent_prefix s =
     (if ForwardTencentStreamKey (pconf s) = '''' then last (split_at CHR ''/'' (pname s))
      else ForwardTencentStreamKey (pconf s))"

definition startTencentForwarding :: act where
  "startTencentForwarding s =
     (case stream s of
        None \<Rightarrow> None
      | Some st \<Rightarrow>
          (let layers = SplitLayers (tencent_prefix s) (OrigDesc st);
               layers = (if layers = [] then [\<lparr>StreamKey = tencent_prefix s, Desc = OrigDesc st\<rparr>]
                         else layers)
           in Some (s\<lparr>tencentForwarders := map StreamKey layers\<rparr>,
                    map (\<lambda>l. TencentStart (StreamKey l)) layers)))"

definition stopTencentForwarding :: act where
  "stopTencentForwarding s =
     Some (s\<lparr>tencentForwarders := []\<rparr>, map TencentClose (tencentForwarders s))"

definition startMmxForwarding :: act where
  "startMmxForwarding s =
     (let targets = MmxTargets (pconf s) in
      if targets \<noteq> [] \<and> stream s = None then None
      else Some (s\<lparr>mmxForwarders := targets\<rparr>, map MmxStart targets))"

definition stopMmxForwarding :: act where
  "stopMmxForwarding s = Some (s\<lparr>mmxForwarders := []\<rparr>, map MmxClose (mmxForwarders s))"

datatype recording_err = AlreadyRecording | NotRecording

text \<open>
  Called by goroutines of the API. \<open>StartOnDemandRecording\<close> returns the record path,
  \<open>StopOnDemandRecording\<close> nothing of interest. The options are written into the configuration of the
  path, in the code through a pointer that the path manager and other paths share.
\<close>

definition StartOnDemandRecording ::
  "int \<Rightarrow> nat \<Rightarrow> path_state \<Rightarrow> recording_err + (path_state \<times> path_eff list) option" where
  "StartOnDemandRecording segmentDuration maxPartSize s =
     (if recorder s \<noteq> None then Inl AlreadyRecording
      else Inr (seqs
        [whenever (\<lambda>_. 0 < segmentDuration)
           (upd (\<lambda>s. s\<lparr>pconf := (pconf s)\<lparr>RecordSegmentDuration := segmentDuration\<rparr>\<rparr>)),
         whenever (\<lambda>_. 0 < maxPartSize)
           (upd (\<lambda>s. s\<lparr>pconf := (pconf s)\<lparr>RecordMaxPartSize := maxPartSize\<rparr>\<rparr>)),
         startRecording] s))"

definition StopOnDemandRecording ::
  "path_state \<Rightarrow> recording_err + (path_state \<times> path_eff list) option" where
  "StopOnDemandRecording s =
     (if recorder s = None then Inl NotRecording else Inr (closeRecorder s))"

section \<open>Availability\<close>

definition isAvailable :: "path_state \<Rightarrow> bool" where
  "isAvailable s \<longleftrightarrow> stream s \<noteq> None"

definition isOnline :: "path_state \<Rightarrow> bool" where
  "isOnline s \<longleftrightarrow> source s \<noteq> None"

text \<open>
  \<open>setAvailable\<close> with the result \<open>err\<close> of \<^verbatim>\<open>stream.Initialize\<close>: the stream is assigned before it
  is initialized, and stays assigned when that fails.
\<close>

definition setAvailable :: "string \<Rightarrow> session_desc \<Rightarrow> int \<Rightarrow> string option \<Rightarrow> act" where
  "setAvailable query desc now err =
     seqs
       [upd (\<lambda>s. s\<lparr>stream := Some \<lparr>stream_id = nextStream s, OrigDesc = desc, initialized = (err = None)\<rparr>,
                   nextStream := Suc (nextStream s)\<rparr>),
        (if err \<noteq> None then skip
         else seqs
           [upd (\<lambda>s. s\<lparr>availableTime := now\<rparr>),
            whenever (\<lambda>s. \<not> AlwaysAvailable (pconf s)) (upd (\<lambda>s. s\<lparr>onlineTime := now\<rparr>)),
            whenever (\<lambda>s. Record (pconf s)) startRecording,
            whenever (\<lambda>s. ForwardTencent (pconf s) \<and> tencentEnable s) startTencentForwarding,
            whenever (\<lambda>s. ForwardMmx (pconf s) \<and> forwardMmxEnable s) startMmxForwarding,
            upd (\<lambda>s. s\<lparr>onNotReadyHook := True\<rparr>),
            emit (HookReady query),
            emit ParentSetReady])]"

definition executeRemoveReader :: "nat \<Rightarrow> act" where
  "executeRemoveReader r = upd (\<lambda>s. s\<lparr>readers := removeAll r (readers s)\<rparr>)"

definition closeAllReaders :: act where
  "closeAllReaders s =
     for_each (readers s) (\<lambda>r. seqs [executeRemoveReader r, emit (CloseReader r)]) s"

definition setNotAvailable :: act where
  "setNotAvailable =
     seqs
       [emit ParentSetNotReady,
        closeAllReaders,
        (\<lambda>s. if onNotReadyHook s then emit HookNotReady s else panic s),
        closeRecorder,
        stopTencentForwarding,
        stopMmxForwarding,
        (\<lambda>s. case stream s of
               None \<Rightarrow> skip s
             | Some st \<Rightarrow> seqs [emit (StreamClose (stream_id st)), upd (\<lambda>s. s\<lparr>stream := None\<rparr>)] s)]"

text \<open>\<open>pa.stream.StartOfflineSubStream()\<close>, whose error is a panic.\<close>

definition startOffline :: "bool \<Rightarrow> act" where
  "startOffline offlineErr s =
     (if stream s = None \<or> offlineErr then panic s else emit OfflineStart s)"

definition executeRemovePublisher :: "bool \<Rightarrow> act" where
  "executeRemovePublisher offlineErr =
     seqs
       [(\<lambda>s. if \<not> AlwaysAvailable (pconf s) then setNotAvailable s else startOffline offlineErr s),
        upd (\<lambda>s. s\<lparr>source := None\<rparr>)]"

section \<open>The on-demand machines\<close>

text \<open>\<open>pa.source.(*staticsources.Handler)\<close> and its \<open>Start\<close> and \<open>Stop\<close>.\<close>

definition handlerStart :: "bool \<Rightarrow> string \<Rightarrow> act" where
  "handlerStart onDemand query s =
     (case source s of
        Some (HandlerSource running) \<Rightarrow>
          if running then panic s
          else seqs [upd (\<lambda>s. s\<lparr>source := Some (HandlerSource True)\<rparr>),
                     emit (HandlerStart onDemand query)] s
      | _ \<Rightarrow> panic s)"

definition handlerStop :: "string \<Rightarrow> act" where
  "handlerStop reason s =
     (case source s of
        Some (HandlerSource running) \<Rightarrow>
          if \<not> running then panic s
          else seqs [upd (\<lambda>s. s\<lparr>source := Some (HandlerSource False)\<rparr>), emit (HandlerStop reason)] s
      | _ \<Rightarrow> panic s)"

definition onDemandStaticSourceStart :: "string \<Rightarrow> act" where
  "onDemandStaticSourceStart query =
     seqs [handlerStart True query,
           upd (\<lambda>s. s\<lparr>staticReadyTimer := True, staticState := StWaitingReady\<rparr>)]"

definition onDemandStaticSourceScheduleClose :: act where
  "onDemandStaticSourceScheduleClose =
     upd (\<lambda>s. s\<lparr>staticCloseTimer := True, staticState := StClosing\<rparr>)"

definition onDemandStaticSourceStop :: "string \<Rightarrow> act" where
  "onDemandStaticSourceStop reason =
     seqs [whenever (\<lambda>s. staticState s = StClosing) (upd (\<lambda>s. s\<lparr>staticCloseTimer := False\<rparr>)),
           upd (\<lambda>s. s\<lparr>staticState := StInitial\<rparr>),
           handlerStop reason]"

definition onDemandPublisherStart :: "string \<Rightarrow> act" where
  "onDemandPublisherStart query =
     seqs [upd (\<lambda>s. s\<lparr>onUnDemandHook := True\<rparr>),
           emit (HookOnDemand query),
           upd (\<lambda>s. s\<lparr>pubReadyTimer := True, pubState := StWaitingReady\<rparr>)]"

definition onDemandPublisherScheduleClose :: act where
  "onDemandPublisherScheduleClose =
     upd (\<lambda>s. s\<lparr>pubCloseTimer := True, pubState := StClosing\<rparr>)"

definition callUnDemandHook :: "string \<Rightarrow> act" where
  "callUnDemandHook reason s =
     (if onUnDemandHook s then emit (HookUnDemand reason) s else panic s)"

definition onDemandPublisherStop :: "string \<Rightarrow> act" where
  "onDemandPublisherStop reason =
     seqs [whenever (\<lambda>s. pubState s = StClosing) (upd (\<lambda>s. s\<lparr>pubCloseTimer := False\<rparr>)),
           callUnDemandHook reason,
           upd (\<lambda>s. s\<lparr>onUnDemandHook := False, pubState := StInitial\<rparr>)]"


section \<open>Requests\<close>

definition stream_ref :: "path_state \<Rightarrow> nat" where
  "stream_ref s = (case stream s of Some st \<Rightarrow> stream_id st | None \<Rightarrow> 0)"

definition requestKeyFrame :: act where
  "requestKeyFrame s =
     (case source s of Some (PublisherSource p) \<Rightarrow> emit (RequestKeyFrame p) s | _ \<Rightarrow> skip s)"

definition addReaderPost :: "reader_req \<Rightarrow> act" where
  "addReaderPost req s =
     (if rr_author req \<in> set (readers s) then emit (ResAddReader (rr_id req) (Inr (stream_ref s))) s
      else if MaxReaders (pconf s) \<noteq> 0 \<and> MaxReaders (pconf s) \<le> int (length (readers s)) then
        emit (ResAddReader (rr_id req) (Inl ErrMaxReaders)) s
      else
        seqs
          [upd (\<lambda>s. s\<lparr>readers := readers s @ [rr_author req]\<rparr>),
           (\<lambda>s. if HasOnDemandStaticSource (pconf s) then
                  whenever (\<lambda>s. staticState s = StClosing)
                    (upd (\<lambda>s. s\<lparr>staticState := StReady, staticCloseTimer := False\<rparr>)) s
                else if HasOnDemandPublisher (pconf s) then
                  whenever (\<lambda>s. pubState s = StClosing)
                    (upd (\<lambda>s. s\<lparr>pubState := StReady, pubCloseTimer := False\<rparr>)) s
                else skip s),
           requestKeyFrame,
           (\<lambda>s. emit (ResAddReader (rr_id req) (Inr (stream_ref s))) s)] s)"

definition consumeOnHoldRequests :: act where
  "consumeOnHoldRequests =
     seqs
       [(\<lambda>s. for_each (describeRequestsOnHold s)
              (\<lambda>req. emit (ResDescribe (dr_id req) (DescribeStream (stream_ref s)))) s),
        upd (\<lambda>s. s\<lparr>describeRequestsOnHold := []\<rparr>),
        (\<lambda>s. for_each (readerAddRequestsOnHold s) addReaderPost s),
        upd (\<lambda>s. s\<lparr>readerAddRequestsOnHold := []\<rparr>)]"

text \<open>Answers every request on hold with the same error.\<close>

definition failOnHoldRequests :: "path_err \<Rightarrow> act" where
  "failOnHoldRequests e =
     seqs
       [(\<lambda>s. for_each (describeRequestsOnHold s)
              (\<lambda>req. emit (ResDescribe (dr_id req) (DescribeErr e))) s),
        upd (\<lambda>s. s\<lparr>describeRequestsOnHold := []\<rparr>),
        (\<lambda>s. for_each (readerAddRequestsOnHold s)
              (\<lambda>req. emit (ResAddReader (rr_id req) (Inl e))) s),
        upd (\<lambda>s. s\<lparr>readerAddRequestsOnHold := []\<rparr>)]"

section \<open>The handlers of the event loop\<close>

definition doOnDemandStaticSourceReadyTimer :: act where
  "doOnDemandStaticSourceReadyTimer =
     seqs [failOnHoldRequests ErrTimedOut, onDemandStaticSourceStop ''timed out'']"

definition doOnDemandStaticSourceCloseTimer :: act where
  "doOnDemandStaticSourceCloseTimer s =
     (if AlwaysAvailable (pconf s) then panic s
      else seqs [setNotAvailable, onDemandStaticSourceStop ''not needed by anyone''] s)"

definition doOnDemandPublisherReadyTimer :: act where
  "doOnDemandPublisherReadyTimer =
     seqs [failOnHoldRequests ErrTimedOut, onDemandPublisherStop ''timed out'']"

definition doOnDemandPublisherCloseTimer :: act where
  "doOnDemandPublisherCloseTimer = onDemandPublisherStop ''not needed by anyone''"

text \<open>\<open>pathConfCanBeUpdated\<close>: the two configurations differ in hot-reloadable fields only.\<close>

definition pathConfCanBeUpdated :: "path_conf \<Rightarrow> path_conf \<Rightarrow> bool" where
  "pathConfCanBeUpdated oldPathConf newPathConf \<longleftrightarrow>
     newPathConf = oldPathConf
       \<lparr>Name := Name newPathConf, Regexp := Regexp newPathConf,
        Record := Record newPathConf, RecordPath := RecordPath newPathConf,
        RecordFormat := RecordFormat newPathConf,
        RecordPartDuration := RecordPartDuration newPathConf,
        RecordMaxPartSize := RecordMaxPartSize newPathConf,
        RecordSegmentDuration := RecordSegmentDuration newPathConf,
        RecordDeleteAfter := RecordDeleteAfter newPathConf,
        ForwardTencent := ForwardTencent newPathConf,
        ForwardTencentStreamKey := ForwardTencentStreamKey newPathConf,
        ForwardMmx := ForwardMmx newPathConf, ForwardMmxURL := ForwardMmxURL newPathConf,
        ForwardMmxToken := ForwardMmxToken newPathConf,
        ForwardMmxTargets := ForwardMmxTargets newPathConf,
        RPICamera := RPICamera newPathConf\<rparr>"

definition record_conf_changed :: "path_conf \<Rightarrow> path_conf \<Rightarrow> bool" where
  "record_conf_changed newConf oldConf \<longleftrightarrow>
     Record newConf \<noteq> Record oldConf \<or> RecordPath newConf \<noteq> RecordPath oldConf \<or>
     RecordFormat newConf \<noteq> RecordFormat oldConf \<or>
     RecordPartDuration newConf \<noteq> RecordPartDuration oldConf \<or>
     RecordMaxPartSize newConf \<noteq> RecordMaxPartSize oldConf \<or>
     RecordSegmentDuration newConf \<noteq> RecordSegmentDuration oldConf \<or>
     RecordDeleteAfter newConf \<noteq> RecordDeleteAfter oldConf"

definition handlerReload :: act where
  "handlerReload s =
     (case source s of
        Some (HandlerSource running) \<Rightarrow> (if running then emit HandlerReload s else skip s)
      | _ \<Rightarrow> panic s)"

definition doReloadConf :: "path_conf \<Rightarrow> act" where
  "doReloadConf newConf s =
     (let oldConf = pconf s in
      seqs
        [upd (\<lambda>s. s\<lparr>pconf := newConf\<rparr>),
         whenever (\<lambda>s. HasStaticSource (pconf s)) handlerReload,
         whenever (\<lambda>_. record_conf_changed newConf oldConf) closeRecorder,
         whenever (\<lambda>s. Record newConf \<and> stream s \<noteq> None \<and> recorder s = None) startRecording,
         whenever (\<lambda>s. tencentForwarders s \<noteq> [] \<and>
                   (ForwardTencent newConf \<noteq> ForwardTencent oldConf \<or>
                    ForwardTencentStreamKey newConf \<noteq> ForwardTencentStreamKey oldConf))
           stopTencentForwarding,
         whenever (\<lambda>s. ForwardTencent newConf \<and> tencentEnable s \<and> stream s \<noteq> None \<and>
                   tencentForwarders s = []) startTencentForwarding,
         whenever (\<lambda>s. mmxForwarders s \<noteq> [] \<and>
                   (ForwardMmx newConf \<noteq> ForwardMmx oldConf \<or> MmxTargets newConf \<noteq> MmxTargets oldConf))
           stopMmxForwarding,
         whenever (\<lambda>s. ForwardMmx newConf \<and> forwardMmxEnable s \<and> stream s \<noteq> None \<and>
                   mmxForwarders s = []) startMmxForwarding] s)"

definition doSourceStaticSetReady :: "set_ready_req \<Rightarrow> act" where
  "doSourceStaticSetReady req s =
     (let always = AlwaysAvailable (pconf s);
          makeAvailable = (if always then skip
                           else setAvailable '''' (sr_desc req) (sr_now req) (sr_streamErr req))
      in case (if always then None else sr_streamErr req) of
           Some e \<Rightarrow> seqs [makeAvailable, emit (ResSetReady (Inl (ErrMedia e)))] s
         | None \<Rightarrow>
             (case sr_subErr req of
                Some e \<Rightarrow> seqs [makeAvailable, emit (ResSetReady (Inl (ErrMedia e)))] s
              | None \<Rightarrow>
                  seqs
                    [makeAvailable,
                     whenever (\<lambda>s. AlwaysAvailable (pconf s)) (upd (\<lambda>s. s\<lparr>onlineTime := sr_now req\<rparr>)),
                     whenever (\<lambda>s. HasOnDemandStaticSource (pconf s))
                       (seqs [upd (\<lambda>s. s\<lparr>staticReadyTimer := False\<rparr>),
                              onDemandStaticSourceScheduleClose]),
                     consumeOnHoldRequests,
                     (\<lambda>s. emit (ResSetReady (Inr (stream_ref s))) s)] s))"

definition doSourceStaticSetNotReady :: "bool \<Rightarrow> act" where
  "doSourceStaticSetNotReady offlineErr =
     seqs
       [(\<lambda>s. if \<not> AlwaysAvailable (pconf s) then setNotAvailable s else startOffline offlineErr s),
        emit ResDone,
        whenever (\<lambda>s. HasOnDemandStaticSource (pconf s) \<and> staticState s \<noteq> StInitial)
          (onDemandStaticSourceStop ''an error occurred'')]"

definition doDescribe :: "describe_req \<Rightarrow> act" where
  "doDescribe req s =
     (if source s = Some RedirectSource then
        emit (ResDescribe (dr_id req) (DescribeRedirect (SourceRedirect (pconf s)))) s
      else if stream s \<noteq> None then
        emit (ResDescribe (dr_id req) (DescribeStream (stream_ref s))) s
      else if HasOnDemandStaticSource (pconf s) then
        seqs [whenever (\<lambda>s. staticState s = StInitial) (onDemandStaticSourceStart (dr_query req)),
              upd (\<lambda>s. s\<lparr>describeRequestsOnHold := describeRequestsOnHold s @ [req]\<rparr>)] s
      else if HasOnDemandPublisher (pconf s) then
        seqs [whenever (\<lambda>s. pubState s = StInitial) (onDemandPublisherStart (dr_query req)),
              upd (\<lambda>s. s\<lparr>describeRequestsOnHold := describeRequestsOnHold s @ [req]\<rparr>)] s
      else case Fallback (pconf s) of
             Some fb \<Rightarrow> emit (ResDescribe (dr_id req) (DescribeRedirect fb)) s
           | None \<Rightarrow> emit (ResDescribe (dr_id req) (DescribeErr ErrNoStream)) s)"

definition doRemovePublisher :: "nat \<Rightarrow> bool \<Rightarrow> act" where
  "doRemovePublisher author offlineErr =
     seqs [whenever (\<lambda>s. source s = Some (PublisherSource author)) (executeRemovePublisher offlineErr),
           emit ResDone]"

text \<open>The publisher that is in the way is closed and removed.\<close>

definition closeExistingPublisher :: "bool \<Rightarrow> act" where
  "closeExistingPublisher offlineErr s =
     (case source s of
        None \<Rightarrow> skip s
      | Some (PublisherSource p) \<Rightarrow>
          seqs [emit (ClosePublisher p), executeRemovePublisher offlineErr] s
      | Some _ \<Rightarrow> panic s)"

definition doAddPublisher :: "publisher_req \<Rightarrow> act" where
  "doAddPublisher req s =
     (if Source (pconf s) \<noteq> ''publisher'' then
        emit (ResAddPublisher (pr_id req) (Inl ErrNotPublisher)) s
      else if source s \<noteq> None \<and> \<not> OverridePublisher (pconf s) then
        emit (ResAddPublisher (pr_id req) (Inl ErrAlreadyPublishing)) s
      else
        let always = AlwaysAvailable (pconf s);
            makeAvailable =
              (if always then skip
               else setAvailable (pr_query req) (pr_desc req) (pr_now req) (pr_streamErr req))
        in case (if always then None else pr_streamErr req) of
             Some e \<Rightarrow>
               seqs [closeExistingPublisher (pr_offlineErr req), makeAvailable,
                     emit (ResAddPublisher (pr_id req) (Inl (ErrMedia e)))] s
           | None \<Rightarrow>
               (case pr_subErr req of
                  Some e \<Rightarrow>
                    seqs [closeExistingPublisher (pr_offlineErr req), makeAvailable,
                          emit (ResAddPublisher (pr_id req) (Inl (ErrMedia e)))] s
                | None \<Rightarrow>
                    seqs
                      [closeExistingPublisher (pr_offlineErr req),
                       makeAvailable,
                       upd (\<lambda>s. s\<lparr>source := Some (PublisherSource (pr_author req))\<rparr>),
                       whenever (\<lambda>s. AlwaysAvailable (pconf s))
                         (upd (\<lambda>s. s\<lparr>onlineTime := pr_now req\<rparr>)),
                       whenever (\<lambda>s. HasOnDemandPublisher (pconf s) \<and> pubState s \<noteq> StInitial)
                         (seqs [upd (\<lambda>s. s\<lparr>pubReadyTimer := False\<rparr>),
                                onDemandPublisherScheduleClose]),
                       consumeOnHoldRequests,
                       (\<lambda>s. emit (ResAddPublisher (pr_id req) (Inr (stream_ref s))) s)] s))"

definition doAddReader :: "reader_req \<Rightarrow> act" where
  "doAddReader req s =
     (if stream s \<noteq> None then addReaderPost req s
      else if HasOnDemandStaticSource (pconf s) then
        seqs [whenever (\<lambda>s. staticState s = StInitial) (onDemandStaticSourceStart (rr_query req)),
              upd (\<lambda>s. s\<lparr>readerAddRequestsOnHold := readerAddRequestsOnHold s @ [req]\<rparr>)] s
      else if HasOnDemandPublisher (pconf s) then
        seqs [whenever (\<lambda>s. pubState s = StInitial) (onDemandPublisherStart (rr_query req)),
              upd (\<lambda>s. s\<lparr>readerAddRequestsOnHold := readerAddRequestsOnHold s @ [req]\<rparr>)] s
      else emit (ResAddReader (rr_id req) (Inl ErrNoStream)) s)"

definition doRemoveReader :: "nat \<Rightarrow> act" where
  "doRemoveReader author =
     seqs
       [whenever (\<lambda>s. author \<in> set (readers s)) (executeRemoveReader author),
        emit ResDone,
        whenever (\<lambda>s. readers s = [])
          (\<lambda>s. if HasOnDemandStaticSource (pconf s) then
                 whenever (\<lambda>s. staticState s = StReady) onDemandStaticSourceScheduleClose s
               else if HasOnDemandPublisher (pconf s) then
                 whenever (\<lambda>s. pubState s = StReady) onDemandPublisherScheduleClose s
               else skip s)]"

text \<open>The readers are listed in the order of their ids; hidden ones are not told apart.\<close>

definition doAPIPathsGet :: act where
  "doAPIPathsGet s =
     (if \<exists>st \<in> set_option (stream s). \<not> initialized st then panic s
      else emit (ResAPIPathsGet
        \<lparr>ap_Name = pname s, ap_ConfName = Name (pconf s),
         ap_AvailableTime = (if isAvailable s then Some (availableTime s) else None),
         ap_OnlineTime = (if isOnline s then Some (onlineTime s) else None),
         ap_Source = source s, ap_Readers = sort (readers s)\<rparr>) s)"

section \<open>The event loop\<close>

definition shouldClose :: "path_state \<Rightarrow> bool" where
  "shouldClose s \<longleftrightarrow>
     Regexp (pconf s) \<noteq> None \<and> source s = None \<and> readers s = [] \<and>
     describeRequestsOnHold s = [] \<and> readerAddRequestsOnHold s = []"

datatype path_event =
    EvStaticReadyTimer | EvStaticCloseTimer | EvPubReadyTimer | EvPubCloseTimer
  | EvReloadConf path_conf
  | EvSetReady set_ready_req
  | EvSetNotReady bool
  | EvDescribe describe_req
  | EvAddPublisher publisher_req
  | EvRemovePublisher nat bool
  | EvAddReader reader_req
  | EvRemoveReader nat
  | EvAPIPathsGet

abbreviation closeIfIdle :: act where
  "closeIfIdle \<equiv> whenever shouldClose (emit ParentCloseIfIdle)"

abbreviation requestDone :: act where
  "requestDone \<equiv> upd (\<lambda>s. s\<lparr>pendingRequests := pendingRequests s - 1\<rparr>)"

text \<open>One round of \<open>runInner\<close>. Receiving from the channel of a timer consumes its tick.\<close>

fun runInner_step :: "path_event \<Rightarrow> act" where
  "runInner_step EvStaticReadyTimer =
     seqs [upd (\<lambda>s. s\<lparr>staticReadyTimer := False\<rparr>), doOnDemandStaticSourceReadyTimer, closeIfIdle]"
| "runInner_step EvStaticCloseTimer =
     seqs [upd (\<lambda>s. s\<lparr>staticCloseTimer := False\<rparr>), doOnDemandStaticSourceCloseTimer, closeIfIdle]"
| "runInner_step EvPubReadyTimer =
     seqs [upd (\<lambda>s. s\<lparr>pubReadyTimer := False\<rparr>), doOnDemandPublisherReadyTimer, closeIfIdle]"
| "runInner_step EvPubCloseTimer =
     seqs [upd (\<lambda>s. s\<lparr>pubCloseTimer := False\<rparr>), doOnDemandPublisherCloseTimer]"
| "runInner_step (EvReloadConf newConf) = doReloadConf newConf"
| "runInner_step (EvSetReady req) = doSourceStaticSetReady req"
| "runInner_step (EvSetNotReady offlineErr) =
     seqs [doSourceStaticSetNotReady offlineErr, closeIfIdle]"
| "runInner_step (EvDescribe req) = seqs [doDescribe req, requestDone, closeIfIdle]"
| "runInner_step (EvAddPublisher req) = seqs [doAddPublisher req, requestDone, closeIfIdle]"
| "runInner_step (EvRemovePublisher author offlineErr) =
     seqs [doRemovePublisher author offlineErr, closeIfIdle]"
| "runInner_step (EvAddReader req) = seqs [doAddReader req, requestDone, closeIfIdle]"
| "runInner_step (EvRemoveReader author) = doRemoveReader author"
| "runInner_step EvAPIPathsGet = doAPIPathsGet"

section \<open>Creation and destruction\<close>

definition new_path :: "path_conf \<Rightarrow> string \<Rightarrow> bool \<Rightarrow> bool \<Rightarrow> path_state" where
  "new_path c name tencent mmx =
     \<lparr>pconf = c, pname = name, tencentEnable = tencent, forwardMmxEnable = mmx,
      pendingRequests = 0, source = None, stream = None, recorder = None,
      tencentForwarders = [], mmxForwarders = [], availableTime = 0, onlineTime = 0,
      onUnDemandHook = False, onNotReadyHook = False, readers = [],
      describeRequestsOnHold = [], readerAddRequestsOnHold = [],
      staticState = StInitial, staticReadyTimer = False, staticCloseTimer = False,
      pubState = StInitial, pubReadyTimer = False, pubCloseTimer = False, nextStream = 0\<rparr>"

text \<open>The forms of \<^verbatim>\<open>source\<close> that \<open>Handler.Initialize\<close> accepts; any other is a panic.\<close>

definition static_source_prefixes :: "string list" where
  "static_source_prefixes =
     [''rtsp://'', ''rtsps://'', ''rtsp+http://'', ''rtsps+http://'', ''rtsp+ws://'',
      ''rtsps+ws://'', ''rtmp://'', ''rtmps://'', ''http://'', ''https://'', ''udp://'',
      ''udp+mpegts://'', ''unix+mpegts://'', ''srt://'', ''whep://'', ''wheps://'',
      ''udp+rtp://'', ''unix+rtp://'']"

definition known_static_source :: "string \<Rightarrow> bool" where
  "known_static_source src \<longleftrightarrow>
     (\<exists>p \<in> set static_source_prefixes. prefix p src) \<or> src = ''rpiCamera''"

definition handlerInitialize :: act where
  "handlerInitialize s =
     (if known_static_source (Source (pconf s))
      then upd (\<lambda>s. s\<lparr>source := Some (HandlerSource False)\<rparr>) s else panic s)"

text \<open>
  The head of \<open>run\<close>. \<open>offlineDesc\<close> and \<open>err\<close> are the description and the result of initializing
  an always available stream.
\<close>

definition run_start :: "session_desc \<Rightarrow> int \<Rightarrow> string option \<Rightarrow> act" where
  "run_start offlineDesc now err =
     seqs
       [whenever (\<lambda>s. AlwaysAvailable (pconf s))
          (if err \<noteq> None then panic else setAvailable '''' offlineDesc now None),
        (\<lambda>s. if Source (pconf s) = ''redirect'' then upd (\<lambda>s. s\<lparr>source := Some RedirectSource\<rparr>) s
             else if HasStaticSource (pconf s) then
               seqs [handlerInitialize,
                     whenever (\<lambda>s. \<not> SourceOnDemand (pconf s)) (handlerStart False '''')] s
             else skip s),
        emit HookInit]"

text \<open>The tail of \<open>run\<close>, after \<open>runInner\<close> has returned.\<close>

definition closeSource :: act where
  "closeSource s =
     (case source s of
        Some (HandlerSource _) \<Rightarrow>
          whenever (\<lambda>s. \<not> SourceOnDemand (pconf s) \<or> staticState s \<noteq> StInitial)
            (handlerStop ''path is closing'') s
      | Some (PublisherSource p) \<Rightarrow> emit (ClosePublisher p) s
      | _ \<Rightarrow> skip s)"

definition run_close :: act where
  "run_close =
     seqs
       [emit ParentRemove,
        upd (\<lambda>s. s\<lparr>staticReadyTimer := False, staticCloseTimer := False,
                   pubReadyTimer := False, pubCloseTimer := False\<rparr>),
        emit HookUnInit,
        (\<lambda>s. for_each (describeRequestsOnHold s)
               (\<lambda>req. emit (ResDescribe (dr_id req) (DescribeErr ErrTerminated))) s),
        (\<lambda>s. for_each (readerAddRequestsOnHold s)
               (\<lambda>req. emit (ResAddReader (rr_id req) (Inl ErrTerminated))) s),
        whenever (\<lambda>s. stream s \<noteq> None) setNotAvailable,
        closeSource,
        whenever (\<lambda>s. onUnDemandHook s) (callUnDemandHook ''path destroyed'')]"

end
