(* ===== verification/Core_Path_Inv.thy ===== *)
theory Core_Path_Inv
  imports Core_Path "HOL-Library.Multiset"
begin

text \<open>
  The invariant of a path and what its handlers guarantee, also when the media layer refuses a stream:
  which events crash the process, that every request is answered exactly once or is on hold, that the
  timers are armed exactly in the states that wait for them.
\<close>

section \<open>Weakest preconditions\<close>

text \<open>\<open>wp a Q s\<close>: from \<open>s\<close> the action does not panic and ends in \<open>Q\<close>.\<close>

definition wp :: "act \<Rightarrow> (path_state \<Rightarrow> path_eff list \<Rightarrow> bool) \<Rightarrow> path_state \<Rightarrow> bool" where
  "wp a Q s \<longleftrightarrow> (\<exists>s' e. a s = Some (s', e) \<and> Q s' e)"

named_theorems wp_rules \<open>weakest preconditions of the basic actions\<close>
named_theorems act_defs \<open>definitions of the composed actions\<close>

lemma wp_skip [wp_rules]: "wp skip Q s \<longleftrightarrow> Q s []"
  by (simp add: wp_def skip_def)

lemma wp_panic [wp_rules]: "wp panic Q s \<longleftrightarrow> False"
  by (simp add: wp_def panic_def)

lemma wp_upd [wp_rules]: "wp (upd f) Q s \<longleftrightarrow> Q (f s) []"
  by (simp add: wp_def upd_def)

lemma wp_emit [wp_rules]: "wp (emit x) Q s \<longleftrightarrow> Q s [x]"
  by (simp add: wp_def emit_def)

lemma wp_whenever [wp_rules]: "wp (whenever c a) Q s \<longleftrightarrow> (if c s then wp a Q s else Q s [])"
  by (simp add: wp_def whenever_def skip_def)

lemma wp_andthen: "wp (andthen a b) Q s \<longleftrightarrow> wp a (\<lambda>s1 e1. wp b (\<lambda>s2 e2. Q s2 (e1 @ e2)) s1) s"
  by (auto simp: wp_def andthen_def split: option.splits)

lemma wp_seqs_Nil [wp_rules]: "wp (seqs []) Q s \<longleftrightarrow> Q s []"
  by (simp add: wp_rules seqs.simps)

lemma wp_seqs_Cons [wp_rules]:
  "wp (seqs (a # as)) Q s \<longleftrightarrow> wp a (\<lambda>s1 e1. wp (seqs as) (\<lambda>s2 e2. Q s2 (e1 @ e2)) s1) s"
  by (simp add: wp_andthen seqs.simps)

lemma wp_if_state [wp_rules]:
  "wp (\<lambda>s. if c s then a s else b s) Q s \<longleftrightarrow> (if c s then wp a Q s else wp b Q s)"
  by (simp add: wp_def)

lemma wp_if [wp_rules]: "wp (if c then a else b) Q s \<longleftrightarrow> (if c then wp a Q s else wp b Q s)"
  by simp

lemma wp_emit_state [wp_rules]: "wp (\<lambda>s. emit (f s) s) Q s \<longleftrightarrow> Q s [f s]"
  by (simp add: wp_def emit_def)

lemma wp_eq: "a s = b s \<Longrightarrow> wp b Q s \<Longrightarrow> wp a Q s"
  by (simp add: wp_def)

lemma wp_mono: "wp a Q s \<Longrightarrow> (\<And>s' e. Q s' e \<Longrightarrow> R s' e) \<Longrightarrow> wp a R s"
  by (auto simp: wp_def)

text \<open>Loops that only answer requests, and the loop that closes the readers.\<close>

lemma wp_for_each_emit:
  "wp (for_each xs (\<lambda>x. emit (f x))) Q s \<longleftrightarrow> Q s (map f xs)"
proof (induction xs arbitrary: Q)
  case Nil
  then show ?case by (simp add: for_each_def wp_rules)
next
  case (Cons x xs)
  have "wp (for_each (x # xs) (\<lambda>x. emit (f x))) Q s
      = wp (for_each xs (\<lambda>x. emit (f x))) (\<lambda>s2 e2. Q s2 (f x # e2)) s"
    by (simp add: for_each_def wp_rules)
  then show ?case by (simp add: Cons.IH)
qed

lemma for_each_emit: "for_each xs (\<lambda>x. emit (f x)) s = Some (s, map f xs)"
  using wp_for_each_emit [of xs f "\<lambda>s' e. s' = s \<and> e = map f xs" s] by (auto simp: wp_def)

lemma for_each_closeReaders:
  "distinct rs \<Longrightarrow> set rs \<subseteq> set (readers s) \<Longrightarrow>
   for_each rs (\<lambda>r. seqs [executeRemoveReader r, emit (CloseReader r)]) s
   = Some (s\<lparr>readers := filter (\<lambda>r. r \<notin> set rs) (readers s)\<rparr>, map CloseReader rs)"
proof (induction rs arbitrary: s)
  case Nil
  then show ?case by (simp add: for_each_def skip_def seqs.simps)
next
  case (Cons r rs)
  let ?s = "s\<lparr>readers := removeAll r (readers s)\<rparr>"
  have "for_each (r # rs) (\<lambda>r. seqs [executeRemoveReader r, emit (CloseReader r)]) s =
      map_option (\<lambda>(s2, e). (s2, CloseReader r # e))
        (for_each rs (\<lambda>r. seqs [executeRemoveReader r, emit (CloseReader r)]) ?s)"
    by (simp add: for_each_def seqs.simps andthen_def executeRemoveReader_def upd_def emit_def skip_def
        split: option.splits)
  also have "for_each rs (\<lambda>r. seqs [executeRemoveReader r, emit (CloseReader r)]) ?s
      = Some (?s\<lparr>readers := filter (\<lambda>r. r \<notin> set rs) (readers ?s)\<rparr>, map CloseReader rs)"
    using Cons.prems by (intro Cons.IH) auto
  also have "filter (\<lambda>r. r \<notin> set rs) (readers ?s)
      = filter (\<lambda>x. x \<notin> set (r # rs)) (readers s)"
    by (induction "readers s") (auto simp: removeAll_filter_not_eq intro: filter_cong)
  finally show ?case by simp
qed

lemma wp_closeAllReaders:
  "distinct (readers s) \<Longrightarrow>
   wp closeAllReaders Q s \<longleftrightarrow> Q (s\<lparr>readers := []\<rparr>) (map CloseReader (readers s))"
  using for_each_closeReaders [of "readers s" s]
  by (simp add: wp_def closeAllReaders_def)


section \<open>The invariant\<close>

text \<open>What \<open>Path.validate\<close> guarantees of a configuration, as far as the handlers rely on it.\<close>

definition conf_ok :: "path_conf \<Rightarrow> bool" where
  "conf_ok c \<longleftrightarrow>
     (AlwaysAvailable c \<longrightarrow> Regexp c = None \<and> \<not> SourceOnDemand c \<and> RunOnDemand c = '''') \<and>
     (RunOnDemand c \<noteq> '''' \<longrightarrow> Source c = ''publisher'') \<and>
     (HasStaticSource c \<longrightarrow> known_static_source (Source c)) \<and>
     (HasStaticSource c \<and> Regexp c \<noteq> None \<longrightarrow> SourceOnDemand c)"

text \<open>
  The invariant has a parameter \<open>f\<close>: whether the media layer has ever refused a stream. Such a failure
  leaves a stream assigned that has no source (and that may not be initialized); the facts guarded by
  \<open>\<not> f\<close> are lost then, the others hold in every state.
\<close>

definition inv_src :: "path_state \<Rightarrow> bool" where
  "inv_src s \<longleftrightarrow>
     (Source (pconf s) = ''redirect'' \<longrightarrow> source s = Some RedirectSource) \<and>
     (HasStaticSource (pconf s) \<longrightarrow>
        source s = Some (HandlerSource (\<not> SourceOnDemand (pconf s) \<or> staticState s \<noteq> StInitial))) \<and>
     (Source (pconf s) = ''publisher'' \<longrightarrow>
        source s \<noteq> Some RedirectSource \<and> (\<forall>b. source s \<noteq> Some (HandlerSource b)))"

fun stream_up :: "stream option \<Rightarrow> bool" where
  "stream_up None = False"
| "stream_up (Some st) = initialized st"

lemma stream_up_some: "stream_up x \<Longrightarrow> x \<noteq> None"
  by (cases x) simp_all

definition inv_static :: "bool \<Rightarrow> path_state \<Rightarrow> bool" where
  "inv_static f s \<longleftrightarrow>
     (staticReadyTimer s \<longleftrightarrow> staticState s = StWaitingReady) \<and>
     (staticCloseTimer s \<longleftrightarrow> staticState s = StClosing) \<and>
     (staticState s \<noteq> StInitial \<longrightarrow> HasOnDemandStaticSource (pconf s)) \<and>
     (staticState s = StReady \<or> staticState s = StClosing \<longrightarrow> stream_up (stream s)) \<and>
     (\<not> f \<and> HasOnDemandStaticSource (pconf s) \<and> stream s \<noteq> None \<longrightarrow>
        staticState s = StReady \<or> staticState s = StClosing)"

definition inv_pub :: "bool \<Rightarrow> path_state \<Rightarrow> bool" where
  "inv_pub f s \<longleftrightarrow>
     (pubReadyTimer s \<longleftrightarrow> pubState s = StWaitingReady) \<and>
     (pubCloseTimer s \<longleftrightarrow> pubState s = StClosing) \<and>
     (onUnDemandHook s \<longleftrightarrow> pubState s \<noteq> StInitial) \<and>
     (pubState s \<noteq> StInitial \<longrightarrow> HasOnDemandPublisher (pconf s)) \<and>
     (\<not> f \<and> pubState s = StWaitingReady \<longrightarrow> stream s = None)"

definition inv_stream :: "bool \<Rightarrow> path_state \<Rightarrow> bool" where
  "inv_stream f s \<longleftrightarrow>
     (stream_up (stream s) \<longrightarrow> onNotReadyHook s) \<and>
     (\<not> f \<and> stream s \<noteq> None \<longrightarrow> stream_up (stream s)) \<and>
     (AlwaysAvailable (pconf s) \<longrightarrow> stream_up (stream s)) \<and>
     (Source (pconf s) = ''publisher'' \<and> source s \<noteq> None \<longrightarrow> stream_up (stream s)) \<and>
     (\<not> f \<and> Source (pconf s) = ''publisher'' \<and> \<not> AlwaysAvailable (pconf s) \<and> stream s \<noteq> None \<longrightarrow>
        source s \<noteq> None) \<and>
     (Source (pconf s) = ''redirect'' \<and> \<not> AlwaysAvailable (pconf s) \<longrightarrow> stream s = None) \<and>
     (\<forall>st. stream s = Some st \<longrightarrow> stream_id st < nextStream s) \<and>
     (\<forall>i. recorder s = Some i \<longrightarrow> stream s \<noteq> None \<and> i < nextStream s) \<and>
     (\<not> f \<and> recorder s \<noteq> None \<longrightarrow> recorder s = map_option stream_id (stream s)) \<and>
     (stream s = None \<longrightarrow> readers s = [] \<and> tencentForwarders s = [] \<and> mmxForwarders s = [])"

definition inv_readers :: "bool \<Rightarrow> path_state \<Rightarrow> bool" where
  "inv_readers f s \<longleftrightarrow>
     distinct (readers s) \<and>
     (0 < MaxReaders (pconf s) \<longrightarrow> int (length (readers s)) \<le> MaxReaders (pconf s)) \<and>
     (\<not> f \<and> (staticState s = StClosing \<or> pubState s = StClosing) \<longrightarrow> readers s = []) \<and>
     (staticState s = StReady \<longrightarrow> readers s \<noteq> []) \<and>
     (\<not> f \<and> pubState s = StReady \<and> stream s \<noteq> None \<longrightarrow> readers s \<noteq> [])"

definition inv_hold :: "bool \<Rightarrow> path_state \<Rightarrow> bool" where
  "inv_hold f s \<longleftrightarrow>
     (describeRequestsOnHold s \<noteq> [] \<or> readerAddRequestsOnHold s \<noteq> [] \<longrightarrow>
        (\<not> f \<longrightarrow> stream s = None) \<and>
        (HasOnDemandStaticSource (pconf s) \<and> staticState s = StWaitingReady \<or>
         HasOnDemandPublisher (pconf s) \<and> \<not> HasOnDemandStaticSource (pconf s)))"

definition inv_core :: "bool \<Rightarrow> path_state \<Rightarrow> bool" where
  "inv_core f s \<longleftrightarrow>
     conf_ok (pconf s) \<and> inv_src s \<and> inv_static f s \<and> inv_pub f s \<and> inv_stream f s \<and> inv_readers f s"

definition path_inv :: "bool \<Rightarrow> path_state \<Rightarrow> bool" where
  "path_inv f s \<longleftrightarrow> inv_core f s \<and> inv_hold f s"

lemmas inv_defs = inv_core_def inv_src_def inv_static_def inv_pub_def inv_stream_def inv_readers_def

section \<open>Answers\<close>

text \<open>The requests answered by a list of effects, and those on hold.\<close>

fun answer_of :: "path_eff \<Rightarrow> nat list" where
  "answer_of (ResDescribe i _) = [i]"
| "answer_of (ResAddReader i _) = [i]"
| "answer_of (ResAddPublisher i _) = [i]"
| "answer_of _ = []"

definition answered :: "path_eff list \<Rightarrow> nat list" where
  "answered es = concat (map answer_of es)"

definition held :: "path_state \<Rightarrow> nat list" where
  "held s = map dr_id (describeRequestsOnHold s) @ map rr_id (readerAddRequestsOnHold s)"

lemma answered_simps [simp]:
  "answered [] = []" "answered (e # es) = answer_of e @ answered es"
  "answered (es @ es') = answered es @ answered es'"
  by (simp_all add: answered_def)

lemma answered_silent [simp]:
  "answered (map CloseReader rs) = []" "answered (map TencentClose ks) = []"
  "answered (map MmxClose ts) = []" "answered (map MmxStart ts) = []"
  "answered (map (\<lambda>l. TencentStart (k l)) ls) = []"
  "answered (map (\<lambda>q. ResDescribe (dr_id q) x) ds) = map dr_id ds"
  "answered (map (\<lambda>q. ResAddReader (rr_id q) y) qs) = map rr_id qs"
  by (simp_all add: answered_def comp_def)

section \<open>Composite actions\<close>

lemma wp_setNotAvailable:
  assumes "distinct (readers s)" "onNotReadyHook s"
    and "\<And>e. answered e = [] \<Longrightarrow>
      Q (s\<lparr>readers := [], recorder := None, tencentForwarders := [], mmxForwarders := [],
           stream := None\<rparr>) e"
  shows "wp setNotAvailable Q s"
proof -
  let ?s = "s\<lparr>readers := [], recorder := None, tencentForwarders := [], mmxForwarders := [],
    stream := None\<rparr>"
  have "\<exists>e. setNotAvailable s = Some (?s, e) \<and> answered e = []"
    using for_each_closeReaders [of "readers s" s] assms(1,2)
    by (cases "recorder s"; cases "stream s")
      (simp_all add: setNotAvailable_def closeAllReaders_def seqs.simps andthen_def emit_def skip_def
        closeRecorder_def whenever_def upd_def stopTencentForwarding_def stopMmxForwarding_def)
  with assms(3) show ?thesis by (auto simp: wp_def)
qed

lemma wp_recorderInitialize:
  "wp recorderInitialize Q s \<longleftrightarrow>
   (\<exists>st. stream s = Some st \<and> (RecordFormat (pconf s) = ''mpegts'' \<or> initialized st)) \<and> Q s [RecorderStart]"
  by (auto simp: wp_def recorderInitialize_def emit_def panic_def split: option.splits)

lemma wp_maybe_record:
  assumes "stream_up (stream s)"
    "\<And>r e. answered e = [] \<Longrightarrow> r = recorder s \<or> r = map_option stream_id (stream s) \<Longrightarrow>
      Q (s\<lparr>recorder := r\<rparr>) e"
  shows "wp (whenever c startRecording) Q s"
  using assms(1) assms(2) [of "[]" "recorder s"] assms(2) [of "[RecorderStart]"]
  by (auto simp: wp_rules startRecording_def wp_recorderInitialize elim: stream_up.elims)

lemma wp_maybe_tencent:
  assumes "stream s \<noteq> None" "\<And>tf e. answered e = [] \<Longrightarrow> Q (s\<lparr>tencentForwarders := tf\<rparr>) e"
  shows "wp (whenever c startTencentForwarding) Q s"
proof -
  from assms(1) obtain st where st: "stream s = Some st" by auto
  show ?thesis
    using assms(2) [of "[]" "tencentForwarders s"] assms(2)
    by (simp add: wp_rules) (simp add: wp_def startTencentForwarding_def st Let_def)
qed

lemma wp_maybe_mmx:
  assumes "stream s \<noteq> None" "\<And>mf e. answered e = [] \<Longrightarrow> Q (s\<lparr>mmxForwarders := mf\<rparr>) e"
  shows "wp (whenever c startMmxForwarding) Q s"
  using assms(2) [of "[]" "mmxForwarders s"] assms
  by (auto simp: wp_rules) (auto simp: wp_def startMmxForwarding_def Let_def)

lemma wp_maybe_online:
  assumes "\<And>t. Q (s\<lparr>onlineTime := t\<rparr>) []"
  shows "wp (whenever c (upd (\<lambda>s. s\<lparr>onlineTime := n\<rparr>))) Q s"
  using assms [of "onlineTime s"] assms by (simp add: wp_rules)

abbreviation new_stream :: "bool \<Rightarrow> session_desc \<Rightarrow> path_state \<Rightarrow> path_state" where
  "new_stream up d s \<equiv>
     s\<lparr>stream := Some \<lparr>stream_id = nextStream s, OrigDesc = d, initialized = up\<rparr>,
       nextStream := Suc (nextStream s)\<rparr>"

lemma wp_setAvailable:
  assumes "\<And>t1 t2 r tf mf e. answered e = [] \<Longrightarrow> r = recorder s \<or> r = Some (nextStream s) \<Longrightarrow>
      Q ((new_stream True d s)\<lparr>availableTime := t1, onlineTime := t2, recorder := r,
           tencentForwarders := tf, mmxForwarders := mf, onNotReadyHook := True\<rparr>) e"
  shows "wp (setAvailable q d n None) Q s"
  by (simp only: setAvailable_def wp_seqs_Cons wp_seqs_Nil wp_upd wp_emit simp_thms if_False)
    (intro wp_maybe_online wp_maybe_record wp_maybe_tencent wp_maybe_mmx;
      auto intro!: assms)

lemma wp_setAvailable_failed:
  "wp (setAvailable q d n (Some e)) Q s \<longleftrightarrow> Q (new_stream False d s) []"
  by (simp add: setAvailable_def wp_rules)

text \<open>Accepting a reader keeps the invariant of a path that has a stream.\<close>

definition same_frame :: "path_state \<Rightarrow> path_state \<Rightarrow> bool" where
  "same_frame s s' \<longleftrightarrow>
     pconf s' = pconf s \<and> source s' = source s \<and> stream s' = stream s \<and>
     describeRequestsOnHold s' = describeRequestsOnHold s \<and>
     readerAddRequestsOnHold s' = readerAddRequestsOnHold s \<and>
     (staticState s = StWaitingReady \<longrightarrow> staticState s' = StWaitingReady)"

lemma wp_requestKeyFrame:
  assumes "\<And>e. answered e = [] \<Longrightarrow> Q s e"
  shows "wp requestKeyFrame Q s"
  using assms [of "[]"] assms [of "[RequestKeyFrame p]" for p]
  by (auto simp: wp_def requestKeyFrame_def emit_def skip_def split: option.splits path_source.splits)

lemma machines_exclusive:
  "conf_ok c \<Longrightarrow> HasOnDemandPublisher c \<Longrightarrow> \<not> HasOnDemandStaticSource c"
  by (auto simp: conf_ok_def HasOnDemandPublisher_def HasOnDemandStaticSource_def HasStaticSource_def)

lemma wp_addReaderPost:
  assumes "inv_core f s" "stream s \<noteq> None"
  shows "wp (addReaderPost req)
    (\<lambda>s' e. inv_core f s' \<and> same_frame s s' \<and> answered e = [rr_id req]) s"
proof -
  let ?s = "s\<lparr>readers := readers s @ [rr_author req]\<rparr>"
  consider (dup) "rr_author req \<in> set (readers s)"
    | (full) "rr_author req \<notin> set (readers s)"
      "MaxReaders (pconf s) \<noteq> 0 \<and> MaxReaders (pconf s) \<le> int (length (readers s))"
    | (ok) "rr_author req \<notin> set (readers s)"
      "\<not> (MaxReaders (pconf s) \<noteq> 0 \<and> MaxReaders (pconf s) \<le> int (length (readers s)))"
    by blast
  then show ?thesis
  proof cases
    case dup
    with assms show ?thesis by (simp add: wp_def addReaderPost_def emit_def same_frame_def)
  next
    case full
    with assms show ?thesis by (simp add: wp_def addReaderPost_def emit_def same_frame_def)
  next
    case ok
    have lim: "int (length (readers s)) < MaxReaders (pconf s)" if "0 < MaxReaders (pconf s)"
      using ok(2) that by auto
    have core: "conf_ok (pconf s)" "inv_src s" "inv_static f s" "inv_pub f s" "inv_stream f s" "inv_readers f s"
      using assms(1) by (simp_all add: inv_core_def)
    define s1 where "s1 =
      (if HasOnDemandStaticSource (pconf s)
       then if staticState s = StClosing then ?s\<lparr>staticState := StReady, staticCloseTimer := False\<rparr> else ?s
       else if HasOnDemandPublisher (pconf s)
       then if pubState s = StClosing then ?s\<lparr>pubState := StReady, pubCloseTimer := False\<rparr> else ?s
       else ?s)"
    have "inv_src s1" using core by (auto simp: s1_def inv_src_def inv_static_def)
    moreover have "inv_static f s1" using core by (auto simp: s1_def inv_static_def)
    moreover have "inv_pub f s1" using core by (auto simp: s1_def inv_pub_def)
    moreover have "inv_stream f s1" using core assms(2) by (auto simp: s1_def inv_stream_def)
    moreover have "inv_readers f s1"
    proof -
      have "staticState s = StClosing \<Longrightarrow> HasOnDemandStaticSource (pconf s)"
        "pubState s = StClosing \<Longrightarrow> HasOnDemandPublisher (pconf s) \<and> \<not> HasOnDemandStaticSource (pconf s)"
        using core(1,3,4) machines_exclusive by (auto simp: inv_static_def inv_pub_def)
      moreover have "distinct (readers s)" using core(6) by (simp add: inv_readers_def)
      ultimately show ?thesis
        using ok(1) lim by (auto simp: s1_def inv_readers_def Suc_le_eq)
    qed
    moreover have "same_frame s s1" "pconf s1 = pconf s" by (auto simp: s1_def same_frame_def)
    ultimately have Q: "inv_core f s1 \<and> same_frame s s1" using core(1) by (simp add: inv_core_def)
    have "wp (addReaderPost req) Q s \<longleftrightarrow> wp (seqs
          [upd (\<lambda>s. s\<lparr>readers := readers s @ [rr_author req]\<rparr>),
           (\<lambda>s. if HasOnDemandStaticSource (pconf s) then
                  whenever (\<lambda>s. staticState s = StClosing)
                    (upd (\<lambda>s. s\<lparr>staticState := StReady, staticCloseTimer := False\<rparr>)) s
                else if HasOnDemandPublisher (pconf s) then
                  whenever (\<lambda>s. pubState s = StClosing)
                    (upd (\<lambda>s. s\<lparr>pubState := StReady, pubCloseTimer := False\<rparr>)) s
                else skip s),
           requestKeyFrame,
           (\<lambda>s. emit (ResAddReader (rr_id req) (Inr (stream_ref s))) s)]) Q s" for Q
      using ok by (simp only: wp_def addReaderPost_def if_False simp_thms)
    then have "wp (addReaderPost req) Q s \<longleftrightarrow>
        wp requestKeyFrame (\<lambda>s' e. Q s' (e @ [ResAddReader (rr_id req) (Inr (stream_ref s'))])) s1" for Q
      by (simp add: wp_rules s1_def)
    then show ?thesis using Q by (auto intro: wp_requestKeyFrame)
  qed
qed

lemma same_frame_trans: "same_frame s s' \<Longrightarrow> same_frame s' s'' \<Longrightarrow> same_frame s s''"
  by (simp add: same_frame_def)

lemma wp_addReaderPosts:
  assumes "inv_core f s" "stream s \<noteq> None"
  shows "wp (for_each reqs addReaderPost)
    (\<lambda>s' e. inv_core f s' \<and> same_frame s s' \<and> answered e = map rr_id reqs) s"
  using assms
proof (induction reqs arbitrary: s)
  case Nil
  then show ?case by (simp add: for_each_def wp_rules same_frame_def)
next
  case (Cons req reqs)
  have "wp (addReaderPost req)
      (\<lambda>s1 e1. wp (for_each reqs addReaderPost)
        (\<lambda>s2 e2. inv_core f s2 \<and> same_frame s s2 \<and> answered (e1 @ e2) = map rr_id (req # reqs)) s1) s"
  proof (rule wp_mono [OF wp_addReaderPost [OF Cons.prems]])
    fix s1 e1 assume s1: "inv_core f s1 \<and> same_frame s s1 \<and> answered e1 = [rr_id req]"
    then have "stream s1 \<noteq> None" using Cons.prems(2) by (simp add: same_frame_def)
    with s1 have "wp (for_each reqs addReaderPost)
        (\<lambda>s' e. inv_core f s' \<and> same_frame s1 s' \<and> answered e = map rr_id reqs) s1"
      by (intro Cons.IH) auto
    then show "wp (for_each reqs addReaderPost)
        (\<lambda>s2 e2. inv_core f s2 \<and> same_frame s s2 \<and> answered (e1 @ e2) = map rr_id (req # reqs)) s1"
      by (rule wp_mono) (use s1 in \<open>auto intro: same_frame_trans\<close>)
  qed
  then show ?case by (simp add: for_each_def wp_seqs_Cons)
qed

lemma wp_consumeOnHoldRequests:
  assumes "inv_core f s" "stream s \<noteq> None"
  shows "wp consumeOnHoldRequests
    (\<lambda>s' e. path_inv f s' \<and> pconf s' = pconf s \<and> source s' = source s \<and> stream s' = stream s \<and>
            held s' = [] \<and> answered e = held s) s"
proof -
  let ?s = "s\<lparr>describeRequestsOnHold := []\<rparr>"
  have "inv_core f ?s" using assms(1) by (simp add: inv_defs)
  from wp_addReaderPosts [OF this, of "readerAddRequestsOnHold s"] assms(2)
  obtain s2 e2 where loop: "for_each (readerAddRequestsOnHold s) addReaderPost ?s = Some (s2, e2)"
    "inv_core f s2" "same_frame ?s s2" "answered e2 = map rr_id (readerAddRequestsOnHold s)"
    by (auto simp: wp_def)
  let ?s3 = "s2\<lparr>readerAddRequestsOnHold := []\<rparr>"
  have "inv_core f ?s3" using loop(2) by (simp add: inv_defs)
  then have "path_inv f ?s3" using loop(3) by (simp add: path_inv_def inv_hold_def same_frame_def)
  then show ?thesis
    using loop(3,4)
    by (simp add: wp_def consumeOnHoldRequests_def seqs.simps andthen_def for_each_emit upd_def skip_def loop(1)
        held_def same_frame_def)
qed

lemma wp_failOnHoldRequests:
  "wp (failOnHoldRequests x) Q s \<longleftrightarrow>
   Q (s\<lparr>describeRequestsOnHold := [], readerAddRequestsOnHold := []\<rparr>)
     (map (\<lambda>req. ResDescribe (dr_id req) (DescribeErr x)) (describeRequestsOnHold s) @
      map (\<lambda>req. ResAddReader (rr_id req) (Inl x)) (readerAddRequestsOnHold s))"
  by (simp add: wp_def failOnHoldRequests_def seqs.simps andthen_def for_each_emit upd_def skip_def)


section \<open>The handlers\<close>

text \<open>
  What every handler guarantees: the invariant, and that the requests \<open>ids\<close> it has received
  together with those on hold before are exactly those answered and those on hold after.
\<close>

definition post :: "bool \<Rightarrow> nat list \<Rightarrow> path_state \<Rightarrow> path_state \<Rightarrow> path_eff list \<Rightarrow> bool" where
  "post f ids s s' e \<longleftrightarrow>
     path_inv f s' \<and> mset (answered e) + mset (held s') = mset (held s) + mset ids"

lemma wp_handlerStop:
  "source s = Some (HandlerSource True) \<Longrightarrow>
   wp (handlerStop r) Q s \<longleftrightarrow> Q (s\<lparr>source := Some (HandlerSource False)\<rparr>) [HandlerStop r]"
  by (simp add: wp_def handlerStop_def seqs.simps andthen_def upd_def emit_def skip_def)

lemma wp_handlerStart:
  "source s = Some (HandlerSource False) \<Longrightarrow>
   wp (handlerStart b q) Q s \<longleftrightarrow> Q (s\<lparr>source := Some (HandlerSource True)\<rparr>) [HandlerStart b q]"
  by (simp add: wp_def handlerStart_def seqs.simps andthen_def upd_def emit_def skip_def)

lemma wp_startOffline:
  "stream s \<noteq> None \<Longrightarrow> wp (startOffline False) Q s \<longleftrightarrow> Q s [OfflineStart]"
  by (auto simp: wp_def startOffline_def emit_def)

lemma wp_callUnDemandHook:
  "onUnDemandHook s \<Longrightarrow> wp (callUnDemandHook r) Q s \<longleftrightarrow> Q s [HookUnDemand r]"
  by (simp add: wp_def callUnDemandHook_def emit_def)

lemma static_running:
  assumes "inv_core f s" "staticState s \<noteq> StInitial"
  shows "source s = Some (HandlerSource True)" "HasOnDemandStaticSource (pconf s)" "pubState s = StInitial"
    "\<not> AlwaysAvailable (pconf s)" "HasStaticSource (pconf s)" "SourceOnDemand (pconf s)"
proof -
  show *: "HasOnDemandStaticSource (pconf s)" using assms by (simp add: inv_core_def inv_static_def)
  then show **: "HasStaticSource (pconf s)" "SourceOnDemand (pconf s)"
    by (simp_all add: HasOnDemandStaticSource_def)
  then show "source s = Some (HandlerSource True)"
    using assms by (simp add: inv_core_def inv_src_def)
  show "pubState s = StInitial"
    using assms(1) * machines_exclusive by (auto simp: inv_core_def inv_pub_def)
  show "\<not> AlwaysAvailable (pconf s)"
    using assms(1) ** by (auto simp: inv_core_def conf_ok_def)
qed

lemma pub_running:
  assumes "inv_core f s" "HasOnDemandPublisher (pconf s)"
  shows "Source (pconf s) = ''publisher''" "\<not> HasStaticSource (pconf s)"
    "\<not> HasOnDemandStaticSource (pconf s)" "staticState s = StInitial" "\<not> AlwaysAvailable (pconf s)"
proof -
  have c: "conf_ok (pconf s)" using assms(1) by (simp add: inv_core_def)
  then show "Source (pconf s) = ''publisher''" "\<not> HasStaticSource (pconf s)"
    "\<not> AlwaysAvailable (pconf s)"
    using assms(2) by (auto simp: conf_ok_def HasOnDemandPublisher_def HasStaticSource_def)
  show no: "\<not> HasOnDemandStaticSource (pconf s)" by (rule machines_exclusive [OF c assms(2)])
  then show "staticState s = StInitial" using assms(1) by (auto simp: inv_core_def inv_static_def)
qed

lemma not_publisher: "HasStaticSource c \<Longrightarrow> Source c \<noteq> ''publisher'' \<and> Source c \<noteq> ''redirect''"
  by (simp add: HasStaticSource_def)

lemma wp_StaticReadyTimer:
  assumes "path_inv f s" "staticReadyTimer s"
  shows "wp (seqs [upd (\<lambda>s. s\<lparr>staticReadyTimer := False\<rparr>), doOnDemandStaticSourceReadyTimer])
    (post f [] s) s"
proof -
  have core: "inv_core f s" using assms(1) by (simp add: path_inv_def)
  have st: "staticState s = StWaitingReady"
    using core assms(2) by (simp add: inv_core_def inv_static_def)
  note run = static_running [OF core, unfolded st, simplified]
  let ?s = "s\<lparr>staticReadyTimer := False, describeRequestsOnHold := [], readerAddRequestsOnHold := [],
    staticState := StInitial, source := Some (HandlerSource False)\<rparr>"
  have "inv_core f ?s"
    using core st run not_publisher [OF run(5)] by (auto simp: inv_defs)
  then have "path_inv f ?s" by (simp add: path_inv_def inv_hold_def)
  then show ?thesis
    using st run(1)
    by (simp add: doOnDemandStaticSourceReadyTimer_def onDemandStaticSourceStop_def wp_rules
        wp_failOnHoldRequests wp_handlerStop post_def held_def)
qed

lemma wp_StaticCloseTimer:
  assumes "path_inv f s" "staticCloseTimer s"
  shows "wp (seqs [upd (\<lambda>s. s\<lparr>staticCloseTimer := False\<rparr>), doOnDemandStaticSourceCloseTimer])
    (post f [] s) s"
proof -
  have core: "inv_core f s" using assms(1) by (simp add: path_inv_def)
  have st: "staticState s = StClosing"
    using core assms(2) by (simp add: inv_core_def inv_static_def)
  note run = static_running [OF core, unfolded st, simplified]
  have hk: "stream s \<noteq> None" "onNotReadyHook s" "distinct (readers s)"
    using core st run
    by (auto simp: inv_core_def inv_static_def inv_stream_def inv_readers_def dest: stream_up_some)
  have hold: "describeRequestsOnHold s = []" "readerAddRequestsOnHold s = []"
    using assms(1) st run(2) by (auto simp: path_inv_def inv_hold_def)
  let ?s = "s\<lparr>readers := [], recorder := None, tencentForwarders := [], mmxForwarders := [],
    stream := None, staticCloseTimer := False, staticState := StInitial,
    source := Some (HandlerSource False)\<rparr>"
  have "inv_core f ?s"
    using core st run not_publisher [OF run(5)] by (auto simp: inv_defs)
  then have "path_inv f ?s" using hold by (simp add: path_inv_def inv_hold_def)
  moreover have "doOnDemandStaticSourceCloseTimer (s\<lparr>staticCloseTimer := False\<rparr>) =
      seqs [setNotAvailable, onDemandStaticSourceStop ''not needed by anyone'']
        (s\<lparr>staticCloseTimer := False\<rparr>)"
    using run(4) by (simp add: doOnDemandStaticSourceCloseTimer_def)
  then have "wp doOnDemandStaticSourceCloseTimer Q (s\<lparr>staticCloseTimer := False\<rparr>) \<longleftrightarrow>
      wp (seqs [setNotAvailable, onDemandStaticSourceStop ''not needed by anyone'']) Q
        (s\<lparr>staticCloseTimer := False\<rparr>)" for Q by (simp add: wp_def)
  ultimately show ?thesis
    using st run(1) hk(2,3) hold
    by (simp add: wp_rules onDemandStaticSourceStop_def)
      (rule wp_setNotAvailable; simp add: wp_handlerStop post_def held_def)
qed

lemma wp_PubReadyTimer:
  assumes "path_inv f s" "pubReadyTimer s"
  shows "wp (seqs [upd (\<lambda>s. s\<lparr>pubReadyTimer := False\<rparr>), doOnDemandPublisherReadyTimer])
    (post f [] s) s"
proof -
  have core: "inv_core f s" using assms(1) by (simp add: path_inv_def)
  have st: "pubState s = StWaitingReady" "onUnDemandHook s"
    using core assms(2) by (simp_all add: inv_core_def inv_pub_def)
  let ?s = "s\<lparr>pubReadyTimer := False, describeRequestsOnHold := [], readerAddRequestsOnHold := [],
    onUnDemandHook := False, pubState := StInitial\<rparr>"
  have "HasOnDemandPublisher (pconf s)" using core st by (simp add: inv_core_def inv_pub_def)
  note run = pub_running [OF core this]
  have "inv_core f ?s" using core st run by (auto simp: inv_defs)
  then have "path_inv f ?s" by (simp add: path_inv_def inv_hold_def)
  then show ?thesis
    using st
    by (simp add: doOnDemandPublisherReadyTimer_def onDemandPublisherStop_def wp_rules
        wp_failOnHoldRequests wp_callUnDemandHook post_def held_def)
qed

lemma wp_PubCloseTimer:
  assumes "path_inv f s" "pubCloseTimer s"
  shows "wp (seqs [upd (\<lambda>s. s\<lparr>pubCloseTimer := False\<rparr>), doOnDemandPublisherCloseTimer])
    (post f [] s) s"
proof -
  have core: "inv_core f s" using assms(1) by (simp add: path_inv_def)
  have st: "pubState s = StClosing" "onUnDemandHook s"
    using core assms(2) by (simp_all add: inv_core_def inv_pub_def)
  let ?s = "s\<lparr>pubCloseTimer := False, onUnDemandHook := False, pubState := StInitial\<rparr>"
  have "HasOnDemandPublisher (pconf s)" using core st by (simp add: inv_core_def inv_pub_def)
  note run = pub_running [OF core this]
  have "inv_core f ?s" using core st run by (auto simp: inv_defs)
  then have "path_inv f ?s" using assms(1) by (simp add: path_inv_def inv_hold_def)
  then show ?thesis
    using st
    by (simp add: doOnDemandPublisherCloseTimer_def onDemandPublisherStop_def wp_rules
        wp_callUnDemandHook post_def held_def)
qed


text \<open>Reloading the configuration: recording and forwarding follow it, nothing else changes.\<close>

definition side_frame :: "path_state \<Rightarrow> path_state \<Rightarrow> bool" where
  "side_frame s s' \<longleftrightarrow>
     s' = s\<lparr>recorder := recorder s', tencentForwarders := tencentForwarders s',
            mmxForwarders := mmxForwarders s'\<rparr> \<and>
     (recorder s' = None \<or> recorder s' = recorder s \<or>
      stream s \<noteq> None \<and> recorder s' = map_option stream_id (stream s)) \<and>
     (stream s = None \<longrightarrow>
        (tencentForwarders s' = [] \<or> tencentForwarders s' = tencentForwarders s) \<and>
        (mmxForwarders s' = [] \<or> mmxForwarders s' = mmxForwarders s))"

lemma side_frameD:
  assumes "side_frame s s'"
  shows "pconf s' = pconf s" "source s' = source s" "stream s' = stream s" "readers s' = readers s"
    "describeRequestsOnHold s' = describeRequestsOnHold s"
    "readerAddRequestsOnHold s' = readerAddRequestsOnHold s" "staticState s' = staticState s"
proof -
  from assms have "s' = s\<lparr>recorder := recorder s', tencentForwarders := tencentForwarders s',
      mmxForwarders := mmxForwarders s'\<rparr>" by (simp add: side_frame_def)
  then obtain r tf mf where "s' = s\<lparr>recorder := r, tencentForwarders := tf, mmxForwarders := mf\<rparr>"
    by blast
  then show "pconf s' = pconf s" "source s' = source s" "stream s' = stream s"
    "readers s' = readers s" "describeRequestsOnHold s' = describeRequestsOnHold s"
    "readerAddRequestsOnHold s' = readerAddRequestsOnHold s" "staticState s' = staticState s"
    by simp_all
qed

lemma side_frame_refl: "side_frame s s"
  by (simp add: side_frame_def)

lemma side_frame_trans:
  assumes "side_frame s s1" "side_frame s1 s2"
  shows "side_frame s s2"
proof -
  have "stream s1 = stream s" using assms(1) by (rule side_frameD)
  moreover obtain r tf mf where "s1 = s\<lparr>recorder := r, tencentForwarders := tf, mmxForwarders := mf\<rparr>"
    using assms(1) by (auto simp: side_frame_def)
  moreover obtain r' tf' mf' where
    "s2 = s1\<lparr>recorder := r', tencentForwarders := tf', mmxForwarders := mf'\<rparr>"
    using assms(2) by (auto simp: side_frame_def)
  ultimately show ?thesis using assms unfolding side_frame_def by auto
qed

lemma side_frame_inv:
  assumes "side_frame s s'" "inv_core f s"
  shows "inv_core f s'"
proof -
  obtain r tf mf where s': "s' = s\<lparr>recorder := r, tencentForwarders := tf, mmxForwarders := mf\<rparr>"
    using assms(1) by (auto simp: side_frame_def)
  have fr: "r = None \<or> r = recorder s \<or> stream s \<noteq> None \<and> r = map_option stream_id (stream s)"
    "stream s = None \<Longrightarrow> (tf = [] \<or> tf = tencentForwarders s) \<and> (mf = [] \<or> mf = mmxForwarders s)"
    using assms(1) by (simp_all add: side_frame_def s')
  have "inv_stream f s" using assms(2) by (simp add: inv_core_def)
  then have "inv_stream f s'"
    using fr by (cases "stream s") (auto simp: inv_stream_def s')
  moreover have "inv_src s' = inv_src s" "inv_static f s' = inv_static f s" "inv_pub f s' = inv_pub f s"
    "inv_readers f s' = inv_readers f s" "pconf s' = pconf s"
    by (simp_all add: s' inv_src_def inv_static_def inv_pub_def inv_readers_def)
  ultimately show ?thesis using assms(2) by (simp add: inv_core_def)
qed

abbreviation side_action :: "act \<Rightarrow> bool" where
  "side_action a \<equiv> \<forall>s. wp a (\<lambda>s' e. side_frame s s' \<and> answered e = []) s"

lemma side_actions:
  assumes "\<forall>a \<in> set as. side_action a"
  shows "side_action (seqs as)"
  using assms
proof (induction as)
  case Nil
  then show ?case by (simp add: wp_rules side_frame_refl)
next
  case (Cons a as)
  show ?case
  proof
    fix s
    have "wp a (\<lambda>s' e. side_frame s s' \<and> answered e = []) s" using Cons.prems by simp
    then show "wp (seqs (a # as)) (\<lambda>s' e. side_frame s s' \<and> answered e = []) s"
      unfolding wp_seqs_Cons
    proof (rule wp_mono)
      fix s1 e1 assume s1: "side_frame s s1 \<and> answered e1 = []"
      have "wp (seqs as) (\<lambda>s' e. side_frame s1 s' \<and> answered e = []) s1" using Cons by simp
      then show "wp (seqs as) (\<lambda>s2 e2. side_frame s s2 \<and> answered (e1 @ e2) = []) s1"
        by (rule wp_mono) (use s1 side_frame_trans in auto)
    qed
  qed
qed

lemma side_actions_after:
  assumes "wp (seqs [a, b]) (\<lambda>s' e. side_frame s s' \<and> answered e = []) s" "side_action (seqs as)"
  shows "wp (seqs (a # b # as)) (\<lambda>s' e. side_frame s s' \<and> answered e = []) s"
proof -
  have "wp (seqs [a, b]) (\<lambda>s1 e1. wp (seqs as) (\<lambda>s2 e2. side_frame s s2 \<and> answered (e1 @ e2) = []) s1) s"
    using assms(1)
  proof (rule wp_mono)
    fix s1 e1 assume s1: "side_frame s s1 \<and> answered e1 = []"
    have "wp (seqs as) (\<lambda>s' e. side_frame s1 s' \<and> answered e = []) s1" using assms(2) by simp
    then show "wp (seqs as) (\<lambda>s2 e2. side_frame s s2 \<and> answered (e1 @ e2) = []) s1"
      by (rule wp_mono) (use s1 side_frame_trans in auto)
  qed
  then show ?thesis by (simp add: wp_seqs_Cons wp_seqs_Nil)
qed

text \<open>
  A recorder can be started: there is a stream, and it is initialized or the format does without
  that. A reload crashes when it has to start a recorder and cannot.
\<close>

definition recordable :: "path_state \<Rightarrow> bool" where
  "recordable s \<longleftrightarrow> stream s \<noteq> None \<and> (RecordFormat (pconf s) = ''mpegts'' \<or> stream_up (stream s))"

lemma wp_startRecording:
  "wp startRecording Q s \<longleftrightarrow>
   recordable s \<and> Q (s\<lparr>recorder := map_option stream_id (stream s)\<rparr>) [RecorderStart]"
  by (cases "stream s")
    (simp_all add: startRecording_def recordable_def wp_seqs_Cons wp_seqs_Nil wp_upd wp_recorderInitialize)

definition reload_crashes :: "path_conf \<Rightarrow> path_state \<Rightarrow> bool" where
  "reload_crashes c s \<longleftrightarrow>
     Record c \<and> stream s \<noteq> None \<and> \<not> recordable (s\<lparr>pconf := c\<rparr>) \<and>
     (recorder s = None \<or> record_conf_changed c (pconf s))"

lemma side_recorder:
  assumes "\<not> (Record c \<and> stream s \<noteq> None \<and> \<not> recordable s \<and> (recorder s = None \<or> changed))"
  shows "wp (seqs [whenever (\<lambda>_. changed) closeRecorder,
      whenever (\<lambda>s. Record c \<and> stream s \<noteq> None \<and> recorder s = None) startRecording])
    (\<lambda>s' e. side_frame s s' \<and> answered e = []) s"
proof -
  have rec: "recordable (s\<lparr>recorder := None\<rparr>) = recordable s" by (simp add: recordable_def)
  show ?thesis
  proof (cases "changed \<or> recorder s = None")
    case True
    with assms have can: "Record c \<Longrightarrow> stream s \<noteq> None \<Longrightarrow> recordable s" by blast
    have "whenever (\<lambda>_. changed) closeRecorder s = Some (s\<lparr>recorder := None\<rparr>, if recorder s = None then [] else [RecorderClose])"
      using True
      by (cases s) (auto simp: whenever_def closeRecorder_def seqs.simps andthen_def emit_def upd_def skip_def)
    then have close: "wp (whenever (\<lambda>_. changed) closeRecorder) Q s \<longleftrightarrow>
        Q (s\<lparr>recorder := None\<rparr>) (if recorder s = None then [] else [RecorderClose])" for Q
      by (simp add: wp_def)
    show ?thesis
      unfolding wp_seqs_Cons wp_seqs_Nil close
      unfolding wp_whenever wp_startRecording
      using can by (simp add: rec side_frame_def)
  next
    case False
    then have "recorder s \<noteq> None" by simp
    with False show ?thesis
      by (auto simp: wp_seqs_Cons wp_seqs_Nil wp_whenever side_frame_refl)
  qed
qed

lemma side_stopTencent: "side_action (whenever c stopTencentForwarding)"
  by (simp add: wp_rules side_frame_refl)
    (simp add: wp_def stopTencentForwarding_def side_frame_def)

lemma side_stopMmx: "side_action (whenever c stopMmxForwarding)"
  by (simp add: wp_rules side_frame_refl)
    (simp add: wp_def stopMmxForwarding_def side_frame_def)

lemma side_startTencent:
  "side_action (whenever (\<lambda>s. b \<and> d s \<and> stream s \<noteq> None \<and> c s) startTencentForwarding)"
  by (auto simp: wp_rules side_frame_refl)
    (auto simp: wp_def startTencentForwarding_def side_frame_def Let_def)

lemma side_startMmx:
  "side_action (whenever (\<lambda>s. b \<and> d s \<and> stream s \<noteq> None \<and> c s) startMmxForwarding)"
  by (auto simp: wp_rules side_frame_refl)
    (auto simp: wp_def startMmxForwarding_def side_frame_def Let_def)

lemma reload_keeps:
  assumes "pathConfCanBeUpdated c c'"
  shows "Source c' = Source c" "SourceOnDemand c' = SourceOnDemand c" "AlwaysAvailable c' = AlwaysAvailable c"
    "MaxReaders c' = MaxReaders c" "RunOnDemand c' = RunOnDemand c"
    "HasStaticSource c' = HasStaticSource c" "HasOnDemandStaticSource c' = HasOnDemandStaticSource c"
    "HasOnDemandPublisher c' = HasOnDemandPublisher c"
proof -
  show "Source c' = Source c" "SourceOnDemand c' = SourceOnDemand c"
    "AlwaysAvailable c' = AlwaysAvailable c" "MaxReaders c' = MaxReaders c" "RunOnDemand c' = RunOnDemand c"
    by (subst assms [unfolded pathConfCanBeUpdated_def], simp)+
  then show "HasStaticSource c' = HasStaticSource c"
    "HasOnDemandStaticSource c' = HasOnDemandStaticSource c"
    "HasOnDemandPublisher c' = HasOnDemandPublisher c"
    by (simp_all add: HasStaticSource_def HasOnDemandStaticSource_def HasOnDemandPublisher_def)
qed

lemma wp_doReloadConf_conf:
  assumes "path_inv f s" "pathConfCanBeUpdated (pconf s) c" "conf_ok c"
  shows "if reload_crashes c s then doReloadConf c s = None
    else wp (doReloadConf c) (\<lambda>s' e. post f [] s s' e \<and> pconf s' = c) s"
proof -
  note keep = reload_keeps [OF assms(2)]
  let ?s = "s\<lparr>pconf := c\<rparr>"
  have core: "inv_core f s" "inv_hold f s" using assms(1) by (simp_all add: path_inv_def)
  have core1: "inv_core f ?s" "inv_hold f ?s"
    using core assms(3) by (simp_all add: inv_defs inv_hold_def keep)
  have handler: "\<exists>b. source s = Some (HandlerSource b)" if "HasStaticSource c"
    using core(1) that keep(6) by (auto simp: inv_core_def inv_src_def)
  let ?close = "whenever (\<lambda>_. record_conf_changed c (pconf s)) closeRecorder"
  let ?start = "whenever (\<lambda>s. Record c \<and> stream s \<noteq> None \<and> recorder s = None) startRecording"
  define tail where "tail =
        [whenever (\<lambda>s'. tencentForwarders s' \<noteq> [] \<and>
                   (ForwardTencent c \<noteq> ForwardTencent (pconf s) \<or>
                    ForwardTencentStreamKey c \<noteq> ForwardTencentStreamKey (pconf s)))
           stopTencentForwarding,
         whenever (\<lambda>s. ForwardTencent c \<and> tencentEnable s \<and> stream s \<noteq> None \<and>
                   tencentForwarders s = []) startTencentForwarding,
         whenever (\<lambda>s'. mmxForwarders s' \<noteq> [] \<and>
                   (ForwardMmx c \<noteq> ForwardMmx (pconf s) \<or> MmxTargets c \<noteq> MmxTargets (pconf s)))
           stopMmxForwarding,
         whenever (\<lambda>s. ForwardMmx c \<and> forwardMmxEnable s \<and> stream s \<noteq> None \<and>
                   mmxForwarders s = []) startMmxForwarding]"
  have "side_action (seqs tail)"
    unfolding tail_def
    by (rule side_actions)
      (simp only: list.set ball_simps simp_thms
        side_stopTencent side_startTencent side_stopMmx side_startMmx)
  note side = side_actions_after [OF side_recorder this]
  have run: "doReloadConf c s = seqs (upd (\<lambda>s. s\<lparr>pconf := c\<rparr>) #
      whenever (\<lambda>s. HasStaticSource (pconf s)) handlerReload # ?close # ?start # tail) s"
    by (simp add: doReloadConf_def Let_def tail_def)
  have "\<exists>e0. answered e0 = [] \<and>
      whenever (\<lambda>s. HasStaticSource (pconf s)) handlerReload ?s = Some (?s, e0)"
  proof (cases "HasStaticSource c")
    case True
    with handler obtain b where "source s = Some (HandlerSource b)" by blast
    with True show ?thesis
      by (intro exI [of _ "if b then [HandlerReload] else []"])
        (simp add: whenever_def handlerReload_def emit_def skip_def)
  next
    case False
    then show ?thesis by (intro exI [of _ "[]"]) (simp add: whenever_def skip_def)
  qed
  then obtain e0 where e0: "answered e0 = []"
    and hd: "\<And>Q. wp (whenever (\<lambda>s. HasStaticSource (pconf s)) handlerReload) Q ?s \<longleftrightarrow> Q ?s e0"
    by (auto simp: wp_def)
  have head: "wp (doReloadConf c) Q s \<longleftrightarrow>
      wp (seqs (?close # ?start # tail)) (\<lambda>s' e. Q s' (e0 @ e)) ?s" for Q
  proof -
    have "wp (doReloadConf c) Q s \<longleftrightarrow> wp (seqs (upd (\<lambda>s. s\<lparr>pconf := c\<rparr>) #
        whenever (\<lambda>s. HasStaticSource (pconf s)) handlerReload # ?close # ?start # tail)) Q s"
      by (simp only: wp_def run)
    also have "\<dots> \<longleftrightarrow> wp (whenever (\<lambda>s. HasStaticSource (pconf s)) handlerReload)
        (\<lambda>s1 e1. wp (seqs (?close # ?start # tail)) (\<lambda>s' e. Q s' (e1 @ e)) s1) ?s"
      unfolding wp_seqs_Cons [of "upd _"] wp_upd append_Nil
      by (simp only: wp_seqs_Cons [of "whenever (\<lambda>s. HasStaticSource (pconf s)) handlerReload"])
    finally show ?thesis by (simp only: hd)
  qed
  show ?thesis
  proof (cases "reload_crashes c s")
    case True
    then have "\<not> wp (seqs (?close # ?start # tail)) (\<lambda>_ _. True) ?s"
      by (auto simp: reload_crashes_def wp_rules closeRecorder_def wp_startRecording recordable_def)
    then have "\<not> wp (doReloadConf c) (\<lambda>_ _. True) s" unfolding head .
    with True show ?thesis by (cases "doReloadConf c s") (auto simp: wp_def)
  next
    case False
    then have "wp (seqs (?close # ?start # tail)) (\<lambda>s' e. side_frame ?s s' \<and> answered e = []) ?s"
      by (intro side) (auto simp: reload_crashes_def)
    then have "wp (seqs (?close # ?start # tail)) (\<lambda>s' e. post f [] s s' (e0 @ e) \<and> pconf s' = c) ?s"
    proof (rule wp_mono)
      fix s' e assume fr: "side_frame ?s s' \<and> answered e = []"
      then have "inv_core f s'" using side_frame_inv core1(1) by blast
      moreover note side_frameD [OF conjunct1 [OF fr], simplified]
      moreover from this have "inv_hold f s'" "held s' = held s"
        using core1(2) by (simp_all add: inv_hold_def held_def)
      ultimately show "post f [] s s' (e0 @ e) \<and> pconf s' = c"
        using fr e0 by (simp add: post_def path_inv_def)
    qed
    then have "wp (doReloadConf c) (\<lambda>s' e. post f [] s s' e \<and> pconf s' = c) s"
      by (simp only: head)
    with False show ?thesis by simp
  qed
qed

lemma wp_doReloadConf:
  assumes "path_inv f s" "pathConfCanBeUpdated (pconf s) c" "conf_ok c" "\<not> reload_crashes c s"
  shows "wp (doReloadConf c) (post f [] s) s"
  using wp_doReloadConf_conf [OF assms(1-3)] assms(4) by (auto elim: wp_mono)

text \<open>Requests that find no stream are put on hold, starting the machine when it is idle.\<close>

lemma wp_staticStart:
  assumes "path_inv f s" "stream s = None" "HasOnDemandStaticSource (pconf s)"
    and "\<And>s' e. path_inv f s' \<Longrightarrow> stream s' = None \<Longrightarrow> pconf s' = pconf s \<Longrightarrow>
      staticState s' = StWaitingReady \<Longrightarrow> held s' = held s \<Longrightarrow>
      describeRequestsOnHold s' = describeRequestsOnHold s \<Longrightarrow>
      readerAddRequestsOnHold s' = readerAddRequestsOnHold s \<Longrightarrow> answered e = [] \<Longrightarrow> Q s' e"
  shows "wp (whenever (\<lambda>s. staticState s = StInitial) (onDemandStaticSourceStart q)) Q s"
proof (cases "staticState s = StInitial")
  case True
  have core: "inv_core f s" "inv_hold f s" using assms(1) by (simp_all add: path_inv_def)
  have src: "HasStaticSource (pconf s)" "SourceOnDemand (pconf s)" "source s = Some (HandlerSource False)"
    using core(1) assms(3) True by (auto simp: HasOnDemandStaticSource_def inv_core_def inv_src_def)
  let ?s = "s\<lparr>source := Some (HandlerSource True), staticReadyTimer := True,
    staticState := StWaitingReady\<rparr>"
  have "inv_core f ?s"
    using core(1) True src assms(2,3) not_publisher [OF src(1)] by (auto simp: inv_defs)
  moreover have "inv_hold f ?s" using assms(2,3) by (simp add: inv_hold_def)
  ultimately show ?thesis
    using True src(3) assms(2)
    by (simp add: wp_rules onDemandStaticSourceStart_def wp_handlerStart assms(4) path_inv_def held_def)
next
  case False
  have "staticState s = StWaitingReady"
    using assms(1-3) False
    by (cases "staticState s") (auto simp: path_inv_def inv_core_def inv_static_def)
  with False assms show ?thesis by (simp add: wp_rules)
qed

lemma wp_pubStart:
  assumes "path_inv f s" "stream s = None" "HasOnDemandPublisher (pconf s)"
    and "\<And>s' e. path_inv f s' \<Longrightarrow> stream s' = None \<Longrightarrow> pconf s' = pconf s \<Longrightarrow>
      held s' = held s \<Longrightarrow> describeRequestsOnHold s' = describeRequestsOnHold s \<Longrightarrow>
      readerAddRequestsOnHold s' = readerAddRequestsOnHold s \<Longrightarrow> answered e = [] \<Longrightarrow> Q s' e"
  shows "wp (whenever (\<lambda>s. pubState s = StInitial) (onDemandPublisherStart q)) Q s"
proof (cases "pubState s = StInitial")
  case True
  have core: "inv_core f s" "inv_hold f s" using assms(1) by (simp_all add: path_inv_def)
  note run = pub_running [OF core(1) assms(3)]
  let ?s = "s\<lparr>onUnDemandHook := True, pubReadyTimer := True, pubState := StWaitingReady\<rparr>"
  have "inv_core f ?s" using core(1) True assms(2,3) run by (auto simp: inv_defs)
  moreover have "inv_hold f ?s" using core(2) by (simp add: inv_hold_def)
  ultimately show ?thesis
    using True assms(2)
    by (simp add: wp_rules onDemandPublisherStart_def assms(4) path_inv_def held_def)
next
  case False
  with assms show ?thesis by (simp add: wp_rules)
qed

lemma path_inv_hold_describe:
  assumes "path_inv f s" "stream s = None"
    "HasOnDemandStaticSource (pconf s) \<and> staticState s = StWaitingReady \<or>
     HasOnDemandPublisher (pconf s) \<and> \<not> HasOnDemandStaticSource (pconf s)"
  shows "path_inv f (s\<lparr>describeRequestsOnHold := ds\<rparr>)" "path_inv f (s\<lparr>readerAddRequestsOnHold := rs\<rparr>)"
proof -
  have "inv_core f (s\<lparr>describeRequestsOnHold := ds\<rparr>) = inv_core f s"
    "inv_core f (s\<lparr>readerAddRequestsOnHold := rs\<rparr>) = inv_core f s"
    by (simp_all add: inv_defs)
  with assms show "path_inv f (s\<lparr>describeRequestsOnHold := ds\<rparr>)"
    "path_inv f (s\<lparr>readerAddRequestsOnHold := rs\<rparr>)"
    by (auto simp: path_inv_def inv_hold_def)
qed

lemma post_answer: "path_inv f s \<Longrightarrow> answered e = [i] \<Longrightarrow> post f [i] s s e"
  by (simp add: post_def)

lemma wp_doDescribe:
  assumes inv: "path_inv f s"
  shows "wp (doDescribe req) (post f [dr_id req] s) s"
proof -
  let ?hold = "upd (\<lambda>s. s\<lparr>describeRequestsOnHold := describeRequestsOnHold s @ [req]\<rparr>)"
  consider (now) "source s = Some RedirectSource \<or> stream s \<noteq> None \<or>
      \<not> HasOnDemandStaticSource (pconf s) \<and> \<not> HasOnDemandPublisher (pconf s)"
    | (static) "source s \<noteq> Some RedirectSource" "stream s = None" "HasOnDemandStaticSource (pconf s)"
    | (pub) "source s \<noteq> Some RedirectSource" "stream s = None" "\<not> HasOnDemandStaticSource (pconf s)"
      "HasOnDemandPublisher (pconf s)"
    by blast
  then show ?thesis
  proof cases
    case now
    then have "\<exists>x. doDescribe req s = Some (s, [ResDescribe (dr_id req) x])"
      by (cases "Fallback (pconf s)") (auto simp: doDescribe_def emit_def)
    then show ?thesis using post_answer [OF inv] by (auto simp: wp_def)
  next
    case static
    have "wp (seqs [whenever (\<lambda>s. staticState s = StInitial) (onDemandStaticSourceStart (dr_query req)),
        ?hold]) (post f [dr_id req] s) s"
      unfolding wp_seqs_Cons
      by (rule wp_staticStart [OF inv static(2,3)])
        (use static(3) path_inv_hold_describe(1) in \<open>simp add: wp_rules post_def held_def\<close>)
    with static show ?thesis by (intro wp_eq [of "doDescribe req"]) (auto simp: doDescribe_def)
  next
    case pub
    have "wp (seqs [whenever (\<lambda>s. pubState s = StInitial) (onDemandPublisherStart (dr_query req)),
        ?hold]) (post f [dr_id req] s) s"
      unfolding wp_seqs_Cons
      by (rule wp_pubStart [OF inv pub(2,4)])
        (use pub(3,4) path_inv_hold_describe(1) in \<open>simp add: wp_rules post_def held_def\<close>)
    with pub show ?thesis by (intro wp_eq [of "doDescribe req"]) (auto simp: doDescribe_def)
  qed
qed

lemma wp_doAddReader:
  assumes inv: "path_inv f s"
  shows "wp (doAddReader req) (post f [rr_id req] s) s"
proof -
  let ?hold = "upd (\<lambda>s. s\<lparr>readerAddRequestsOnHold := readerAddRequestsOnHold s @ [req]\<rparr>)"
  consider (stream) "stream s \<noteq> None"
    | (static) "stream s = None" "HasOnDemandStaticSource (pconf s)"
    | (pub) "stream s = None" "\<not> HasOnDemandStaticSource (pconf s)" "HasOnDemandPublisher (pconf s)"
    | (none) "stream s = None" "\<not> HasOnDemandStaticSource (pconf s)"
      "\<not> HasOnDemandPublisher (pconf s)"
    by blast
  then show ?thesis
  proof cases
    case stream
    have "wp (addReaderPost req) (post f [rr_id req] s) s"
    proof (rule wp_mono [OF wp_addReaderPost])
      show "inv_core f s" "stream s \<noteq> None" using inv stream by (simp_all add: path_inv_def)
      fix s' e assume "inv_core f s' \<and> same_frame s s' \<and> answered e = [rr_id req]"
      then show "post f [rr_id req] s s' e"
        using inv by (auto simp: post_def path_inv_def inv_hold_def same_frame_def held_def)
    qed
    with stream show ?thesis by (intro wp_eq [of "doAddReader req"]) (auto simp: doAddReader_def)
  next
    case static
    have "wp (seqs [whenever (\<lambda>s. staticState s = StInitial) (onDemandStaticSourceStart (rr_query req)),
        ?hold]) (post f [rr_id req] s) s"
      unfolding wp_seqs_Cons
      by (rule wp_staticStart [OF inv static])
        (use static(2) path_inv_hold_describe(2) in \<open>simp add: wp_rules post_def held_def\<close>)
    with static show ?thesis by (intro wp_eq [of "doAddReader req"]) (auto simp: doAddReader_def)
  next
    case pub
    have "wp (seqs [whenever (\<lambda>s. pubState s = StInitial) (onDemandPublisherStart (rr_query req)),
        ?hold]) (post f [rr_id req] s) s"
      unfolding wp_seqs_Cons
      by (rule wp_pubStart [OF inv pub(1,3)])
        (use pub(2,3) path_inv_hold_describe(2) in \<open>simp add: wp_rules post_def held_def\<close>)
    with pub show ?thesis by (intro wp_eq [of "doAddReader req"]) (auto simp: doAddReader_def)
  next
    case none
    then have "doAddReader req s = Some (s, [ResAddReader (rr_id req) (Inl ErrNoStream)])"
      by (simp add: doAddReader_def emit_def)
    then show ?thesis using post_answer [OF inv] by (simp add: wp_def)
  qed
qed


text \<open>What a failure of the media layer leaves behind, and that it is covered by the weaker invariant.\<close>

lemma path_inv_weaken: "path_inv f s \<Longrightarrow> path_inv True s"
  by (auto simp: path_inv_def inv_hold_def inv_defs)

lemma failed_stream_inv:
  assumes inv: "path_inv f s" and no: "\<not> AlwaysAvailable (pconf s)" "Source (pconf s) \<noteq> ''redirect''"
    "\<And>p. source s \<noteq> Some (PublisherSource p)" "staticState s \<noteq> StReady" "staticState s \<noteq> StClosing"
  shows "path_inv True (new_stream False d s)"
    "r = recorder s \<or> r = Some (nextStream s) \<Longrightarrow>
     path_inv True ((new_stream True d s)\<lparr>availableTime := t1, onlineTime := t2, recorder := r,
       tencentForwarders := tf, mmxForwarders := mf, onNotReadyHook := True\<rparr>)"
proof -
  have c: "conf_ok (pconf s)" "inv_src s" "inv_static True s" "inv_pub True s" "inv_stream True s"
    "inv_readers True s" "inv_hold True s"
    using path_inv_weaken [OF inv] by (simp_all add: path_inv_def inv_core_def)
  have np: "source s = None" if "Source (pconf s) = ''publisher''"
    using c(2) that no(3) by (cases "source s"; cases "the (source s)") (auto simp: inv_src_def)
  have up: "inv_stream True (new_stream False d s)"
    using c(5) no np by (auto simp: inv_stream_def less_Suc_eq)
  have up': "inv_stream True ((new_stream True d s)\<lparr>availableTime := t1, onlineTime := t2, recorder := r,
       tencentForwarders := tf, mmxForwarders := mf, onNotReadyHook := True\<rparr>)"
    if "r = recorder s \<or> r = Some (nextStream s)"
    using c(5) no np that by (auto simp: inv_stream_def less_Suc_eq)
  show "path_inv True (new_stream False d s)"
    using c no up by (auto simp: path_inv_def inv_core_def inv_src_def inv_static_def inv_pub_def
        inv_readers_def inv_hold_def)
  show "path_inv True ((new_stream True d s)\<lparr>availableTime := t1, onlineTime := t2, recorder := r,
       tencentForwarders := tf, mmxForwarders := mf, onNotReadyHook := True\<rparr>)"
    if "r = recorder s \<or> r = Some (nextStream s)"
    using c no up' [OF that] by (auto simp: path_inv_def inv_core_def inv_src_def inv_static_def inv_pub_def
        inv_readers_def inv_hold_def)
qed

lemma wp_failed:
  assumes inv: "path_inv f s" and no: "\<not> AlwaysAvailable (pconf s)" "Source (pconf s) \<noteq> ''redirect''"
    "\<And>p. source s \<noteq> Some (PublisherSource p)" "staticState s \<noteq> StReady" "staticState s \<noteq> StClosing"
  shows "wp (setAvailable q d n err) (\<lambda>s' e. path_inv True s' \<and> held s' = held s \<and> answered e = []) s"
proof (cases err)
  case None
  have "wp (setAvailable q d n None) (\<lambda>s' e. path_inv True s' \<and> held s' = held s \<and> answered e = []) s"
    by (rule wp_setAvailable) (use failed_stream_inv(2) [OF inv no] in \<open>simp only: held_def; simp\<close>)
  with None show ?thesis by simp
next
  case (Some e)
  with failed_stream_inv(1) [OF inv no] show ?thesis
    by (simp add: wp_setAvailable_failed held_def)
qed

lemma always_no_hold:
  assumes "path_inv f s" "\<not> HasOnDemandStaticSource (pconf s)" "\<not> HasOnDemandPublisher (pconf s)"
  shows "describeRequestsOnHold s = []" "readerAddRequestsOnHold s = []" "held s = []"
  using assms by (auto simp: path_inv_def inv_hold_def held_def)

lemma always_available_facts:
  assumes "path_inv f s" "AlwaysAvailable (pconf s)"
  shows "stream s \<noteq> None" "stream_up (stream s)" "\<not> HasOnDemandStaticSource (pconf s)"
    "\<not> HasOnDemandPublisher (pconf s)"
  using assms
  by (auto simp: path_inv_def inv_core_def inv_stream_def conf_ok_def HasOnDemandStaticSource_def
      HasOnDemandPublisher_def dest: stream_up_some)

text \<open>The static source becomes ready and not ready.\<close>

lemma wp_becomeReady:
  assumes inv: "path_inv f s" and src: "HasStaticSource (pconf s)" "source s = Some (HandlerSource True)"
    and none: "\<not> AlwaysAvailable (pconf s)" "\<not> f \<Longrightarrow> stream s = None"
      "HasOnDemandStaticSource (pconf s) \<Longrightarrow> staticState s = StWaitingReady"
  shows "wp (seqs [setAvailable q d n None,
      whenever (\<lambda>s. AlwaysAvailable (pconf s)) (upd (\<lambda>s. s\<lparr>onlineTime := m\<rparr>)),
      whenever (\<lambda>s. HasOnDemandStaticSource (pconf s))
        (seqs [upd (\<lambda>s. s\<lparr>staticReadyTimer := False\<rparr>), onDemandStaticSourceScheduleClose])])
    (\<lambda>s' e. inv_core f s' \<and> stream s' \<noteq> None \<and> held s' = held s \<and> answered e = []) s"
proof -
  have c: "conf_ok (pconf s)" "inv_src s" "inv_static f s" "inv_pub f s" "inv_stream f s" "inv_readers f s"
    using inv by (simp_all add: path_inv_def inv_core_def)
  note np = not_publisher [OF src(1)]
  have pub: "pubState s = StInitial"
    using c(1,4) np by (auto simp: inv_pub_def conf_ok_def HasOnDemandPublisher_def)
  have idle: "readers s = []" "recorder s = None" if "\<not> f"
    using c(5) none(2) [OF that] by (cases "recorder s"; simp add: inv_stream_def)+
  have initial: "staticState s = StInitial" if "\<not> HasOnDemandStaticSource (pconf s)"
    using c(3) that by (auto simp: inv_static_def)
  show ?thesis
    unfolding wp_seqs_Cons
  proof (rule wp_setAvailable)
    fix t1 t2 r tf mf e
    assume e: "answered e = []" and r: "r = recorder s \<or> r = Some (nextStream s)"
    let ?s1 = "(new_stream True d s)\<lparr>availableTime := t1, onlineTime := t2, recorder := r,
      tencentForwarders := tf, mmxForwarders := mf, onNotReadyHook := True\<rparr>"
    let ?s2 = "?s1\<lparr>staticReadyTimer := False, staticCloseTimer := True, staticState := StClosing\<rparr>"
    have str: "inv_stream f ?s1" using none np idle(2) r c(5) by (auto simp: inv_stream_def less_Suc_eq)
    have "inv_core f ?s2" if od: "HasOnDemandStaticSource (pconf s)"
    proof -
      have "inv_src ?s2" using src np by (simp add: inv_src_def)
      moreover have "inv_static f ?s2" using od by (simp add: inv_static_def)
      moreover have "inv_pub f ?s2" using c(4) pub by (simp add: inv_pub_def)
      moreover have "inv_stream f ?s2" using str by (simp add: inv_stream_def)
      moreover have "inv_readers f ?s2" using c(6) idle pub by (auto simp: inv_readers_def)
      ultimately show ?thesis using c(1) by (simp add: inv_core_def)
    qed
    moreover have "inv_core f ?s1" if od: "\<not> HasOnDemandStaticSource (pconf s)"
    proof -
      have "inv_src ?s1" using c(2) np by (simp add: inv_src_def)
      moreover have "inv_static f ?s1" using c(3) od by (simp add: inv_static_def)
      moreover have "inv_pub f ?s1" using c(4) pub by (simp add: inv_pub_def)
      moreover have "inv_readers f ?s1"
        using c(6) idle initial [OF od] pub by (auto simp: inv_readers_def)
      ultimately show ?thesis using c(1) str by (simp add: inv_core_def)
    qed
    ultimately show "wp (whenever (\<lambda>s. AlwaysAvailable (pconf s)) (upd (\<lambda>s. s\<lparr>onlineTime := m\<rparr>)))
        (\<lambda>s1 e1. wp (whenever (\<lambda>s. HasOnDemandStaticSource (pconf s))
          (seqs [upd (\<lambda>s. s\<lparr>staticReadyTimer := False\<rparr>), onDemandStaticSourceScheduleClose]))
          (\<lambda>s1 e1a. wp (seqs []) (\<lambda>s2 e2. inv_core f s2 \<and> stream s2 \<noteq> None \<and> held s2 = held s \<and>
            answered (e @ e1 @ e1a @ e2) = []) s1) s1) ?s1"
      using e none(1) by (simp add: wp_rules onDemandStaticSourceScheduleClose_def held_def)
  qed
qed

text \<open>The media layer refuses a stream: only on paths that are not always available it leaves a trace.\<close>

fun media_fails :: "path_conf \<Rightarrow> path_event \<Rightarrow> bool" where
  "media_fails c (EvSetReady req) \<longleftrightarrow>
     \<not> AlwaysAvailable c \<and> (sr_streamErr req \<noteq> None \<or> sr_subErr req \<noteq> None)"
| "media_fails c (EvAddPublisher req) \<longleftrightarrow>
     \<not> AlwaysAvailable c \<and> (pr_streamErr req \<noteq> None \<or> pr_subErr req \<noteq> None)"
| "media_fails c ev \<longleftrightarrow> False"

lemma wp_doSourceStaticSetReady:
  assumes inv: "path_inv f s" and src: "HasStaticSource (pconf s)" "source s = Some (HandlerSource True)"
    and ok: "\<not> AlwaysAvailable (pconf s) \<Longrightarrow>
      (\<not> f \<longrightarrow> stream s = None) \<and> (HasOnDemandStaticSource (pconf s) \<longrightarrow> staticState s = StWaitingReady)"
  shows "wp (doSourceStaticSetReady req) (post (f \<or> media_fails (pconf s) (EvSetReady req)) [] s) s"
proof (cases "AlwaysAvailable (pconf s)")
  case True
  have core: "inv_core f s" using inv by (simp add: path_inv_def)
  note av = always_available_facts [OF inv True]
  note hold = always_no_hold [OF inv av(3,4)]
  show ?thesis
  proof (cases "sr_subErr req")
    case None
    let ?s = "s\<lparr>onlineTime := sr_now req\<rparr>"
    have "inv_core f ?s" using core by (simp add: inv_defs)
    from wp_consumeOnHoldRequests [OF this, simplified, OF av(1) [simplified]]
    have "wp consumeOnHoldRequests
        (\<lambda>s' e. post f [] s s' (e @ [ResSetReady (Inr (stream_ref s'))])) ?s"
      by (rule wp_mono) (use hold in \<open>auto simp: post_def held_def\<close>)
    then have "wp (seqs [upd (\<lambda>s. s\<lparr>onlineTime := sr_now req\<rparr>), consumeOnHoldRequests,
        (\<lambda>s. emit (ResSetReady (Inr (stream_ref s))) s)]) (post f [] s) s"
      by (simp add: wp_rules)
    then have "wp (doSourceStaticSetReady req) (post f [] s) s"
      by (rule wp_eq [rotated])
        (use True av(3) None in \<open>simp add: doSourceStaticSetReady_def seqs.simps andthen_def
          whenever_def skip_def upd_def split: option.splits\<close>)
    with True show ?thesis by simp
  next
    case (Some e)
    with True inv show ?thesis
      by (simp add: wp_def doSourceStaticSetReady_def seqs.simps andthen_def skip_def emit_def post_def)
  qed
next
  case False
  note ok = ok [OF False]
  show ?thesis
  proof (cases "sr_streamErr req = None \<and> sr_subErr req = None")
    case True
    let ?pre = "[setAvailable '''' (sr_desc req) (sr_now req) None,
        whenever (\<lambda>s. AlwaysAvailable (pconf s)) (upd (\<lambda>s. s\<lparr>onlineTime := sr_now req\<rparr>)),
        whenever (\<lambda>s. HasOnDemandStaticSource (pconf s))
          (seqs [upd (\<lambda>s. s\<lparr>staticReadyTimer := False\<rparr>), onDemandStaticSourceScheduleClose])]"
    have "wp (seqs ?pre) (\<lambda>s1 e1. wp consumeOnHoldRequests
        (\<lambda>s' e. post f [] s s' (e1 @ e @ [ResSetReady (Inr (stream_ref s'))])) s1) s"
    proof (rule wp_mono [OF wp_becomeReady [OF inv src False]])
      show "stream s = None" if "\<not> f" using ok that by simp
      show "staticState s = StWaitingReady" if "HasOnDemandStaticSource (pconf s)" using ok that by simp
      fix s1 e1
      assume s1: "inv_core f s1 \<and> stream s1 \<noteq> None \<and> held s1 = held s \<and> answered e1 = []"
      then have "wp consumeOnHoldRequests (\<lambda>s' e. path_inv f s' \<and> pconf s' = pconf s1 \<and>
          source s' = source s1 \<and> stream s' = stream s1 \<and> held s' = [] \<and> answered e = held s1) s1"
        by (intro wp_consumeOnHoldRequests) auto
      then show "wp consumeOnHoldRequests
          (\<lambda>s' e. post f [] s s' (e1 @ e @ [ResSetReady (Inr (stream_ref s'))])) s1"
        by (rule wp_mono) (use s1 in \<open>auto simp: post_def\<close>)
    qed
    then have "wp (seqs (?pre @ [consumeOnHoldRequests, \<lambda>s. emit (ResSetReady (Inr (stream_ref s))) s]))
        (post f [] s) s"
      by (simp add: wp_seqs_Cons wp_seqs_Nil wp_emit_state)
    then have "wp (doSourceStaticSetReady req) (post f [] s) s"
      by (rule wp_eq [rotated]) (use False True in \<open>simp add: doSourceStaticSetReady_def\<close>)
    with True show ?thesis by simp
  next
    case err: False
    have "staticState s \<noteq> StReady" "staticState s \<noteq> StClosing"
      using ok inv by (auto simp: path_inv_def inv_core_def inv_static_def)
    then have "wp (setAvailable '''' (sr_desc req) (sr_now req) (sr_streamErr req))
        (\<lambda>s' e. path_inv True s' \<and> held s' = held s \<and> answered e = []) s"
      by (intro wp_failed [OF inv False]) (use src not_publisher [OF src(1)] in simp_all)
    then have "wp (seqs [setAvailable '''' (sr_desc req) (sr_now req) (sr_streamErr req),
        emit (ResSetReady (Inl (ErrMedia x)))]) (post True [] s) s" for x
      unfolding wp_seqs_Cons wp_seqs_Nil wp_emit by (rule wp_mono) (simp add: post_def)
    then have "wp (doSourceStaticSetReady req) (post True [] s) s"
      using err False by (cases "sr_streamErr req"; cases "sr_subErr req")
        (auto simp: doSourceStaticSetReady_def wp_def)
    with err False show ?thesis by simp
  qed
qed

lemma wp_doSourceStaticSetNotReady:
  assumes inv: "path_inv f s" and src: "HasStaticSource (pconf s)" "source s = Some (HandlerSource True)"
    and ok: "\<not> AlwaysAvailable (pconf s) \<Longrightarrow>
      stream_up (stream s) \<and> (HasOnDemandStaticSource (pconf s) \<longrightarrow> staticState s \<noteq> StWaitingReady)"
  shows "wp (doSourceStaticSetNotReady False) (post f [] s) s"
proof (cases "AlwaysAvailable (pconf s)")
  case True
  note av = always_available_facts [OF inv True]
  show ?thesis
    using True av inv by (simp add: doSourceStaticSetNotReady_def wp_rules wp_startOffline post_def)
next
  case False
  have c: "conf_ok (pconf s)" "inv_src s" "inv_static f s" "inv_pub f s" "inv_stream f s" "inv_readers f s"
    and core: "inv_core f s" using inv by (simp_all add: path_inv_def inv_core_def)
  note np = not_publisher [OF src(1)]
  have st: "onNotReadyHook s" "distinct (readers s)"
    using c(5,6) ok [OF False] by (simp_all add: inv_stream_def inv_readers_def)
  have hold: "describeRequestsOnHold s = []" "readerAddRequestsOnHold s = []" "held s = []"
    using inv ok [OF False] np c(1)
    by (auto simp: path_inv_def inv_hold_def held_def conf_ok_def HasOnDemandPublisher_def)
  have pub: "pubState s = StInitial"
    using c(1,4) np by (auto simp: inv_pub_def conf_ok_def HasOnDemandPublisher_def)
  let ?s = "s\<lparr>readers := [], recorder := None, tencentForwarders := [], mmxForwarders := [],
    stream := None\<rparr>"
  have str: "inv_stream f ?s" using False np c(5) by (simp add: inv_stream_def)
  show ?thesis
  proof (cases "HasOnDemandStaticSource (pconf s)")
    case True
    have ni: "staticState s \<noteq> StInitial"
      using c(2) src True by (auto simp: inv_src_def HasOnDemandStaticSource_def)
    note run = static_running [OF core ni]
    let ?t = "?s\<lparr>staticCloseTimer := False, staticState := StInitial, source := Some (HandlerSource False)\<rparr>"
    have nr: "\<not> staticReadyTimer s" "staticState s \<noteq> StClosing \<Longrightarrow> \<not> staticCloseTimer s"
      using c(3) ok [OF False] True by (auto simp: inv_static_def)
    have "inv_src ?t" using run np by (simp add: inv_src_def)
    moreover have "inv_static f ?t" using nr by (simp add: inv_static_def)
    moreover have "inv_pub f ?t" using c(4) pub by (simp add: inv_pub_def)
    moreover have "inv_stream f ?t" using str np by (simp add: inv_stream_def)
    moreover have "inv_readers f ?t" using c(6) pub by (auto simp: inv_readers_def)
    ultimately have t: "path_inv f ?t" using c(1) hold by (simp add: path_inv_def inv_core_def inv_hold_def)
    have same: "?s\<lparr>staticState := StInitial, source := Some (HandlerSource False)\<rparr> = ?t"
      if "staticState s \<noteq> StClosing" using nr(2) [OF that] by simp
    have stop: "wp (onDemandStaticSourceStop ''an error occurred'')
        (\<lambda>s' e. path_inv f s' \<and> held s' = held ?s \<and> answered e = []) ?s"
    proof (cases "staticState s = StClosing")
      case True
      with t run(1) show ?thesis
        by (simp add: onDemandStaticSourceStop_def wp_rules wp_handlerStop held_def)
    next
      case False
      have "path_inv f (?s\<lparr>staticState := StInitial, source := Some (HandlerSource False)\<rparr>)"
        by (subst same [OF False]) (rule t)
      with False run(1) show ?thesis
        by (simp add: onDemandStaticSourceStop_def wp_rules wp_handlerStop held_def)
    qed
    have "wp setNotAvailable (\<lambda>s1 e1. wp (whenever (\<lambda>s. HasOnDemandStaticSource (pconf s) \<and>
          staticState s \<noteq> StInitial) (onDemandStaticSourceStop ''an error occurred''))
        (\<lambda>s2 e2. post f [] s s2 (e1 @ [ResDone] @ e2)) s1) s"
    proof (rule wp_setNotAvailable [OF st(2,1)])
      fix e assume e: "answered e = []"
      have "wp (onDemandStaticSourceStop ''an error occurred'')
          (\<lambda>s2 e2. post f [] s s2 (e @ [ResDone] @ e2)) ?s"
        by (rule wp_mono [OF stop]) (use hold e in \<open>simp add: post_def held_def\<close>)
      then show "wp (whenever (\<lambda>s. HasOnDemandStaticSource (pconf s) \<and> staticState s \<noteq> StInitial)
          (onDemandStaticSourceStop ''an error occurred''))
          (\<lambda>s2 e2. post f [] s s2 (e @ [ResDone] @ e2)) ?s"
        using True ni by (simp add: wp_rules)
    qed
    then show ?thesis
      using False
      by (simp add: doSourceStaticSetNotReady_def wp_seqs_Cons wp_seqs_Nil wp_emit wp_if_state)
  next
    case no: False
    have ini: "staticState s = StInitial" using c(3) no by (auto simp: inv_static_def)
    have "inv_src ?s" using c(2) by (simp add: inv_src_def)
    moreover have "inv_static f ?s" using c(3) ini by (simp add: inv_static_def)
    moreover have "inv_pub f ?s" using c(4) pub by (simp add: inv_pub_def)
    moreover have "inv_readers f ?s" using c(6) pub ini by (auto simp: inv_readers_def)
    ultimately have "path_inv f ?s"
      using c(1) str hold by (simp add: path_inv_def inv_core_def inv_hold_def)
    then show ?thesis
      using False no st hold
      by (simp add: doSourceStaticSetNotReady_def wp_rules)
        (rule wp_setNotAvailable; simp add: wp_rules post_def held_def)
  qed
qed


text \<open>Publishers.\<close>

lemma publisher_source:
  assumes "inv_core f s" "source s = Some (PublisherSource p)"
  shows "Source (pconf s) = ''publisher''"
  using assms by (auto simp: inv_core_def inv_src_def HasStaticSource_def)

lemma wp_executeRemovePublisher:
  assumes inv: "path_inv f s" and src: "source s = Some (PublisherSource p)"
  shows "wp (executeRemovePublisher False)
    (\<lambda>s' e. path_inv f s' \<and> source s' = None \<and> pconf s' = pconf s \<and> held s' = held s \<and> answered e = []) s"
proof -
  have core: "inv_core f s" and hold: "inv_hold f s" using inv by (simp_all add: path_inv_def)
  have pub: "Source (pconf s) = ''publisher''" by (rule publisher_source [OF core src])
  then have ns: "\<not> HasStaticSource (pconf s)" "\<not> HasOnDemandStaticSource (pconf s)"
    by (simp_all add: HasStaticSource_def HasOnDemandStaticSource_def)
  have c: "conf_ok (pconf s)" "inv_src s" "inv_static f s" "inv_pub f s" "inv_stream f s" "inv_readers f s"
    using core by (simp_all add: inv_core_def)
  have st: "stream_up (stream s)" "onNotReadyHook s" "distinct (readers s)"
    using c(5,6) src pub by (simp_all add: inv_stream_def inv_readers_def)
  show ?thesis
  proof (cases "AlwaysAvailable (pconf s)")
    case True
    let ?s = "s\<lparr>source := None\<rparr>"
    have "inv_core f ?s"
      using c pub ns True by (auto simp: inv_core_def inv_src_def inv_static_def inv_pub_def
          inv_stream_def inv_readers_def)
    then have "path_inv f ?s" using hold by (simp add: path_inv_def inv_hold_def)
    then show ?thesis using True stream_up_some [OF st(1)]
      by (simp add: executeRemovePublisher_def wp_rules wp_startOffline held_def)
  next
    case False
    let ?s = "s\<lparr>readers := [], recorder := None, tencentForwarders := [], mmxForwarders := [],
      stream := None, source := None\<rparr>"
    have "inv_src ?s" using pub ns by (simp add: inv_src_def)
    moreover have "inv_static f ?s" using c(3) ns by (auto simp: inv_static_def)
    moreover have "inv_pub f ?s" using c(4) by (simp add: inv_pub_def)
    moreover have "inv_stream f ?s" using False c(5) by (simp add: inv_stream_def)
    moreover have "inv_readers f ?s" using c(3,6) ns by (auto simp: inv_readers_def inv_static_def)
    ultimately have "path_inv f ?s" using c(1) hold ns by (auto simp: path_inv_def inv_core_def inv_hold_def)
    then show ?thesis using False st
      by (simp add: executeRemovePublisher_def wp_rules)
        (rule wp_setNotAvailable; simp add: held_def)
  qed
qed

lemma wp_doRemovePublisher:
  assumes inv: "path_inv f s"
  shows "wp (doRemovePublisher author False) (post f [] s) s"
proof (cases "source s = Some (PublisherSource author)")
  case True
  have "wp (executeRemovePublisher False) (\<lambda>s' e. post f [] s s' (e @ [ResDone])) s"
    by (rule wp_mono [OF wp_executeRemovePublisher [OF inv True]]) (simp add: post_def)
  with True show ?thesis by (simp add: doRemovePublisher_def wp_rules)
next
  case False
  with inv show ?thesis by (simp add: doRemovePublisher_def wp_rules post_def)
qed

lemma wp_publish:
  assumes inv: "path_inv f s" and src: "source s = None" "Source (pconf s) = ''publisher''"
  shows "wp (seqs [if AlwaysAvailable (pconf s) then skip else setAvailable q d n None,
      upd (\<lambda>s. s\<lparr>source := Some (PublisherSource p)\<rparr>),
      whenever (\<lambda>s. AlwaysAvailable (pconf s)) (upd (\<lambda>s. s\<lparr>onlineTime := m\<rparr>)),
      whenever (\<lambda>s. HasOnDemandPublisher (pconf s) \<and> pubState s \<noteq> StInitial)
        (seqs [upd (\<lambda>s. s\<lparr>pubReadyTimer := False\<rparr>), onDemandPublisherScheduleClose])])
    (\<lambda>s' e. inv_core f s' \<and> stream s' \<noteq> None \<and> held s' = held s \<and> answered e = []) s"
proof -
  have c: "conf_ok (pconf s)" "inv_src s" "inv_static f s" "inv_pub f s" "inv_stream f s" "inv_readers f s"
    using inv by (simp_all add: path_inv_def inv_core_def)
  have ns: "\<not> HasStaticSource (pconf s)" "\<not> HasOnDemandStaticSource (pconf s)" "staticState s = StInitial"
    using src(2) c(3) by (auto simp: HasStaticSource_def HasOnDemandStaticSource_def inv_static_def)
  have ini: "pubState s = StInitial" if "\<not> HasOnDemandPublisher (pconf s)"
    using c(4) that by (auto simp: inv_pub_def)
  show ?thesis
  proof (cases "AlwaysAvailable (pconf s)")
    case True
    note av = always_available_facts [OF inv True]
    let ?s = "s\<lparr>source := Some (PublisherSource p), onlineTime := m\<rparr>"
    have "inv_core f ?s"
      using c src ns True by (simp add: inv_core_def inv_src_def inv_static_def inv_pub_def
          inv_stream_def inv_readers_def)
    then show ?thesis using True av by (simp add: wp_rules held_def)
  next
    case False
    have idle: "readers s = []" "recorder s = None" if "\<not> f"
      using c(5) src False that by (cases "recorder s"; auto simp: inv_stream_def)+
    have "wp (setAvailable q d n None)
     (\<lambda>s1 e1. wp (whenever (\<lambda>s. HasOnDemandPublisher (pconf s) \<and> pubState s \<noteq> StInitial)
        (seqs [upd (\<lambda>s. s\<lparr>pubReadyTimer := False\<rparr>), onDemandPublisherScheduleClose]))
        (\<lambda>s' e. inv_core f s' \<and> stream s' \<noteq> None \<and> held s' = held s \<and> answered (e1 @ e) = [])
        (s1\<lparr>source := Some (PublisherSource p)\<rparr>) \<and> pconf s1 = pconf s) s"
    proof (rule wp_setAvailable)
      fix t1 t2 r tf mf e
      assume e: "answered e = []" and r: "r = recorder s \<or> r = Some (nextStream s)"
      let ?s1 = "(new_stream True d s)\<lparr>availableTime := t1, onlineTime := t2, recorder := r,
        tencentForwarders := tf, mmxForwarders := mf, onNotReadyHook := True\<rparr>"
      let ?s2 = "?s1\<lparr>source := Some (PublisherSource p)\<rparr>"
      let ?s3 = "?s2\<lparr>pubReadyTimer := False, pubCloseTimer := True, pubState := StClosing\<rparr>"
      have str: "inv_stream f ?s2" "inv_src ?s2" "inv_static f ?s2"
        using src(2) False idle(2) r ns c(3,5)
        by (auto simp: inv_stream_def inv_src_def inv_static_def less_Suc_eq)
      then have str3: "inv_stream f ?s3" "inv_src ?s3" "inv_static f ?s3"
        by (simp_all add: inv_stream_def inv_src_def inv_static_def)
      have "inv_core f ?s3" if "HasOnDemandPublisher (pconf s)" "pubState s \<noteq> StInitial"
      proof -
        have "inv_pub f ?s3" using c(4) that by (simp add: inv_pub_def)
        moreover have "inv_readers f ?s3" using c(6) idle ns by (auto simp: inv_readers_def)
        ultimately show ?thesis using c(1) str3 by (simp add: inv_core_def)
      qed
      moreover have "inv_core f ?s2" if "\<not> (HasOnDemandPublisher (pconf s) \<and> pubState s \<noteq> StInitial)"
      proof -
        have "pubState s = StInitial" using that ini by auto
        then have "inv_pub f ?s2" "inv_readers f ?s2"
          using c(4,6) idle ns by (auto simp: inv_pub_def inv_readers_def)
        then show ?thesis using c(1) str by (simp add: inv_core_def)
      qed
      ultimately show "wp (whenever (\<lambda>s. HasOnDemandPublisher (pconf s) \<and> pubState s \<noteq> StInitial)
          (seqs [upd (\<lambda>s. s\<lparr>pubReadyTimer := False\<rparr>), onDemandPublisherScheduleClose]))
          (\<lambda>s' e'. inv_core f s' \<and> stream s' \<noteq> None \<and> held s' = held s \<and> answered (e @ e') = []) ?s2 \<and>
          pconf ?s1 = pconf s"
        using e by (simp add: wp_rules onDemandPublisherScheduleClose_def held_def)
    qed
    then have "wp (setAvailable q d n None)
      (\<lambda>s1 e1. wp (seqs [upd (\<lambda>s. s\<lparr>source := Some (PublisherSource p)\<rparr>),
        whenever (\<lambda>s. AlwaysAvailable (pconf s)) (upd (\<lambda>s. s\<lparr>onlineTime := m\<rparr>)),
        whenever (\<lambda>s. HasOnDemandPublisher (pconf s) \<and> pubState s \<noteq> StInitial)
          (seqs [upd (\<lambda>s. s\<lparr>pubReadyTimer := False\<rparr>), onDemandPublisherScheduleClose])])
        (\<lambda>s' e. inv_core f s' \<and> stream s' \<noteq> None \<and> held s' = held s \<and> answered (e1 @ e) = []) s1) s"
      by (rule wp_mono)
        (use False in \<open>auto simp: wp_rules onDemandPublisherScheduleClose_def split: if_splits\<close>)
    with False show ?thesis by (simp add: wp_seqs_Cons)
  qed
qed

lemma wp_closeExistingPublisher:
  assumes inv: "path_inv f s" and pub: "Source (pconf s) = ''publisher''"
  shows "wp (closeExistingPublisher False)
    (\<lambda>s' e. path_inv f s' \<and> source s' = None \<and> pconf s' = pconf s \<and> held s' = held s \<and> answered e = []) s"
proof (cases "source s")
  case None
  then show ?thesis using inv by (simp add: wp_def closeExistingPublisher_def skip_def)
next
  case (Some src)
  have "inv_src s" using inv by (simp add: path_inv_def inv_core_def)
  then obtain p where p: "source s = Some (PublisherSource p)"
    using Some pub by (cases src) (auto simp: inv_src_def)
  have "wp (executeRemovePublisher False) (\<lambda>s' e. path_inv f s' \<and> source s' = None \<and> pconf s' = pconf s \<and>
      held s' = held s \<and> answered (ClosePublisher p # e) = []) s"
    by (rule wp_mono [OF wp_executeRemovePublisher [OF inv p]]) simp
  then have "wp (seqs [emit (ClosePublisher p), executeRemovePublisher False])
      (\<lambda>s' e. path_inv f s' \<and> source s' = None \<and> pconf s' = pconf s \<and> held s' = held s \<and> answered e = []) s"
    by (simp add: wp_seqs_Cons wp_seqs_Nil wp_emit)
  then show ?thesis by (rule wp_eq [rotated]) (simp add: closeExistingPublisher_def p)
qed

lemma wp_addPublisher_accept:
  assumes inv: "path_inv f s" and pub: "Source (pconf s) = ''publisher''" and p: "source s = None"
  shows "wp (seqs [if AlwaysAvailable (pconf s) then skip else setAvailable q d n None,
      upd (\<lambda>s. s\<lparr>source := Some (PublisherSource p)\<rparr>),
      whenever (\<lambda>s. AlwaysAvailable (pconf s)) (upd (\<lambda>s. s\<lparr>onlineTime := m\<rparr>)),
      whenever (\<lambda>s. HasOnDemandPublisher (pconf s) \<and> pubState s \<noteq> StInitial)
        (seqs [upd (\<lambda>s. s\<lparr>pubReadyTimer := False\<rparr>), onDemandPublisherScheduleClose]),
      consumeOnHoldRequests,
      (\<lambda>s. emit (ResAddPublisher i (Inr (stream_ref s))) s)]) (post f [i] s) s"
    (is "wp (seqs [?a, ?b, ?c, ?d, _, _]) _ _")
proof -
  have "wp (seqs [?a, ?b, ?c, ?d]) (\<lambda>s1 e1. wp consumeOnHoldRequests
      (\<lambda>s' e. post f [i] s s' (e1 @ e @ [ResAddPublisher i (Inr (stream_ref s'))])) s1) s"
  proof (rule wp_mono [OF wp_publish [OF inv p pub]])
    fix s1 e1
    assume s1: "inv_core f s1 \<and> stream s1 \<noteq> None \<and> held s1 = held s \<and> answered e1 = []"
    then have "wp consumeOnHoldRequests (\<lambda>s' e. path_inv f s' \<and> pconf s' = pconf s1 \<and>
        source s' = source s1 \<and> stream s' = stream s1 \<and> held s' = [] \<and> answered e = held s1) s1"
      by (intro wp_consumeOnHoldRequests) auto
    then show "wp consumeOnHoldRequests
        (\<lambda>s' e. post f [i] s s' (e1 @ e @ [ResAddPublisher i (Inr (stream_ref s'))])) s1"
      by (rule wp_mono) (use s1 in \<open>auto simp: post_def\<close>)
  qed
  then show ?thesis by (simp add: wp_seqs_Cons wp_seqs_Nil wp_emit_state)
qed

lemma post_trans:
  "held s1 = held s \<Longrightarrow> answered e1 = [] \<Longrightarrow> post f i s1 s2 e2 \<Longrightarrow> post f i s s2 (e1 @ e2)"
  by (simp add: post_def)

lemma wp_refusePublisher:
  assumes inv: "path_inv f s" and pub: "Source (pconf s) = ''publisher''" "source s = None"
  shows "wp (seqs [if AlwaysAvailable (pconf s) then skip else setAvailable q d n err,
      emit (ResAddPublisher i (Inl x))]) (post (f \<or> \<not> AlwaysAvailable (pconf s)) [i] s) s"
proof (cases "AlwaysAvailable (pconf s)")
  case True
  with inv show ?thesis by (simp add: wp_rules post_def)
next
  case False
  have "staticState s = StInitial"
    using inv pub(1) by (auto simp: path_inv_def inv_core_def inv_static_def HasOnDemandStaticSource_def
        HasStaticSource_def)
  then have "wp (setAvailable q d n err) (\<lambda>s' e. path_inv True s' \<and> held s' = held s \<and> answered e = []) s"
    by (intro wp_failed [OF inv False]) (use pub in simp_all)
  then have "wp (seqs [setAvailable q d n err, emit (ResAddPublisher i (Inl x))]) (post True [i] s) s"
    unfolding wp_seqs_Cons wp_seqs_Nil wp_emit by (rule wp_mono) (simp add: post_def)
  with False show ?thesis by simp
qed

lemma wp_after_close:
  assumes inv: "path_inv f s" "Source (pconf s) = ''publisher''"
    and rest: "\<And>s1. path_inv f s1 \<Longrightarrow> source s1 = None \<Longrightarrow> pconf s1 = pconf s \<Longrightarrow> wp (seqs as) (post g ids s1) s1"
  shows "wp (seqs (closeExistingPublisher False # as)) (post g ids s) s"
proof -
  have "wp (closeExistingPublisher False) (\<lambda>s1 e1. wp (seqs as) (\<lambda>s2 e2. post g ids s s2 (e1 @ e2)) s1) s"
  proof (rule wp_mono [OF wp_closeExistingPublisher [OF inv]])
    fix s1 e1
    assume s1: "path_inv f s1 \<and> source s1 = None \<and> pconf s1 = pconf s \<and> held s1 = held s \<and> answered e1 = []"
    then have "wp (seqs as) (post g ids s1) s1" by (intro rest) simp_all
    then show "wp (seqs as) (\<lambda>s2 e2. post g ids s s2 (e1 @ e2)) s1"
      by (rule wp_mono) (use s1 post_trans in auto)
  qed
  then show ?thesis by (simp only: wp_seqs_Cons)
qed

lemma wp_doAddPublisher:
  assumes inv: "path_inv f s" and off: "\<not> pr_offlineErr req"
  shows "wp (doAddPublisher req) (post (f \<or> media_fails (pconf s) (EvAddPublisher req)) [pr_id req] s) s"
proof -
  let ?g = "f \<or> media_fails (pconf s) (EvAddPublisher req)"
  have weak: "path_inv ?g s" using inv path_inv_weaken [OF inv] by (cases f; cases ?g) auto
  consider (no) "Source (pconf s) \<noteq> ''publisher'' \<or> source s \<noteq> None \<and> \<not> OverridePublisher (pconf s)"
    | (go) "Source (pconf s) = ''publisher''" "\<not> (source s \<noteq> None \<and> \<not> OverridePublisher (pconf s))"
    by blast
  then show ?thesis
  proof cases
    case no
    then have "\<exists>x. doAddPublisher req s = Some (s, [ResAddPublisher (pr_id req) x])"
      by (auto simp: doAddPublisher_def emit_def)
    then show ?thesis using post_answer [OF weak, of "[ResAddPublisher (pr_id req) x]" "pr_id req" for x]
      by (auto simp: wp_def)
  next
    case go
    let ?mk = "if AlwaysAvailable (pconf s) then skip
      else setAvailable (pr_query req) (pr_desc req) (pr_now req) (pr_streamErr req)"
    have refuse: "wp (seqs [closeExistingPublisher False, ?mk, emit (ResAddPublisher (pr_id req) (Inl x))])
        (post (f \<or> \<not> AlwaysAvailable (pconf s)) [pr_id req] s) s" for x
      by (rule wp_after_close [OF inv go(1)])
        (use wp_refusePublisher [of f _ "pr_query req"] go(1) in metis)
    consider (fail) x where "(if AlwaysAvailable (pconf s) then None else pr_streamErr req) = Some x"
      | (sub) x where "(if AlwaysAvailable (pconf s) then None else pr_streamErr req) = None"
          "pr_subErr req = Some x"
      | (up) "(if AlwaysAvailable (pconf s) then None else pr_streamErr req) = None" "pr_subErr req = None"
      by (cases "if AlwaysAvailable (pconf s) then None else pr_streamErr req"; cases "pr_subErr req") auto
    then show ?thesis
    proof cases
      case fail
      then have g: "?g = (f \<or> \<not> AlwaysAvailable (pconf s))" by (auto split: if_splits)
      show ?thesis
        unfolding g
        by (rule wp_eq [OF _ refuse [of "ErrMedia x"]]) (use fail go off in \<open>auto simp: doAddPublisher_def\<close>)
    next
      case sub
      then have g: "?g = (f \<or> \<not> AlwaysAvailable (pconf s))" by auto
      show ?thesis
        unfolding g
        by (rule wp_eq [OF _ refuse [of "ErrMedia x"]]) (use sub go off in \<open>auto simp: doAddPublisher_def\<close>)
    next
      case up
      let ?mk = "if AlwaysAvailable (pconf s) then skip
        else setAvailable (pr_query req) (pr_desc req) (pr_now req) None"
      let ?rest = "[?mk, upd (\<lambda>s. s\<lparr>source := Some (PublisherSource (pr_author req))\<rparr>),
        whenever (\<lambda>s. AlwaysAvailable (pconf s)) (upd (\<lambda>s. s\<lparr>onlineTime := pr_now req\<rparr>)),
        whenever (\<lambda>s. HasOnDemandPublisher (pconf s) \<and> pubState s \<noteq> StInitial)
          (seqs [upd (\<lambda>s. s\<lparr>pubReadyTimer := False\<rparr>), onDemandPublisherScheduleClose]),
        consumeOnHoldRequests, (\<lambda>s. emit (ResAddPublisher (pr_id req) (Inr (stream_ref s))) s)]"
      have "wp (seqs (closeExistingPublisher False # ?rest)) (post f [pr_id req] s) s"
      proof (rule wp_after_close [OF inv go(1)])
        fix s1 assume s1: "path_inv f s1" "source s1 = None" "pconf s1 = pconf s"
        from wp_addPublisher_accept [OF s1(1) _ s1(2)] show "wp (seqs ?rest) (post f [pr_id req] s1) s1"
          using go(1) by (simp only: s1(3))
      qed
      then have "wp (doAddPublisher req) (post f [pr_id req] s) s"
        by (rule wp_eq [rotated])
          (use go off up in \<open>cases "AlwaysAvailable (pconf s)"; auto simp: doAddPublisher_def\<close>)
      moreover have "?g = f" using up by (auto split: if_splits)
      ultimately show ?thesis by simp
    qed
  qed
qed

lemma wp_doRemoveReader:
  assumes inv: "path_inv f s"
  shows "wp (doRemoveReader author) (post f [] s) s"
proof -
  let ?s = "s\<lparr>readers := removeAll author (readers s)\<rparr>"
  have c: "conf_ok (pconf s)" "inv_src s" "inv_static f s" "inv_pub f s" "inv_stream f s" "inv_readers f s"
    and hold: "inv_hold f s"
    using inv by (simp_all add: path_inv_def inv_core_def)
  have same: "removeAll author (readers s) = readers s" if "author \<notin> set (readers s)"
    using that by simp
  let ?a = "\<lambda>s. if HasOnDemandStaticSource (pconf s) then
        whenever (\<lambda>s. staticState s = StReady) onDemandStaticSourceScheduleClose s
      else if HasOnDemandPublisher (pconf s) then
        whenever (\<lambda>s. pubState s = StReady) onDemandPublisherScheduleClose s
      else skip s"
  have hold': "path_inv f s'" if "inv_core f s'" "pconf s' = pconf s" "stream s' = stream s"
    "staticState s' = staticState s \<or> staticState s = StReady"
    "describeRequestsOnHold s' = describeRequestsOnHold s"
    "readerAddRequestsOnHold s' = readerAddRequestsOnHold s" for s'
    using hold that by (auto simp: path_inv_def inv_hold_def)
  have "length (removeAll author (readers s)) \<le> length (readers s)"
    by (rule length_removeAll_less_eq)
  then have le: "int (length (removeAll author (readers s))) \<le> int (length (readers s))" by linarith
  have len: "distinct (readers ?s)"
    "0 < MaxReaders (pconf s) \<longrightarrow> int (length (readers ?s)) \<le> MaxReaders (pconf s)"
    using c(6) order_trans [OF le] by (simp_all add: inv_readers_def distinct_removeAll)
  have "wp (whenever (\<lambda>s. readers s = []) ?a) (\<lambda>s' e. path_inv f s' \<and> held s' = held s \<and> answered e = []) ?s"
  proof -
    have frame: "inv_src ?s" "inv_static f ?s" "inv_pub f ?s" "inv_stream f ?s"
      using c by (simp_all add: inv_src_def inv_static_def inv_pub_def inv_stream_def)
    have on: "staticState s = StReady \<Longrightarrow> HasOnDemandStaticSource (pconf s)"
      "pubState s = StReady \<Longrightarrow> HasOnDemandPublisher (pconf s) \<and> \<not> HasOnDemandStaticSource (pconf s)"
      using c(3,4) machines_exclusive [OF c(1)] by (simp_all add: inv_static_def inv_pub_def)
    consider (keep) "readers ?s \<noteq> []"
      | (static) "readers ?s = []" "HasOnDemandStaticSource (pconf s)" "staticState s = StReady"
      | (pub) "readers ?s = []" "\<not> HasOnDemandStaticSource (pconf s)" "HasOnDemandPublisher (pconf s)"
          "pubState s = StReady"
      | (idle) "readers ?s = []" "staticState s \<noteq> StReady" "pubState s \<noteq> StReady"
      using on by blast
    then show ?thesis
    proof cases
      case keep
      have "inv_readers f ?s" using keep len c(6) by (auto simp: inv_readers_def)
      then have "path_inv f ?s" using frame c(1) by (intro hold') (simp_all add: inv_core_def)
      then show ?thesis using keep by (simp add: wp_rules held_def)
    next
      case static
      let ?t = "?s\<lparr>staticCloseTimer := True, staticState := StClosing\<rparr>"
      have "inv_src ?t" using c static by (simp add: inv_src_def)
      moreover have "inv_static f ?t" "inv_pub f ?t" "inv_stream f ?t"
        using c static by (simp_all add: inv_static_def inv_pub_def inv_stream_def)
      moreover have "pubState s = StInitial"
        using c(1,4) static machines_exclusive by (auto simp: inv_pub_def)
      then have "inv_readers f ?t" using static by (simp add: inv_readers_def)
      ultimately have "path_inv f ?t" using c(1) static(3) by (intro hold') (simp_all add: inv_core_def)
      then show ?thesis using static
        by (simp add: wp_rules held_def onDemandStaticSourceScheduleClose_def)
    next
      case pub
      let ?t = "?s\<lparr>pubCloseTimer := True, pubState := StClosing\<rparr>"
      have "inv_src ?t" "inv_static f ?t" using c by (simp_all add: inv_src_def inv_static_def)
      moreover have "inv_pub f ?t" "inv_stream f ?t" using c pub by (simp_all add: inv_pub_def inv_stream_def)
      moreover have "inv_readers f ?t" using c pub by (auto simp: inv_readers_def inv_static_def)
      ultimately have "path_inv f ?t" using c(1) by (intro hold') (simp_all add: inv_core_def)
      then show ?thesis using pub
        by (simp add: wp_rules held_def onDemandPublisherScheduleClose_def)
    next
      case idle
      have "inv_readers f ?s" using idle len c(6) by (auto simp: inv_readers_def)
      then have "path_inv f ?s" using frame c(1) by (intro hold') (simp_all add: inv_core_def)
      then show ?thesis using idle by (simp add: wp_rules held_def)
    qed
  qed
  then have "wp (whenever (\<lambda>s. readers s = []) ?a) (\<lambda>s' e. post f [] s s' (ResDone # e)) ?s"
    by (rule wp_mono) (simp add: post_def)
  moreover have "wp (whenever (\<lambda>s. author \<in> set (readers s)) (executeRemoveReader author)) Q s = Q ?s []" for Q
    using same by (simp add: wp_rules executeRemoveReader_def)
  ultimately show ?thesis
    unfolding doRemoveReader_def wp_seqs_Cons wp_seqs_Nil wp_emit by simp
qed

lemma doAPIPathsGet_ok:
  "wp doAPIPathsGet Q s \<longleftrightarrow>
   (stream s \<noteq> None \<longrightarrow> stream_up (stream s)) \<and>
   Q s [ResAPIPathsGet
     \<lparr>ap_Name = pname s, ap_ConfName = Name (pconf s),
      ap_AvailableTime = (if isAvailable s then Some (availableTime s) else None),
      ap_OnlineTime = (if isOnline s then Some (onlineTime s) else None),
      ap_Source = source s, ap_Readers = sort (readers s)\<rparr>]"
  by (cases "stream s") (auto simp: wp_def doAPIPathsGet_def emit_def panic_def)

section \<open>On-demand recording\<close>

text \<open>
  The recordings that the API starts and stops: they never change the requests on hold, keep the
  invariant, and crash exactly when there is no stream that can be recorded.
\<close>

lemma recording_inv:
  assumes "path_inv f s" "r = None \<or> stream s \<noteq> None \<and> r = map_option stream_id (stream s)"
    "pconf s' = (pconf s)\<lparr>RecordSegmentDuration := d, RecordMaxPartSize := m\<rparr>"
    "s' = s\<lparr>pconf := pconf s', recorder := r\<rparr>"
  shows "path_inv f s'"
proof -
  obtain c where s': "s' = s\<lparr>pconf := c, recorder := r\<rparr>"
    and c: "c = (pconf s)\<lparr>RecordSegmentDuration := d, RecordMaxPartSize := m\<rparr>"
    using assms(3,4) by metis
  have same: "conf_ok c = conf_ok (pconf s)" "HasStaticSource c = HasStaticSource (pconf s)"
    "HasOnDemandStaticSource c = HasOnDemandStaticSource (pconf s)" "Source c = Source (pconf s)"
    "HasOnDemandPublisher c = HasOnDemandPublisher (pconf s)" "MaxReaders c = MaxReaders (pconf s)"
    "AlwaysAvailable c = AlwaysAvailable (pconf s)" "SourceOnDemand c = SourceOnDemand (pconf s)"
    by (simp_all add: c conf_ok_def HasStaticSource_def HasOnDemandStaticSource_def HasOnDemandPublisher_def)
  have inv: "conf_ok (pconf s)" "inv_src s" "inv_static f s" "inv_pub f s" "inv_stream f s" "inv_readers f s"
    "inv_hold f s" using assms(1) by (simp_all add: path_inv_def inv_core_def)
  have "inv_stream f s'"
    using inv(5) assms(2) by (cases "stream s") (auto simp: inv_stream_def s' same)
  moreover have "inv_src s'" using inv(2) by (simp add: inv_src_def s' same)
  moreover have "inv_static f s'" using inv(3) by (simp add: inv_static_def s' same)
  moreover have "inv_pub f s'" using inv(4) by (simp add: inv_pub_def s' same)
  moreover have "inv_readers f s'" using inv(6) by (simp add: inv_readers_def s' same)
  moreover have "inv_hold f s'" using inv(7) by (simp add: inv_hold_def s' same)
  ultimately show ?thesis using inv(1) by (simp add: path_inv_def inv_core_def s' same)
qed

lemma StartOnDemandRecording_inv:
  assumes "path_inv f s" "StartOnDemandRecording d m s = Inr (Some (s', e))"
  shows "path_inv f s'" "held s' = held s" "answered e = []" "recordable s"
    "recorder s' = map_option stream_id (stream s)" "stream s' = stream s"
proof -
  let ?c = "(pconf s)\<lparr>RecordSegmentDuration := if 0 < d then d else RecordSegmentDuration (pconf s),
    RecordMaxPartSize := if 0 < m then m else RecordMaxPartSize (pconf s)\<rparr>"
  have c: "?c = (if 0 < m then (if 0 < d then (pconf s)\<lparr>RecordSegmentDuration := d\<rparr> else pconf s)
      \<lparr>RecordMaxPartSize := m\<rparr> else if 0 < d then (pconf s)\<lparr>RecordSegmentDuration := d\<rparr> else pconf s)"
    by simp
  from assms(2) have "wp (seqs
        [whenever (\<lambda>_. 0 < d) (upd (\<lambda>s. s\<lparr>pconf := (pconf s)\<lparr>RecordSegmentDuration := d\<rparr>\<rparr>)),
         whenever (\<lambda>_. 0 < m) (upd (\<lambda>s. s\<lparr>pconf := (pconf s)\<lparr>RecordMaxPartSize := m\<rparr>\<rparr>)),
         startRecording]) (\<lambda>t x. t = s' \<and> x = e) s"
    by (simp add: StartOnDemandRecording_def wp_def split: if_splits)
  then have s': "recordable s" "s' = s\<lparr>pconf := ?c, recorder := map_option stream_id (stream s)\<rparr>"
    "e = [RecorderStart]"
    unfolding c
    by (simp_all add: wp_seqs_Cons wp_seqs_Nil wp_whenever wp_upd wp_startRecording recordable_def
        split: if_splits)
  from s'(1) have "stream s \<noteq> None" by (simp add: recordable_def)
  then show "path_inv f s'"
    by (intro recording_inv [OF assms(1), of "map_option stream_id (stream s)"]) (simp_all add: s')
  show "held s' = held s" "answered e = []" "recordable s"
    "recorder s' = map_option stream_id (stream s)" "stream s' = stream s"
    using s' by (simp_all add: held_def)
qed

lemma StartOnDemandRecording_crashes:
  "StartOnDemandRecording d m s = Inr None \<longleftrightarrow> recorder s = None \<and> \<not> recordable s"
proof -
  have "seqs
        [whenever (\<lambda>_. 0 < d) (upd (\<lambda>s. s\<lparr>pconf := (pconf s)\<lparr>RecordSegmentDuration := d\<rparr>\<rparr>)),
         whenever (\<lambda>_. 0 < m) (upd (\<lambda>s. s\<lparr>pconf := (pconf s)\<lparr>RecordMaxPartSize := m\<rparr>\<rparr>)),
         startRecording] s = None \<longleftrightarrow> \<not> wp (seqs
        [whenever (\<lambda>_. 0 < d) (upd (\<lambda>s. s\<lparr>pconf := (pconf s)\<lparr>RecordSegmentDuration := d\<rparr>\<rparr>)),
         whenever (\<lambda>_. 0 < m) (upd (\<lambda>s. s\<lparr>pconf := (pconf s)\<lparr>RecordMaxPartSize := m\<rparr>\<rparr>)),
         startRecording]) (\<lambda>_ _. True) s" (is "?a s = None \<longleftrightarrow> _")
    by (cases "?a s") (auto simp: wp_def)
  also have "\<dots> \<longleftrightarrow> \<not> recordable s"
    by (simp add: wp_seqs_Cons wp_seqs_Nil wp_whenever wp_upd wp_startRecording recordable_def)
  finally show ?thesis by (auto simp: StartOnDemandRecording_def)
qed

lemma StopOnDemandRecording_inv:
  assumes "path_inv f s" "StopOnDemandRecording s = Inr (Some (s', e))"
  shows "path_inv f s'" "held s' = held s" "answered e = []"
proof -
  from assms(2) have s': "s' = s\<lparr>recorder := None\<rparr>" "e = [RecorderClose]"
    by (simp_all add: StopOnDemandRecording_def closeRecorder_def whenever_def seqs.simps andthen_def
        emit_def upd_def skip_def split: if_splits)
  show "path_inv f s'"
    by (rule recording_inv [OF assms(1), where r = None and d = "RecordSegmentDuration (pconf s)"
          and m = "RecordMaxPartSize (pconf s)"]) (simp_all add: s')
  show "held s' = held s" "answered e = []" using s' by (simp_all add: held_def)
qed

section \<open>The event loop\<close>

text \<open>
  The events a path can receive. A timer fires only when it is armed; \<^verbatim>\<open>path_manager.go\<close> sends a
  configuration only when \<open>pathConfCanBeUpdated\<close> holds; the static source announces itself only
  while its handler runs and not again while it is ready, and reports an end only after a beginning.
  The media layer may refuse any stream or sub stream; only the offline stream of an always available
  path is taken to start again, because the code panics on purpose when it does not.
\<close>

fun ok_event :: "bool \<Rightarrow> path_event \<Rightarrow> path_state \<Rightarrow> bool" where
  "ok_event f EvStaticReadyTimer s \<longleftrightarrow> staticReadyTimer s"
| "ok_event f EvStaticCloseTimer s \<longleftrightarrow> staticCloseTimer s"
| "ok_event f EvPubReadyTimer s \<longleftrightarrow> pubReadyTimer s"
| "ok_event f EvPubCloseTimer s \<longleftrightarrow> pubCloseTimer s"
| "ok_event f (EvReloadConf newConf) s \<longleftrightarrow> pathConfCanBeUpdated (pconf s) newConf \<and> conf_ok newConf"
| "ok_event f (EvSetReady req) s \<longleftrightarrow>
     source s = Some (HandlerSource True) \<and>
     (\<not> AlwaysAvailable (pconf s) \<longrightarrow>
        (\<not> f \<longrightarrow> stream s = None) \<and>
        (HasOnDemandStaticSource (pconf s) \<longrightarrow> staticState s = StWaitingReady))"
| "ok_event f (EvSetNotReady offlineErr) s \<longleftrightarrow>
     source s = Some (HandlerSource True) \<and> \<not> offlineErr \<and>
     (\<not> AlwaysAvailable (pconf s) \<longrightarrow>
        stream_up (stream s) \<and>
        (HasOnDemandStaticSource (pconf s) \<longrightarrow> staticState s \<noteq> StWaitingReady))"
| "ok_event f (EvAddPublisher req) s \<longleftrightarrow> \<not> pr_offlineErr req"
| "ok_event f (EvRemovePublisher author offlineErr) s \<longleftrightarrow> \<not> offlineErr"
| "ok_event f (EvDescribe req) s \<longleftrightarrow> True"
| "ok_event f (EvAddReader req) s \<longleftrightarrow> True"
| "ok_event f (EvRemoveReader author) s \<longleftrightarrow> True"
| "ok_event f EvAPIPathsGet s \<longleftrightarrow> True"

text \<open>The events on which the code does crash, all of them on a stream that failed to initialize.\<close>

fun crashes :: "path_event \<Rightarrow> path_state \<Rightarrow> bool" where
  "crashes (EvReloadConf newConf) s \<longleftrightarrow> reload_crashes newConf s"
| "crashes EvAPIPathsGet s \<longleftrightarrow> stream s \<noteq> None \<and> \<not> stream_up (stream s)"
| "crashes ev s \<longleftrightarrow> False"

text \<open>The requests that an event carries.\<close>

fun event_requests :: "path_event \<Rightarrow> nat list" where
  "event_requests (EvDescribe req) = [dr_id req]"
| "event_requests (EvAddReader req) = [rr_id req]"
| "event_requests (EvAddPublisher req) = [pr_id req]"
| "event_requests _ = []"

end
