(* ===== verification/Guarded_Machine.thy ===== *)
theory Guarded_Machine
  imports Main
begin

text \<open>
  Goroutines that own a state and serve one event at a time: the interface between the handlers of
  such a loop and the arguments about whole runs. A handler returns the new state and its effects,
  or \<open>None\<close> for a panic; the guard says which events can occur in a state.
\<close>

fun run_guarded ::
  "('ev \<Rightarrow> 's \<Rightarrow> bool) \<Rightarrow> ('ev \<Rightarrow> 's \<Rightarrow> ('s \<times> 'e list) option) \<Rightarrow> 'ev list \<Rightarrow> 's \<Rightarrow> ('s \<times> 'e list) option" where
  "run_guarded ok step [] s = Some (s, [])"
| "run_guarded ok step (ev # evs) s =
     (if ok ev s then
        (case step ev s of
           None \<Rightarrow> None
         | Some (s1, e1) \<Rightarrow>
             (case run_guarded ok step evs s1 of None \<Rightarrow> None | Some (s2, e2) \<Rightarrow> Some (s2, e1 @ e2)))
      else None)"

locale guarded_machine =
  fixes inv :: "'s \<Rightarrow> bool"
    and ok :: "'ev \<Rightarrow> 's \<Rightarrow> bool"
    and step :: "'ev \<Rightarrow> 's \<Rightarrow> ('s \<times> 'e list) option"
  assumes step_ok: "inv s \<Longrightarrow> ok ev s \<Longrightarrow> \<exists>s' e. step ev s = Some (s', e) \<and> inv s'"
begin

lemma run_inv: "inv s \<Longrightarrow> run_guarded ok step evs s = Some (s', e) \<Longrightarrow> inv s'"
proof (induction evs arbitrary: s e)
  case (Cons ev evs)
  from Cons.prems obtain s1 e1 e2 where "inv s1" "run_guarded ok step evs s1 = Some (s', e2)"
    using step_ok [of s ev] by (auto split: if_splits option.splits)
  then show ?case by (rule Cons.IH)
qed simp

lemma run_fails_only_at_guard:
  "inv s \<Longrightarrow> run_guarded ok step evs s = None \<Longrightarrow>
   \<exists>pre ev rest s1 e1. evs = pre @ ev # rest \<and> run_guarded ok step pre s = Some (s1, e1) \<and> \<not> ok ev s1"
proof (induction evs arbitrary: s)
  case (Cons ev evs)
  show ?case
  proof (cases "ok ev s")
    case False
    then show ?thesis by (intro exI [of _ "[]"] exI [of _ ev] exI [of _ evs] exI [of _ s]) simp
  next
    case True
    with step_ok [OF Cons.prems(1)] obtain s1 e1 where s1: "step ev s = Some (s1, e1)" "inv s1" by blast
    with True Cons.prems(2) have "run_guarded ok step evs s1 = None" by (auto split: option.splits)
    from Cons.IH [OF s1(2) this] obtain pre ev' rest s2 e2 where
      "evs = pre @ ev' # rest" "run_guarded ok step pre s1 = Some (s2, e2)" "\<not> ok ev' s2" by blast
    then show ?thesis using True s1(1)
      by (intro exI [of _ "ev # pre"] exI [of _ ev'] exI [of _ rest] exI [of _ s2] exI [of _ "e1 @ e2"]) simp
  qed
qed simp

end

end
