(* ===== verification/Core_Path_Loop.thy ===== *)
theory Core_Path_Loop
  imports Core_Path_Inv Guarded_Machine
begin

text \<open>
  The event loop of a path as a whole: every event that can occur is handled without a panic and
  keeps the invariant; the paths that can be reached; the start and the end of the loop.
\<close>

section \<open>One round\<close>

lemma path_inv_pending [simp]: "path_inv f (s\<lparr>pendingRequests := n\<rparr>) = path_inv f s"
  by (simp add: path_inv_def inv_hold_def inv_defs)

lemma held_pending [simp]: "held (s\<lparr>pendingRequests := n\<rparr>) = held s"
  by (simp add: held_def)

lemma wp_closing:
  assumes "wp a (post f ids s) s"
  shows "wp (seqs [a, closeIfIdle]) (post f ids s) s"
proof -
  have "wp a (\<lambda>s1 e1. wp (seqs [closeIfIdle]) (\<lambda>s2 e2. post f ids s s2 (e1 @ e2)) s1) s"
    by (rule wp_mono [OF assms]) (simp add: wp_rules post_def)
  then show ?thesis by (simp only: wp_seqs_Cons)
qed

lemma wp_closing2:
  assumes "wp (seqs [a, b]) (post f ids s) s"
  shows "wp (seqs [a, b, closeIfIdle]) (post f ids s) s"
proof -
  have "wp (seqs [a, b]) (\<lambda>s1 e1. wp (seqs [closeIfIdle]) (\<lambda>s2 e2. post f ids s s2 (e1 @ e2)) s1) s"
    by (rule wp_mono [OF assms]) (simp add: wp_rules post_def)
  then show ?thesis by (simp add: wp_seqs_Cons wp_seqs_Nil)
qed

lemma wp_request:
  assumes "wp a (post f ids s) s"
  shows "wp (seqs [a, requestDone, closeIfIdle]) (post f ids s) s"
proof -
  have "wp a (\<lambda>s1 e1. wp (seqs [requestDone, closeIfIdle]) (\<lambda>s2 e2. post f ids s s2 (e1 @ e2)) s1) s"
    by (rule wp_mono [OF assms]) (simp add: wp_rules post_def)
  then show ?thesis by (simp only: wp_seqs_Cons)
qed

lemma handler_source_static:
  assumes "path_inv f s" "source s = Some (HandlerSource b)"
  shows "HasStaticSource (pconf s)"
  using assms by (auto simp: path_inv_def inv_core_def inv_src_def HasStaticSource_def)

lemma wp_runInner_step:
  assumes "path_inv f s" "ok_event f ev s" "\<not> crashes ev s"
  shows "wp (runInner_step ev) (post (f \<or> media_fails (pconf s) ev) (event_requests ev) s) s"
proof (cases ev)
  case EvStaticReadyTimer
  with assms wp_closing2 [OF wp_StaticReadyTimer] show ?thesis by simp
next
  case EvStaticCloseTimer
  with assms wp_closing2 [OF wp_StaticCloseTimer] show ?thesis by simp
next
  case EvPubReadyTimer
  with assms wp_closing2 [OF wp_PubReadyTimer] show ?thesis by simp
next
  case EvPubCloseTimer
  with assms wp_PubCloseTimer show ?thesis by simp
next
  case (EvReloadConf c)
  with assms wp_doReloadConf show ?thesis by simp
next
  case (EvSetReady req)
  with assms handler_source_static [OF assms(1)] wp_doSourceStaticSetReady [OF assms(1)]
  show ?thesis by simp
next
  case (EvSetNotReady b)
  with assms handler_source_static [OF assms(1)] wp_closing [OF wp_doSourceStaticSetNotReady]
  show ?thesis by simp
next
  case (EvDescribe req)
  with assms(1) wp_request [OF wp_doDescribe] show ?thesis by simp
next
  case (EvAddPublisher req)
  with assms wp_request [OF wp_doAddPublisher [OF assms(1)]] show ?thesis by simp
next
  case (EvRemovePublisher a b)
  with assms wp_closing [OF wp_doRemovePublisher] show ?thesis by simp
next
  case (EvAddReader req)
  with assms(1) wp_request [OF wp_doAddReader] show ?thesis by simp
next
  case (EvRemoveReader a)
  with assms(1) wp_doRemoveReader show ?thesis by simp
next
  case EvAPIPathsGet
  with assms show ?thesis by (cases "stream s") (simp_all add: doAPIPathsGet_ok post_def)
qed

lemma crashing_step:
  assumes "path_inv f s" "ok_event f ev s" "crashes ev s"
  shows "runInner_step ev s = None" "f"
proof -
  have up: "\<not> f \<Longrightarrow> stream s \<noteq> None \<Longrightarrow> stream_up (stream s)"
    using assms(1) by (simp add: path_inv_def inv_core_def inv_stream_def)
  show f
    using assms(3) up by (cases ev) (auto simp: reload_crashes_def recordable_def)
  show "runInner_step ev s = None"
  proof (cases ev)
    case (EvReloadConf c)
    with wp_doReloadConf_conf [OF assms(1), of c] assms(2,3) show ?thesis by simp
  next
    case EvAPIPathsGet
    with assms(3) doAPIPathsGet_ok [of "\<lambda>_ _. True" s] show ?thesis
      by (cases "doAPIPathsGet s") (auto simp: wp_def)
  qed (use assms(3) in simp_all)
qed

lemma step_preserves:
  assumes "path_inv f s" "ok_event f ev s" "runInner_step ev s = Some (s', e)"
  shows "path_inv (f \<or> media_fails (pconf s) ev) s'"
    "mset (answered e) + mset (held s') = mset (held s) + mset (event_requests ev)"
proof -
  have "\<not> crashes ev s" using crashing_step(1) [OF assms(1,2)] assms(3) by auto
  from wp_runInner_step [OF assms(1,2) this] assms(3)
  show "path_inv (f \<or> media_fails (pconf s) ev) s'"
    "mset (answered e) + mset (held s') = mset (held s) + mset (event_requests ev)"
    by (simp_all add: wp_def post_def)
qed

text \<open>The loop as a whole, with failures of the media layer and without.\<close>

interpretation path_loop: guarded_machine "path_inv True" "\<lambda>ev s. ok_event True ev s \<and> \<not> crashes ev s" runInner_step
proof
  show "\<exists>s' e. runInner_step ev s = Some (s', e) \<and> path_inv True s'"
    if "path_inv True s" "ok_event True ev s \<and> \<not> crashes ev s" for s ev
    using wp_runInner_step [OF that(1), of ev] that(2) unfolding wp_def post_def by auto
qed

interpretation clean_loop: guarded_machine "path_inv False"
  "\<lambda>ev s. ok_event False ev s \<and> \<not> media_fails (pconf s) ev" runInner_step
proof
  show "\<exists>s' e. runInner_step ev s = Some (s', e) \<and> path_inv False s'"
    if "path_inv False s" "ok_event False ev s \<and> \<not> media_fails (pconf s) ev" for s ev
  proof -
    from crashing_step(2) [OF that(1)] that(2) have "\<not> crashes ev s" by blast
    with wp_runInner_step [OF that(1)] that(2) have "wp (runInner_step ev) (post False (event_requests ev) s) s"
      by fastforce
    then show ?thesis unfolding wp_def post_def by blast
  qed
qed

section \<open>The start\<close>

lemma path_inv_new:
  assumes "conf_ok c" "\<not> HasStaticSource c" "Source c \<noteq> ''redirect''" "\<not> AlwaysAvailable c"
  shows "path_inv False (new_path c n t m)"
  using assms by (simp add: path_inv_def inv_hold_def inv_defs new_path_def)

lemma run_source_start:
  assumes c: "conf_ok c" and st: "pconf s = c" "source s = None" "staticState s = StInitial" "pubState s = StInitial"
    "\<not> staticReadyTimer s" "\<not> staticCloseTimer s" "\<not> pubReadyTimer s" "\<not> pubCloseTimer s"
    "\<not> onUnDemandHook s" "readers s = []" "describeRequestsOnHold s = []" "readerAddRequestsOnHold s = []"
    "stream s \<noteq> None \<longleftrightarrow> AlwaysAvailable c" "stream s \<noteq> None \<longrightarrow> stream_up (stream s) \<and> onNotReadyHook s"
    "\<forall>st. stream s = Some st \<longrightarrow> stream_id st < nextStream s"
    "recorder s \<noteq> None \<longrightarrow> stream s \<noteq> None \<and> recorder s = map_option stream_id (stream s)"
    "stream s = None \<longrightarrow> tencentForwarders s = [] \<and> mmxForwarders s = []"
  shows "wp (\<lambda>s. if Source (pconf s) = ''redirect'' then upd (\<lambda>s. s\<lparr>source := Some RedirectSource\<rparr>) s
             else if HasStaticSource (pconf s) then
               seqs [handlerInitialize,
                     whenever (\<lambda>s. \<not> SourceOnDemand (pconf s)) (handlerStart False '''')] s
             else skip s) (\<lambda>s' e. path_inv False s' \<and> held s' = [] \<and> answered e = []) s"
proof -
  consider (redir) "Source c = ''redirect''" | (static) "HasStaticSource c" | (pub) "Source c = ''publisher''"
    by (auto simp: HasStaticSource_def)
  then show ?thesis
  proof cases
    case redir
    then have "\<not> HasStaticSource c" "\<not> HasOnDemandStaticSource c"
      by (simp_all add: HasStaticSource_def HasOnDemandStaticSource_def)
    with redir c st have "path_inv False (s\<lparr>source := Some RedirectSource\<rparr>)"
      by (auto simp: path_inv_def inv_hold_def inv_defs)
    then show ?thesis using redir st(1) st(11,12) by (simp add: wp_rules held_def)
  next
    case static
    have k: "known_static_source (Source c)" using c static by (simp add: conf_ok_def)
    have ns: "Source c \<noteq> ''redirect''" "Source c \<noteq> ''publisher''" using static by (simp_all add: HasStaticSource_def)
    have "path_inv False (s\<lparr>source := Some (HandlerSource (\<not> SourceOnDemand c))\<rparr>)"
    proof -
      have "AlwaysAvailable c \<Longrightarrow> \<not> HasOnDemandStaticSource c"
        using c by (simp add: conf_ok_def HasOnDemandStaticSource_def)
      with static c st ns show ?thesis
        by (auto simp: path_inv_def inv_hold_def inv_defs)
    qed
    then show ?thesis
      using static ns k st(1,11,12)
      by (cases "SourceOnDemand c")
        (simp_all add: wp_rules handlerInitialize_def wp_def [of handlerInitialize] upd_def
          wp_handlerStart held_def)
  next
    case pub
    then have "\<not> HasStaticSource c" "\<not> HasOnDemandStaticSource c"
      by (simp_all add: HasStaticSource_def HasOnDemandStaticSource_def)
    with pub c st have "path_inv False s"
      by (auto simp: path_inv_def inv_hold_def inv_defs)
    with pub st(1,11,12) \<open>\<not> HasStaticSource c\<close> show ?thesis by (simp add: wp_rules held_def)
  qed
qed

lemma wp_run_start:
  assumes c: "conf_ok c"
  shows "wp (run_start d now None) (\<lambda>s' e. path_inv False s' \<and> held s' = [] \<and> answered e = [])
    (new_path c n t m)"
proof -
  let ?s = "new_path c n t m"
  let ?b = "\<lambda>s. if Source (pconf s) = ''redirect'' then upd (\<lambda>s. s\<lparr>source := Some RedirectSource\<rparr>) s
             else if HasStaticSource (pconf s) then
               seqs [handlerInitialize,
                     whenever (\<lambda>s. \<not> SourceOnDemand (pconf s)) (handlerStart False '''')] s
             else skip s"
  have tail: "wp ?b (\<lambda>s' e. path_inv False s' \<and> held s' = [] \<and> answered (e1 @ e @ [HookInit]) = []) s1"
    if "wp ?b (\<lambda>s' e. path_inv False s' \<and> held s' = [] \<and> answered e = []) s1" "answered e1 = []" for s1 e1
    by (rule wp_mono [OF that(1)]) (use that(2) in simp)
  show ?thesis
  proof (cases "AlwaysAvailable c")
    case True
    have "wp (setAvailable '''' d now None)
        (\<lambda>s1 e1. wp ?b (\<lambda>s' e. path_inv False s' \<and> held s' = [] \<and> answered (e1 @ e @ [HookInit]) = []) s1) ?s"
    proof (rule wp_setAvailable)
      fix t1 t2 r tf mf e
      assume "answered e = []" "r = recorder ?s \<or> r = Some (nextStream ?s)"
      then show "wp ?b (\<lambda>s' e'. path_inv False s' \<and> held s' = [] \<and> answered (e @ e' @ [HookInit]) = [])
        ((new_stream True d ?s)\<lparr>availableTime := t1, onlineTime := t2, recorder := r, tencentForwarders := tf,
           mmxForwarders := mf, onNotReadyHook := True\<rparr>)"
        using True by (intro tail run_source_start [OF c]) (auto simp: new_path_def)
    qed
    then show ?thesis using True
      by (simp add: run_start_def wp_seqs_Cons wp_seqs_Nil wp_whenever wp_emit)
        (simp add: new_path_def)
  next
    case False
    have "wp ?b (\<lambda>s' e. path_inv False s' \<and> held s' = [] \<and> answered ([] @ e @ [HookInit]) = []) ?s"
      by (intro tail run_source_start [OF c]) (use False in \<open>auto simp: new_path_def\<close>)
    then show ?thesis using False
      by (simp add: run_start_def wp_seqs_Cons wp_seqs_Nil wp_whenever wp_emit)
        (simp add: new_path_def)
  qed
qed

section \<open>The end\<close>

lemma for_each_wp: "wp (\<lambda>s. for_each (xs s) (\<lambda>x. emit (f x)) s) Q s \<longleftrightarrow> Q s (map f (xs s))"
  by (simp add: wp_def for_each_emit)

lemma wp_skipped: "\<not> c s \<Longrightarrow> Q s [] \<Longrightarrow> wp (whenever c a) Q s"
  by (simp add: wp_whenever)

lemma wp_taken: "c s \<Longrightarrow> wp a Q s \<Longrightarrow> wp (whenever c a) Q s"
  by (simp add: wp_whenever)

lemma wp_closeSource:
  assumes "inv_src s" "source s = Some (HandlerSource b) \<Longrightarrow> HasStaticSource (pconf s)"
  shows "wp closeSource (\<lambda>s' e. (\<exists>src. s' = s\<lparr>source := src\<rparr>) \<and> source s' \<noteq> Some (HandlerSource True) \<and>
    answered e = []) s"
proof (cases "source s")
  case None
  then show ?thesis by (auto simp: wp_def closeSource_def skip_def intro: exI [of _ None])
next
  case (Some src)
  show ?thesis
  proof (cases src)
    case RedirectSource
    with Some show ?thesis by (auto simp: wp_def closeSource_def skip_def intro: exI [of _ "source s"])
  next
    case (PublisherSource p)
    with Some show ?thesis by (auto simp: wp_def closeSource_def emit_def intro: exI [of _ "source s"])
  next
    case (HandlerSource r)
    have "HasStaticSource (pconf s) \<or> Source (pconf s) = ''redirect'' \<or> Source (pconf s) = ''publisher''"
      by (auto simp: HasStaticSource_def)
    then have r: "r \<longleftrightarrow> \<not> SourceOnDemand (pconf s) \<or> staticState s \<noteq> StInitial"
      using assms(1) Some HandlerSource by (auto simp: inv_src_def)
    show ?thesis
    proof (cases r)
      case True
      then have "wp (handlerStop ''path is closing'') (\<lambda>s' e. (\<exists>src. s' = s\<lparr>source := src\<rparr>) \<and>
          source s' \<noteq> Some (HandlerSource True) \<and> answered e = []) s"
        using Some HandlerSource by (auto simp: wp_handlerStop)
      then show ?thesis
        by (rule wp_eq [rotated]) (use Some HandlerSource True r in \<open>auto simp: closeSource_def whenever_def\<close>)
    next
      case False
      with Some HandlerSource r show ?thesis
        by (auto simp: wp_def closeSource_def whenever_def skip_def intro: exI [of _ "source s"])
    qed
  qed
qed

lemma wp_run_close:
  assumes inv: "path_inv f s" and hk: "stream s \<noteq> None \<Longrightarrow> onNotReadyHook s"
  shows "wp run_close (\<lambda>s' e. answered e = held s \<and> stream s' = None \<and> readers s' = [] \<and>
    recorder s' = None \<and> tencentForwarders s' = [] \<and> mmxForwarders s' = [] \<and>
    source s' \<noteq> Some (HandlerSource True) \<and> \<not> staticReadyTimer s' \<and> \<not> staticCloseTimer s' \<and>
    \<not> pubReadyTimer s' \<and> \<not> pubCloseTimer s') s" (is "wp _ ?Q _")
proof -
  let ?s0 = "s\<lparr>staticReadyTimer := False, staticCloseTimer := False, pubReadyTimer := False,
    pubCloseTimer := False\<rparr>"
  let ?s1 = "?s0\<lparr>readers := [], recorder := None, tencentForwarders := [], mmxForwarders := [],
    stream := None\<rparr>"
  have c: "inv_src s" "inv_stream f s" "inv_readers f s" "inv_pub f s"
    using inv by (simp_all add: path_inv_def inv_core_def)
  have src: "inv_src ?s1" using c(1) by (simp add: inv_src_def)
  have static: "HasStaticSource (pconf ?s1)" if "source ?s1 = Some (HandlerSource b)" for b
    using handler_source_static [OF inv] that by simp
  let ?hook = "whenever (\<lambda>s. onUnDemandHook s) (callUnDemandHook ''path destroyed'')"
  have hook: "wp ?hook (\<lambda>s3 e3. ?Q s3 (e @ e3)) s2"
    if "\<exists>src. s2 = ?s1\<lparr>source := src\<rparr>" "source s2 \<noteq> Some (HandlerSource True)" "answered e = held s" for s2 e
    using that by (auto simp: wp_rules wp_callUnDemandHook)
  have source: "wp closeSource (\<lambda>s2 e2. wp ?hook (\<lambda>s3 e3. ?Q s3 (e @ e2 @ e3)) s2) ?s1"
    if "answered e = held s" for e
  proof (rule wp_mono [OF wp_closeSource [OF src static]])
    fix s2 e2
    assume "(\<exists>src. s2 = ?s1\<lparr>source := src\<rparr>) \<and> source s2 \<noteq> Some (HandlerSource True) \<and> answered e2 = []"
    then show "wp ?hook (\<lambda>s3 e3. ?Q s3 (e @ e2 @ e3)) s2"
      using hook [of s2 "e @ e2"] that by simp
  qed
  have "wp (whenever (\<lambda>s. stream s \<noteq> None) setNotAvailable)
      (\<lambda>s1 e1. wp closeSource (\<lambda>s2 e2. wp ?hook (\<lambda>s3 e3. ?Q s3 (e @ e1 @ e2 @ e3)) s2) s1) ?s0"
    if e: "answered e = held s" for e
  proof (cases "stream s")
    case None
    have rec: "recorder s = None" using c(2) None by (cases "recorder s") (auto simp: inv_stream_def)
    have lists: "readers s = []" "tencentForwarders s = []" "mmxForwarders s = []"
      using c(2) None by (simp_all add: inv_stream_def)
    have "?s1 = ?s0" using None rec lists by (cases s) simp
    from source [OF e, unfolded this] None show ?thesis
      by (intro wp_skipped) (simp_all only: append_Nil, simp)
  next
    case (Some st)
    have "wp setNotAvailable
      (\<lambda>s1 e1. wp closeSource (\<lambda>s2 e2. wp ?hook (\<lambda>s3 e3. ?Q s3 (e @ e1 @ e2 @ e3)) s2) s1) ?s0"
    proof (rule wp_setNotAvailable)
      show "distinct (readers ?s0)" using c(3) by (simp add: inv_readers_def)
      show "onNotReadyHook ?s0" using hk Some by simp
      show "wp closeSource (\<lambda>s2 e2. wp ?hook (\<lambda>s3 e3. ?Q s3 (e @ e1 @ e2 @ e3)) s2) ?s1"
        if "answered e1 = []" for e1 using source [of "e @ e1"] e that by simp
    qed
    with Some show ?thesis by (intro wp_taken) simp_all
  qed
  from this [of "[ParentRemove, HookUnInit] @
    map (\<lambda>req. ResDescribe (dr_id req) (DescribeErr ErrTerminated)) (describeRequestsOnHold s) @
    map (\<lambda>req. ResAddReader (rr_id req) (Inl ErrTerminated)) (readerAddRequestsOnHold s)"]
  have "wp (whenever (\<lambda>s. stream s \<noteq> None) setNotAvailable)
      (\<lambda>s1 e1. wp closeSource (\<lambda>s2 e2. wp ?hook (\<lambda>s3 e3. ?Q s3 (([ParentRemove, HookUnInit] @
    map (\<lambda>req. ResDescribe (dr_id req) (DescribeErr ErrTerminated)) (describeRequestsOnHold s) @
    map (\<lambda>req. ResAddReader (rr_id req) (Inl ErrTerminated)) (readerAddRequestsOnHold s)) @ e1 @ e2 @ e3)) s2) s1) ?s0"
    by (simp add: held_def)
  then show ?thesis
    unfolding run_close_def wp_seqs_Cons wp_seqs_Nil wp_emit wp_upd for_each_wp
    by (simp add: append_assoc)
qed

text \<open>The end crashes exactly on a stream that was assigned while none has ever been available.\<close>

lemma run_close_panics:
  assumes "path_inv f s"
  shows "run_close s = None \<longleftrightarrow> stream s \<noteq> None \<and> \<not> onNotReadyHook s"
proof (cases "stream s \<noteq> None \<and> \<not> onNotReadyHook s")
  case True
  have "distinct (readers s)" using assms by (simp add: path_inv_def inv_core_def inv_readers_def)
  with True have "\<not> wp run_close (\<lambda>_ _. True) s"
    by (simp add: run_close_def wp_rules for_each_wp setNotAvailable_def wp_closeAllReaders)
  with True show ?thesis by (cases "run_close s") (auto simp: wp_def)
next
  case False
  with wp_run_close [OF assms] show ?thesis by (auto simp: wp_def)
qed

lemma clean_close:
  assumes "path_inv False s"
  shows "stream s \<noteq> None \<Longrightarrow> onNotReadyHook s"
  using assms by (simp add: path_inv_def inv_core_def inv_stream_def)

section \<open>Reachable states\<close>

text \<open>
  The life of a path with configuration \<open>c\<close> at its creation: \<open>f\<close> tells whether the media layer has
  refused a stream so far, \<open>es\<close> are the effects, \<open>reqs\<close> the requests that have arrived. The path
  manager announces a request by raising \<^verbatim>\<open>pendingRequests\<close> before it reaches the loop. The API starts
  and stops recordings from goroutines of its own; they are taken to act between two rounds.
\<close>

inductive path_reach :: "path_conf \<Rightarrow> bool \<Rightarrow> path_state \<Rightarrow> path_eff list \<Rightarrow> nat list \<Rightarrow> bool" for c where
  start: "run_start d now None (new_path c n t m) = Some (s, e) \<Longrightarrow> path_reach c False s e []"
| announce: "path_reach c f s es reqs \<Longrightarrow>
    path_reach c f (s\<lparr>pendingRequests := pendingRequests s + 1\<rparr>) es reqs"
| step: "path_reach c f s es reqs \<Longrightarrow> ok_event f ev s \<Longrightarrow> runInner_step ev s = Some (s', e) \<Longrightarrow>
    path_reach c (f \<or> media_fails (pconf s) ev) s' (es @ e) (reqs @ event_requests ev)"
| record_on: "path_reach c f s es reqs \<Longrightarrow> StartOnDemandRecording d m s = Inr (Some (s', e)) \<Longrightarrow>
    path_reach c f s' (es @ e) reqs"
| record_off: "path_reach c f s es reqs \<Longrightarrow> StopOnDemandRecording s = Inr (Some (s', e)) \<Longrightarrow>
    path_reach c f s' (es @ e) reqs"

lemma path_reach_inv:
  assumes "path_reach c f s es reqs" "conf_ok c"
  shows "path_inv f s" "mset (answered es) + mset (held s) = mset reqs"
proof -
  have "path_inv f s \<and> mset (answered es) + mset (held s) = mset reqs"
    using assms
  proof (induction rule: path_reach.induct)
    case (start d now n t m s e)
    with wp_run_start [of c d now n t m] show ?case by (auto simp: wp_def)
  next
    case (announce f s es reqs)
    then show ?case by simp
  next
    case (step f s es reqs ev s' e)
    from step_preserves [OF _ step.hyps(2,3)] step.IH [OF step.prems]
    have s': "path_inv (f \<or> media_fails (pconf s) ev) s'"
      "mset (answered e) + mset (held s') = mset (held s) + mset (event_requests ev)"
      by auto
    then have "mset (answered (es @ e)) + mset (held s') =
        mset (answered es) + (mset (held s) + mset (event_requests ev))"
      by (simp add: union_assoc)
    also have "\<dots> = mset (reqs @ event_requests ev)"
      using step.IH [OF step.prems] by (simp flip: union_assoc)
    finally show ?case using s'(1) by blast
  next
    case (record_on f s es reqs d m s' e)
    with StartOnDemandRecording_inv [of f s d m s' e] show ?case by simp
  next
    case (record_off f s es reqs s' e)
    with StopOnDemandRecording_inv [of f s s' e] show ?case by simp
  qed
  then show "path_inv f s" "mset (answered es) + mset (held s) = mset reqs" by blast+
qed

lemma static_hold_timer:
  assumes "path_inv f s" "HasOnDemandStaticSource (pconf s)" "held s \<noteq> []"
  shows "staticReadyTimer s" "source s = Some (HandlerSource True)"
proof -
  have "describeRequestsOnHold s \<noteq> [] \<or> readerAddRequestsOnHold s \<noteq> []"
    using assms(3) by (auto simp: held_def)
  then have w: "staticState s = StWaitingReady"
    using assms(1,2) machines_exclusive [of "pconf s"]
    by (auto simp: path_inv_def inv_hold_def inv_core_def)
  with assms(1) show "staticReadyTimer s" by (simp add: path_inv_def inv_core_def inv_static_def)
  show "source s = Some (HandlerSource True)"
    using w assms(1,2) by (simp add: path_inv_def inv_core_def inv_src_def HasOnDemandStaticSource_def)
qed

lemma failOnHold_answers:
  "failOnHoldRequests e s = Some (s\<lparr>describeRequestsOnHold := [], readerAddRequestsOnHold := []\<rparr>,
     map (\<lambda>q. ResDescribe (dr_id q) (DescribeErr e)) (describeRequestsOnHold s) @
     map (\<lambda>q. ResAddReader (rr_id q) (Inl e)) (readerAddRequestsOnHold s))"
  by (simp add: failOnHoldRequests_def seqs.simps andthen_def for_each_emit upd_def skip_def)

lemma ready_timer_answers:
  assumes "path_inv f s" "staticReadyTimer s"
  shows "\<exists>s' e. runInner_step EvStaticReadyTimer s = Some (s', e) \<and> held s' = [] \<and>
    mset (answered e) = mset (held s)"
proof -
  have ok: "ok_event f EvStaticReadyTimer s" "\<not> crashes EvStaticReadyTimer s" using assms(2) by simp_all
  from wp_runInner_step [OF assms(1) ok] obtain s' e where
    r: "runInner_step EvStaticReadyTimer s = Some (s', e)" and p: "post f [] s s' e"
    by (auto simp: wp_def simp del: runInner_step.simps)
  have "held s' = []"
  proof -
    have "path_inv f s'" using p by (simp add: post_def)
    moreover have "staticState s' = StInitial" "pconf s' = pconf s"
      using r by (auto simp: doOnDemandStaticSourceReadyTimer_def onDemandStaticSourceStop_def
          seqs.simps andthen_def upd_def skip_def failOnHold_answers whenever_def emit_def
          handlerStop_def panic_def split: option.splits if_splits path_source.splits)
    moreover have "HasOnDemandStaticSource (pconf s)" "\<not> HasOnDemandPublisher (pconf s)"
      using assms machines_exclusive [of "pconf s"]
      by (auto simp: path_inv_def inv_core_def inv_static_def)
    ultimately show ?thesis by (auto simp: path_inv_def inv_hold_def held_def)
  qed
  with r p show ?thesis by (auto simp: post_def)
qed

text \<open>A sequence of events, each of which can occur.\<close>

fun run_events :: "bool \<Rightarrow> path_event list \<Rightarrow> path_state \<Rightarrow> (bool \<times> path_state \<times> path_eff list) option" where
  "run_events f [] s = Some (f, s, [])"
| "run_events f (ev # evs) s =
     (if ok_event f ev s then
        (case runInner_step ev s of
           None \<Rightarrow> None
         | Some (s1, e1) \<Rightarrow>
             map_option (\<lambda>(f2, s2, e2). (f2, s2, e1 @ e2))
               (run_events (f \<or> media_fails (pconf s) ev) evs s1))
      else None)"

lemma run_events_reach:
  "run_events f evs s = Some (f', s', e) \<Longrightarrow> path_reach c f s es reqs \<Longrightarrow>
   path_reach c f' s' (es @ e) (reqs @ concat (map event_requests evs))"
proof (induction evs arbitrary: f s es reqs e)
  case (Cons ev evs)
  from Cons.prems(1) obtain s1 e1 e2 where st: "ok_event f ev s" "runInner_step ev s = Some (s1, e1)"
    "run_events (f \<or> media_fails (pconf s) ev) evs s1 = Some (f', s', e2)" "e = e1 @ e2"
    by (auto split: if_splits option.splits)
  from Cons.IH [OF st(3) path_reach.step [OF Cons.prems(2) st(1,2)]] st(4) show ?case by simp
qed simp

section \<open>Correctness\<close>

definition on_demand_conf :: path_conf where
  "on_demand_conf = (sample_conf ''cam'' None)\<lparr>Source := ''rtsp://host/s'', SourceOnDemand := True\<rparr>"

definition publisher_conf :: path_conf where
  "publisher_conf = (sample_conf ''cam'' None)\<lparr>RunOnDemand := ''ffmpeg''\<rparr>"

definition no_desc :: session_desc where
  "no_desc = \<lparr>Medias = []\<rparr>"

definition start_path :: "path_conf \<Rightarrow> path_state" where
  "start_path c =
     (case run_start no_desc 0 None (new_path c ''cam'' False False) of
        Some (s, _) \<Rightarrow> s | None \<Rightarrow> new_path c ''cam'' False False)"

definition reader_1 :: reader_req where
  "reader_1 = \<lparr>rr_id = 1, rr_author = 10, rr_query = ''''\<rparr>"

definition reader_3 :: reader_req where
  "reader_3 = \<lparr>rr_id = 3, rr_author = 30, rr_query = ''''\<rparr>"

definition publish_req :: "nat \<Rightarrow> string option \<Rightarrow> publisher_req" where
  "publish_req i err =
     \<lparr>pr_id = i, pr_author = 20, pr_query = '''', pr_desc = no_desc, pr_now = 5, pr_streamErr = err,
      pr_subErr = None, pr_offlineErr = False\<rparr>"

definition ready_req :: "string option \<Rightarrow> set_ready_req" where
  "ready_req err = \<lparr>sr_desc = no_desc, sr_now = 5, sr_streamErr = err, sr_subErr = None\<rparr>"

lemma sample_confs_ok: "conf_ok on_demand_conf" "conf_ok publisher_conf"
  by (simp_all add: conf_ok_def on_demand_conf_def publisher_conf_def sample_conf_def
      HasStaticSource_def known_static_source_def static_source_prefixes_def)

lemma start_path_reach:
  assumes "conf_ok c"
  shows "\<exists>es. path_reach c False (start_path c) es []"
proof -
  from wp_run_start [OF assms, of no_desc 0 "''cam''" False False] obtain s e where
    "run_start no_desc 0 None (new_path c ''cam'' False False) = Some (s, e)" by (auto simp: wp_def)
  moreover from this have "path_reach c False s e []" by (rule path_reach.start)
  ultimately show ?thesis by (auto simp: start_path_def)
qed

lemma start_path_inv: "path_inv False (start_path on_demand_conf)" "path_inv False (start_path publisher_conf)"
  using start_path_reach path_reach_inv(1) sample_confs_ok by blast+

text \<open>The state at the end of a run from the start, and that it is reachable.\<close>

definition run_path :: "path_conf \<Rightarrow> path_event list \<Rightarrow> path_state" where
  "run_path c evs =
     (case run_events False evs (start_path c) of Some (_, s, _) \<Rightarrow> s | None \<Rightarrow> start_path c)"

lemma run_path_reach:
  assumes "conf_ok c" "run_events False evs (start_path c) = Some (f, s, e)"
  shows "\<exists>es. path_reach c f (run_path c evs) es (concat (map event_requests evs))"
proof -
  obtain es where "path_reach c False (start_path c) es []" using start_path_reach [OF assms(1)] by blast
  from run_events_reach [OF assms(2) this] assms(2) show ?thesis by (auto simp: run_path_def)
qed



text \<open>
  Whole runs: from a reachable state any sequence of events is processed to its end, or up to an event
  that cannot occur in the state reached or that crashes; without failures of the media layer nothing
  crashes.
\<close>
lemma path_run_safe:
  assumes "path_inv f s"
  defines "ok \<equiv> \<lambda>ev s. ok_event True ev s \<and> \<not> crashes ev s"
  shows "(\<exists>s' e. run_guarded ok runInner_step evs s = Some (s', e) \<and> path_inv True s') \<or>
    (\<exists>pre ev rest s1 e1. evs = pre @ ev # rest \<and> run_guarded ok runInner_step pre s = Some (s1, e1) \<and> \<not> ok ev s1)"
proof (cases "run_guarded ok runInner_step evs s")
  case None
  from path_loop.run_fails_only_at_guard [OF path_inv_weaken [OF assms(1)]] None show ?thesis
    unfolding ok_def by blast
next
  case (Some r)
  then show ?thesis
    using path_loop.run_inv [OF path_inv_weaken [OF assms(1)], of evs "fst r" "snd r"]
    unfolding ok_def by (cases r) auto
qed

lemma path_clean_run_safe:
  assumes "path_inv False s"
  defines "ok \<equiv> \<lambda>ev s. ok_event False ev s \<and> \<not> media_fails (pconf s) ev"
  shows "(\<exists>s' e. run_guarded ok runInner_step evs s = Some (s', e) \<and> path_inv False s') \<or>
    (\<exists>pre ev rest s1 e1. evs = pre @ ev # rest \<and> run_guarded ok runInner_step pre s = Some (s1, e1) \<and> \<not> ok ev s1)"
proof (cases "run_guarded ok runInner_step evs s")
  case None
  from clean_loop.run_fails_only_at_guard [OF assms(1)] None show ?thesis
    unfolding ok_def by blast
next
  case (Some r)
  then show ?thesis
    using clean_loop.run_inv [OF assms(1), of evs "fst r" "snd r"]
    unfolding ok_def by (cases r) auto
qed

text \<open>
  The end of a path answers every request still on hold exactly once, closes the readers, the
  recorder, the forwarders and the stream, stops a running source handler and disarms all timers.
\<close>
lemma path_close_safe:
  assumes "path_inv f s" "stream s \<noteq> None \<Longrightarrow> onNotReadyHook s"
  shows "\<exists>s' e. run_close s = Some (s', e) \<and> answered e = held s \<and> stream s' = None \<and>
    readers s' = [] \<and> recorder s' = None \<and> tencentForwarders s' = [] \<and> mmxForwarders s' = [] \<and>
    source s' \<noteq> Some (HandlerSource True) \<and>
    \<not> (staticReadyTimer s' \<or> staticCloseTimer s' \<or> pubReadyTimer s' \<or> pubCloseTimer s')"
  using wp_run_close [OF assms] unfolding wp_def by blast

text \<open>C2.
  Over the whole life of a path, under any sequence of events, refused streams and recordings
  included, no request is answered twice or forgotten: at any moment the requests that have arrived
  are those answered and those on hold, and at the close every one of them has been answered exactly
  once. The close itself panics only when a stream was refused, is still assigned, and none has ever
  been available.
\<close>
theorem path_answers_once:
  assumes "conf_ok c" "path_reach c f s es reqs"
  shows "mset (answered es) + mset (held s) = mset reqs \<and>
    (case run_close s of
       Some (s', e) \<Rightarrow> mset (answered (es @ e)) = mset reqs
     | None \<Rightarrow> f \<and> stream s \<noteq> None \<and> \<not> onNotReadyHook s)"
proof (cases "run_close s")
  case None
  note inv = path_reach_inv [OF assms(2,1)]
  have bad: "stream s \<noteq> None \<and> \<not> onNotReadyHook s" using run_close_panics [OF inv(1)] None by blast
  then have f using clean_close [of s] inv(1) by (cases f) auto
  with None bad inv(2) show ?thesis by simp
next
  case (Some r)
  obtain s' e where r: "run_close s = Some (s', e)" using Some by (cases r) auto
  note inv = path_reach_inv [OF assms(2,1)]
  have "\<not> (stream s \<noteq> None \<and> \<not> onNotReadyHook s)" using run_close_panics [OF inv(1)] r by auto
  with wp_run_close [OF inv(1)] r have "answered e = held s" by (auto simp: wp_def)
  with r inv(2) show ?thesis by simp
qed

definition busy_events :: "path_event list" where
  "busy_events =
     [EvAddReader reader_1, EvAddPublisher (publish_req 2 (Some ''bad'')), EvAddPublisher (publish_req 4 None),
      EvRemovePublisher 20 False, EvAddReader reader_3]"

lemma busy_run:
  "map_option (\<lambda>(f, s, e). (f, answered e, held s, map_option (\<lambda>(s', e'). answered e') (run_close s)))
     (run_events False busy_events (start_path publisher_conf)) =
   Some (True, [2, 1, 4], [3], Some [3])"
  by code_simp

theorem path_answers_once_witness:
  "\<exists>s es s' e. path_reach publisher_conf True s es [1, 2, 4, 3] \<and> held s = [3] \<and>
     run_close s = Some (s', e) \<and> mset (answered (es @ e)) = {#1, 2, 4, 3#}"
proof -
  obtain s0 e0 s' e where run: "run_events False busy_events (start_path publisher_conf) = Some (True, s0, e0)"
    and cl: "held s0 = [3]" "run_close s0 = Some (s', e)"
    using busy_run by auto
  obtain es where es: "path_reach publisher_conf True s0 es (concat (map event_requests busy_events))"
    using run_path_reach [OF sample_confs_ok(2) run] run by (auto simp: run_path_def)
  moreover have "concat (map event_requests busy_events) = [1, 2, 4, 3]"
    by (simp add: busy_events_def reader_1_def reader_3_def publish_req_def)
  ultimately show ?thesis using path_answers_once [OF sample_confs_ok(2) es] cl by auto
qed






text \<open>C17.
  Liveness of the on-demand static source: while a request is on hold, also after the media layer has
  refused the stream of the source, the source is running and the timer is armed that, when it fires,
  answers every request on hold.
\<close>
theorem path_static_hold_answered:
  assumes "conf_ok c" "path_reach c f s es reqs" "HasOnDemandStaticSource (pconf s)" "held s \<noteq> []"
  shows "ok_event f EvStaticReadyTimer s \<and> source s = Some (HandlerSource True) \<and>
    (\<exists>s' e. runInner_step EvStaticReadyTimer s = Some (s', e) \<and> held s' = [] \<and>
       mset (answered e) = mset (held s))"
proof -
  note inv = path_reach_inv(1) [OF assms(2,1)]
  note timer = static_hold_timer [OF inv assms(3,4)]
  from ready_timer_answers [OF inv timer(1)] timer show ?thesis
    by (simp del: runInner_step.simps)
qed

definition waiting_path :: path_state where
  "waiting_path = run_path on_demand_conf [EvAddReader reader_1, EvSetReady (ready_req (Some ''bad''))]"

lemma waiting_path_eval:
  "map_option (\<lambda>(f, s, e). f) (run_events False [EvAddReader reader_1, EvSetReady (ready_req (Some ''bad''))]
     (start_path on_demand_conf)) = Some True"
  "HasOnDemandStaticSource (pconf waiting_path)" "held waiting_path = [1]"
  by code_simp+

lemma waiting_path_reach: "\<exists>es. path_reach on_demand_conf True waiting_path es [1]"
proof -
  obtain s e where "run_events False [EvAddReader reader_1, EvSetReady (ready_req (Some ''bad''))]
     (start_path on_demand_conf) = Some (True, s, e)" using waiting_path_eval(1) by auto
  from run_path_reach [OF sample_confs_ok(1) this] show ?thesis
    by (simp add: waiting_path_def reader_1_def)
qed

theorem path_static_hold_answered_witness:
  "held waiting_path = [1] \<and> ok_event True EvStaticReadyTimer waiting_path \<and>
   (\<exists>s' e. runInner_step EvStaticReadyTimer waiting_path = Some (s', e) \<and> held s' = [])"
  using path_static_hold_answered [OF sample_confs_ok(1)] waiting_path_reach waiting_path_eval(2,3)
  by fastforce

section \<open>Defects\<close>

definition starving_events :: "path_event list" where
  "starving_events =
     [EvAddReader reader_1, EvAddPublisher (publish_req 2 None), EvRemovePublisher 20 False,
      EvAddReader reader_3, EvRemoveReader 10, EvPubCloseTimer]"

lemma starving_run:
  "map_option (\<lambda>(f, s, e). (f, held s, pubState s, pubReadyTimer s, pubCloseTimer s, staticReadyTimer s,
       staticCloseTimer s))
     (run_events False starving_events (start_path publisher_conf)) =
   Some (False, [3], StInitial, False, False, False, False)"
  by code_simp

text \<open>
  An on-demand publisher can leave a reader waiting for ever: after the publisher has gone and the
  close timer of its last period has fired, a state is reachable in which a request is on hold, the
  machine is in its initial state and no timer is armed that would answer it.
\<close>
lemma path_publisher_request_starves:
  "\<exists>s es. path_reach publisher_conf False s es [1, 2, 3] \<and> held s = [3] \<and> pubState s = StInitial \<and>
     \<not> (staticReadyTimer s \<or> staticCloseTimer s \<or> pubReadyTimer s \<or> pubCloseTimer s)"
proof -
  obtain s e where run: "run_events False starving_events (start_path publisher_conf) = Some (False, s, e)"
    and s: "held s = [3]" "pubState s = StInitial" "\<not> pubReadyTimer s" "\<not> pubCloseTimer s"
      "\<not> staticReadyTimer s" "\<not> staticCloseTimer s"
    using starving_run by auto
  have reqs: "concat (map event_requests starving_events) = [1, 2, 3]"
    by (simp add: starving_events_def reader_1_def reader_3_def publish_req_def)
  from run_path_reach [OF sample_confs_ok(2) run, unfolded reqs] run s show ?thesis
    by (auto simp: run_path_def)
qed

text \<open>
  When \<^verbatim>\<open>stream.Initialize\<close> fails for the first publisher of a path, the publisher is refused but
  the uninitialized stream stays assigned; closing the path then calls the unset
  \<^verbatim>\<open>onNotReadyHook\<close> and panics, and so does a query of the API.
\<close>
lemma path_failed_stream_panics_at_close:
  assumes "path_inv False s" "Source (pconf s) = ''publisher''" "\<not> AlwaysAvailable (pconf s)"
    "source s = None" "\<not> onNotReadyHook s" "pr_streamErr req = Some err"
  shows "\<exists>s' e. runInner_step (EvAddPublisher req) s = Some (s', e) \<and>
    ResAddPublisher (pr_id req) (Inl (ErrMedia err)) \<in> set e \<and> stream s' \<noteq> None \<and> run_close s' = None \<and>
    runInner_step EvAPIPathsGet s' = None"
proof -
  let ?s1 = "new_stream False (pr_desc req) s"
  let ?s2 = "?s1\<lparr>pendingRequests := pendingRequests s - 1\<rparr>"
  have add: "doAddPublisher req s = Some (?s1, [ResAddPublisher (pr_id req) (Inl (ErrMedia err))])"
    using assms(2-6) by (simp add: doAddPublisher_def closeExistingPublisher_def setAvailable_def
        seqs.simps andthen_def upd_def emit_def skip_def)
  have step: "\<exists>e. runInner_step (EvAddPublisher req) s = Some (?s2, e) \<and>
      ResAddPublisher (pr_id req) (Inl (ErrMedia err)) \<in> set e"
    by (simp add: add seqs.simps andthen_def upd_def emit_def skip_def whenever_def)
  have "staticState s = StInitial"
    using assms(1,2) by (auto simp: path_inv_def inv_core_def inv_static_def HasOnDemandStaticSource_def
        HasStaticSource_def)
  with failed_stream_inv(1) [OF assms(1,3)] assms(2,4) have "path_inv True ?s2" by simp
  from run_close_panics [OF this] assms(5) have "run_close ?s2 = None" by simp
  moreover have "runInner_step EvAPIPathsGet ?s2 = None" by (simp add: doAPIPathsGet_def panic_def)
  ultimately show ?thesis using step by (intro exI [of _ ?s2]) auto
qed

lemma path_failed_stream_panics_at_close_instance:
  "path_inv False (start_path publisher_conf) \<and>
   (\<exists>s' e. runInner_step (EvAddPublisher (publish_req 2 (Some ''bad''))) (start_path publisher_conf) = Some (s', e) \<and>
      run_close s' = None)"
proof -
  have "Source (pconf (start_path publisher_conf)) = ''publisher''"
    "\<not> AlwaysAvailable (pconf (start_path publisher_conf))" "source (start_path publisher_conf) = None"
    "\<not> onNotReadyHook (start_path publisher_conf)" "pr_streamErr (publish_req 2 (Some ''bad'')) = Some ''bad''"
    by code_simp+
  from path_failed_stream_panics_at_close [OF start_path_inv(2) this] start_path_inv(2) show ?thesis by blast
qed

text \<open>
  A stream refused to an on-demand static source is kept too. When the ready timer then stops the
  source, the path is left with a stream, no running source and no timer: a reader that comes later is
  attached to the dead stream at once, and the source is never started again. When instead the source
  succeeds at the second attempt, the readers attached in between are closed by the close timer.
\<close>
definition stuck_events :: "path_event list" where
  "stuck_events =
     [EvAddReader reader_1, EvSetReady (ready_req (Some ''bad'')), EvStaticReadyTimer, EvAddReader reader_3]"

definition dropped_events :: "path_event list" where
  "dropped_events =
     [EvDescribe \<lparr>dr_id = 1, dr_query = ''''\<rparr>, EvSetReady (ready_req (Some ''bad'')), EvAddReader reader_3,
      EvSetReady (ready_req None), EvStaticCloseTimer]"

lemma path_failed_source_stuck:
  "map_option (\<lambda>(f, s, e). (staticState s, source s, staticReadyTimer s, readers s, last e))
     (run_events False stuck_events (start_path on_demand_conf)) =
   Some (StInitial, Some (HandlerSource False), False, [30], ResAddReader 3 (Inr 0))"
  by code_simp

lemma path_failed_source_drops_readers:
  "map_option (\<lambda>(f, s, e). (CloseReader 30 \<in> set e, readers s))
     (run_events False dropped_events (start_path on_demand_conf)) = Some (True, [])"
  by code_simp

text \<open>
  \<open>StartOnDemandRecording\<close> crashes exactly when no recorder runs and there is no stream to record; an
  on-demand path whose source is idle has none although \<open>IsOnline\<close>, the only test of the callers,
  holds of it.
\<close>
lemma path_recording_idle_source_crashes:
  "isOnline (start_path on_demand_conf) \<and> StartOnDemandRecording 60 0 (start_path on_demand_conf) = Inr None"
proof -
  have "isOnline (start_path on_demand_conf)" "recorder (start_path on_demand_conf) = None"
    "stream (start_path on_demand_conf) = None"
    by code_simp+
  then show ?thesis by (simp add: StartOnDemandRecording_crashes recordable_def)
qed

text \<open>
  \<open>StopOnDemandRecording\<close> stops whatever recorder is running, also one that the configuration asks
  for, and the path then stays without a recorder although its stream goes on.
\<close>
lemma path_stop_recording_ignores_conf:
  assumes "recorder s \<noteq> None"
  shows "StopOnDemandRecording s = Inr (Some (s\<lparr>recorder := None\<rparr>, [RecorderClose]))"
  using assms by (simp add: StopOnDemandRecording_def closeRecorder_def whenever_def seqs.simps
      andthen_def emit_def upd_def skip_def)

definition configured_path :: path_state where
  "configured_path = run_path ((sample_conf ''cam'' None)\<lparr>Record := True\<rparr>) [EvAddPublisher (publish_req 2 None)]"

lemma path_stop_recording_ignores_conf_instance:
  "Record (pconf configured_path) \<and> stream configured_path \<noteq> None \<and>
   StopOnDemandRecording configured_path = Inr (Some (configured_path\<lparr>recorder := None\<rparr>, [RecorderClose]))"
proof -
  have "Record (pconf configured_path)" "stream configured_path \<noteq> None" "recorder configured_path \<noteq> None"
    by code_simp+
  with path_stop_recording_ignores_conf [of configured_path] show ?thesis by blast
qed

end
