(* ===== verification/Step_Machine.thy ===== *)
theory Step_Machine
  imports Main
begin

text \<open>
  Components whose every step succeeds: the counterpart of \<open>Guarded_Machine\<close> for handlers that return
  the new state and their effects without a panic. \<open>keyframe_switch\<close> is the contract of a component
  that forwards units of one active layer at a time and changes the layer only with a keyframe.
\<close>

fun run_steps :: "('ev \<Rightarrow> 's \<Rightarrow> 's \<times> 'e list) \<Rightarrow> 'ev list \<Rightarrow> 's \<Rightarrow> 's \<times> 'e list" where
  "run_steps step [] s = (s, [])"
| "run_steps step (ev # evs) s =
     (let (s1, e1) = step ev s; (s2, e2) = run_steps step evs s1 in (s2, e1 @ e2))"

locale step_machine =
  fixes inv :: "'s \<Rightarrow> bool"
    and step :: "'ev \<Rightarrow> 's \<Rightarrow> 's \<times> 'e list"
  assumes step_inv: "inv s \<Longrightarrow> step ev s = (s', e) \<Longrightarrow> inv s'"
begin

lemma run_inv: "inv s \<Longrightarrow> run_steps step evs s = (s', e) \<Longrightarrow> inv s'"
  by (induction evs arbitrary: s e) (auto simp: Let_def split: prod.splits dest: step_inv)

end

text \<open>
  A list of forwarded units (layer, keyframe) after layer \<open>a\<close>: every unit that is not of the layer of
  its predecessor is a keyframe.
\<close>

fun aligned :: "int \<Rightarrow> (int \<times> bool) list \<Rightarrow> bool" where
  "aligned a [] = True"
| "aligned a ((i, k) # xs) = ((i \<noteq> a \<longrightarrow> k) \<and> aligned i xs)"

text \<open>What of a list of effects is seen through \<open>out\<close>.\<close>

definition seen :: "('e \<Rightarrow> 'o list) \<Rightarrow> 'e list \<Rightarrow> 'o list" where
  "seen out es = concat (map out es)"

lemma seen_simps [simp]:
  "seen out [] = []" "seen out (e # es) = out e @ seen out es" "seen out (xs @ ys) = seen out xs @ seen out ys"
  by (simp_all add: seen_def)

locale keyframe_switch = step_machine inv step
  for inv :: "'s \<Rightarrow> bool"
    and step :: "'ev \<Rightarrow> 's \<Rightarrow> 's \<times> 'e list" +
  fixes ok :: "'ev \<Rightarrow> bool"
    and active :: "'s \<Rightarrow> int"
    and out :: "'e \<Rightarrow> (int \<times> bool) list"
  assumes forwards: "inv s \<Longrightarrow> ok ev \<Longrightarrow> step ev s = (s', e) \<Longrightarrow>
    seen out e = [] \<and> active s' = active s \<or>
    (\<exists>k. seen out e = [(active s', k)] \<and> (active s' \<noteq> active s \<longrightarrow> k))"
begin

lemma run_aligned:
  "inv s \<Longrightarrow> list_all ok evs \<Longrightarrow> run_steps step evs s = (s', e) \<Longrightarrow> aligned (active s) (seen out e)"
proof (induction evs arbitrary: s e)
  case (Cons ev evs)
  obtain s1 e1 where 1: "step ev s = (s1, e1)" by force
  obtain e2 where 2: "run_steps step evs s1 = (s', e2)" "e = e1 @ e2"
    using Cons.prems(3) 1 by (auto split: prod.splits)
  have "aligned (active s1) (seen out e2)"
    using Cons.IH [of s1 e2] Cons.prems 1 2 step_inv by auto
  then show ?case using forwards [OF Cons.prems(1) _ 1] Cons.prems(2) 2(2) by auto
qed simp

end

end
