(* ===== verification/Auth_Manager.thy ===== *)
theory Auth_Manager
  imports Go_Strings Go_Float Step_Machine
begin

text \<open>
  \<^verbatim>\<open>internal/auth/manager.go\<close> with the credentials and networks of \<^verbatim>\<open>internal/conf\<close>: who may do what.
  The outside of the manager is a record of functions: regular expressions (\<^verbatim>\<open>regexp.Compile\<close> and
  \<^verbatim>\<open>MatchString\<close>), the two password hashes, the answer of the authentication server, the download of
  the key set and the verification of a JWT with its claims. Requests are served one at a time; the
  mutex of the manager guards its two mutable fields.
\<close>

unbundle bit_operations_syntax

section \<open>Networks\<close>

text \<open>\<^verbatim>\<open>net.IP\<close> is a byte slice of length 4 or 16; \<open>To4\<close> finds the four bytes of a mapped address.\<close>

type_synonym ip = "8 word list"

definition To4 :: "ip \<Rightarrow> ip option" where
  "To4 ip =
     (if length ip = 4 then Some ip
      else if length ip = 16 \<and> take 10 ip = replicate 10 0 \<and> ip ! 10 = 0xFF \<and> ip ! 11 = 0xFF then Some (drop 12 ip)
      else None)"

record ip_network =
  net_IP :: ip
  net_Mask :: "8 word list"

definition networkNumberAndMask :: "ip_network \<Rightarrow> (ip \<times> 8 word list) option" where
  "networkNumberAndMask n =
     (case (case To4 (net_IP n) of Some ip \<Rightarrow> Some ip
            | None \<Rightarrow> if length (net_IP n) = 16 then Some (net_IP n) else None) of
        None \<Rightarrow> None
      | Some ip \<Rightarrow>
          if length (net_Mask n) = 4 then if length ip = 4 then Some (ip, net_Mask n) else None
          else if length (net_Mask n) = 16 then
            Some (ip, if length ip = 4 then drop 12 (net_Mask n) else net_Mask n)
          else None)"

definition IPNetwork_Contains :: "ip_network \<Rightarrow> ip \<Rightarrow> bool" where
  "IPNetwork_Contains n ip0 =
     (let ip = (case To4 ip0 of Some x \<Rightarrow> x | None \<Rightarrow> ip0)
      in case networkNumberAndMask n of
           None \<Rightarrow> ip = []
         | Some (nn, m) \<Rightarrow>
             length ip = length nn \<and> list_all (\<lambda>i. nn ! i AND m ! i = ip ! i AND m ! i) [0..<length ip])"

definition IPNetworks_Contains :: "ip_network list \<Rightarrow> ip \<Rightarrow> bool" where
  "IPNetworks_Contains d ip \<longleftrightarrow> (\<exists>n \<in> set d. IPNetwork_Contains n ip)"

section \<open>Requests and users\<close>

datatype auth_action =
    AuthActionPublish | AuthActionRead | AuthActionPlayback | AuthActionAPI | AuthActionMetrics | AuthActionPprof

datatype protocol = ProtocolNone | ProtocolRTSP | ProtocolRTMP | ProtocolHLS | ProtocolWebRTC | ProtocolSRT | ProtocolMoQ

record credentials =
  cr_User :: string
  cr_Pass :: string
  cr_Token :: string

record auth_request =
  au_Action :: auth_action
  au_Path :: string
  au_Query :: string
  au_Protocol :: protocol
  au_ID :: "nat option"
  au_UserAgent :: string
  au_Credentials :: credentials
  au_IP :: ip
  au_CustomVerifyFunc :: "(string \<Rightarrow> string \<Rightarrow> bool) option"

record permission =
  perm_Action :: auth_action
  perm_Path :: string

record internal_user =
  iu_User :: string
  iu_Pass :: string
  iu_IPs :: "ip_network list"
  iu_Permissions :: "permission list"

datatype auth_method = AuthMethodInternal | AuthMethodHTTP | AuthMethodJWT

datatype auth_cause =
    AuthFailed | HttpFailed string | HttpCode int | JwksFailed string | JwtNotProvided | JwtInvalid string | JwtNoPermission

record auth_error =
  Wrapped :: auth_cause
  AskCredentials :: bool

type_synonym keyset = nat

datatype http_answer = HttpError string | HttpStatus int

record auth_env =
  MatchString :: "string \<Rightarrow> (string \<Rightarrow> bool) option"
  sha256Base64 :: "string \<Rightarrow> string"
  VerifyEncoded :: "string \<Rightarrow> string \<Rightarrow> bool"
  Post :: "auth_request \<Rightarrow> string \<Rightarrow> http_answer"
  FetchJWKS :: "string + keyset"
  ParseWithClaims :: "keyset \<Rightarrow> string \<Rightarrow> string + (string \<times> permission list)"

record auth_manager =
  Method :: auth_method
  InternalUsers :: "internal_user list"
  HTTPExclude :: "permission list"
  JWTExclude :: "permission list"
  JWTInHTTPQuery :: "bool option"
  jwksLastRefresh :: time
  jwtKeyFunc :: "keyset option"

section \<open>Credentials\<close>

definition IsSha256 :: "string \<Rightarrow> bool" where "IsSha256 d = has_prefix d ''sha256:''"
definition IsArgon2 :: "string \<Rightarrow> bool" where "IsArgon2 d = has_prefix d ''argon2:''"

definition credential_Check :: "auth_env \<Rightarrow> string \<Rightarrow> string \<Rightarrow> bool" where
  "credential_Check env d guess =
     (if IsSha256 d then drop 7 d = sha256Base64 env guess
      else if IsArgon2 d then VerifyEncoded env guess (drop 7 d)
      else if d \<noteq> [] then d = guess
      else True)"

section \<open>Tokens in queries\<close>

definition hex_value :: "char \<Rightarrow> nat option" where
  "hex_value c =
     (let n = of_char c :: nat
      in if 48 \<le> n \<and> n \<le> 57 then Some (n - 48)
         else if 97 \<le> n \<and> n \<le> 102 then Some (n - 87)
         else if 65 \<le> n \<and> n \<le> 70 then Some (n - 55) else None)"

text \<open>\<^verbatim>\<open>url.QueryUnescape\<close>\<close>

fun QueryUnescape :: "string \<Rightarrow> string option" where
  "QueryUnescape [] = Some []"
| "QueryUnescape (c # cs) =
     (if c = CHR ''%'' then
        (case cs of
           a # b # rest \<Rightarrow>
             (case (hex_value a, hex_value b) of
                (Some x, Some y) \<Rightarrow> map_option (\<lambda>r. char_of (16 * x + y) # r) (QueryUnescape rest)
              | _ \<Rightarrow> None)
         | _ \<Rightarrow> None)
      else map_option (\<lambda>r. (if c = CHR ''+'' then CHR '' '' else c) # r) (QueryUnescape cs))"

text \<open>One field of \<^verbatim>\<open>url.ParseQuery\<close>: an error, nothing, or a key with its value.\<close>

definition parse_field :: "string \<Rightarrow> (string \<times> string) option option" where
  "parse_field f =
     (if CHR '';'' \<in> set f then None
      else if f = [] then Some None
      else
        let (k, v, _) = strings_Cut (CHR ''='') f
        in case (QueryUnescape k, QueryUnescape v) of
             (Some k', Some v') \<Rightarrow> Some (Some (k', v'))
           | _ \<Rightarrow> None)"

text \<open>
  \<^verbatim>\<open>url.ParseQuery\<close>: the fields between ampersands; a bad field makes the result an error. (A
  query of ten thousand fields or more, which the library refuses, does not occur.)
\<close>

definition ParseQuery :: "string \<Rightarrow> (string \<times> string) list option" where
  "ParseQuery q =
     (let fs = map parse_field (split_at (CHR ''&'') q)
      in if None \<in> set fs then None else Some (List.map_filter id (map the fs)))"

definition query_values :: "string \<Rightarrow> (string \<times> string) list \<Rightarrow> string list" where
  "query_values k kvs = map snd (filter (\<lambda>kv. fst kv = k) kvs)"

section \<open>Operations\<close>

definition isHTTP :: "auth_request \<Rightarrow> bool" where
  "isHTTP req \<longleftrightarrow>
     au_Protocol req = ProtocolHLS \<or> au_Protocol req = ProtocolWebRTC \<or>
     au_Action req = AuthActionPlayback \<or> au_Action req = AuthActionAPI \<or>
     au_Action req = AuthActionMetrics \<or> au_Action req = AuthActionPprof"

text \<open>Whether one permission grants a request.\<close>

definition permission_grants :: "auth_env \<Rightarrow> auth_request \<Rightarrow> permission \<Rightarrow> bool" where
  "permission_grants env req perm =
     (if perm_Action perm \<noteq> au_Action req then False
      else if perm_Action perm = AuthActionPublish \<or> perm_Action perm = AuthActionRead \<or>
              perm_Action perm = AuthActionPlayback then
        (if perm_Path perm = [] then True
         else if has_prefix (perm_Path perm) ''~'' then
           (case MatchString env (drop 1 (perm_Path perm)) of None \<Rightarrow> False | Some m \<Rightarrow> m (au_Path req))
         else perm_Path perm = au_Path req)
      else True)"

definition matchesPermission :: "auth_env \<Rightarrow> permission list \<Rightarrow> auth_request \<Rightarrow> bool" where
  "matchesPermission env perms req \<longleftrightarrow> (\<exists>perm \<in> set perms. permission_grants env req perm)"

definition getToken :: "bool \<Rightarrow> auth_request \<Rightarrow> string" where
  "getToken tokenInHTTPQuery req =
     (if cr_Token (au_Credentials req) \<noteq> [] then cr_Token (au_Credentials req)
      else if cr_Pass (au_Credentials req) \<noteq> [] then cr_Pass (au_Credentials req)
      else if au_Protocol req = ProtocolRTSP \<or> au_Protocol req = ProtocolRTMP \<or>
              tokenInHTTPQuery \<and> isHTTP req then
        (case ParseQuery (au_Query req) of
           None \<Rightarrow> []
         | Some v \<Rightarrow>
             (case query_values ''token'' v of
                [t] \<Rightarrow> t
              | _ \<Rightarrow> (case query_values ''jwt'' v of [t] \<Rightarrow> t | _ \<Rightarrow> [])))
      else [])"

definition authenticateWithUser :: "auth_env \<Rightarrow> auth_request \<Rightarrow> internal_user \<Rightarrow> bool" where
  "authenticateWithUser env req u =
     (if iu_IPs u \<noteq> [] \<and> \<not> IPNetworks_Contains (iu_IPs u) (au_IP req) then False
      else if \<not> matchesPermission env (iu_Permissions u) req then False
      else if iu_User u \<noteq> ''any'' then
        (case au_CustomVerifyFunc req of
           Some f \<Rightarrow> f (iu_User u) (iu_Pass u)
         | None \<Rightarrow> credential_Check env (iu_User u) (cr_User (au_Credentials req)) \<and>
                   credential_Check env (iu_Pass u) (cr_Pass (au_Credentials req)))
      else True)"

definition authenticateInternal :: "auth_env \<Rightarrow> auth_request \<Rightarrow> auth_manager \<Rightarrow> auth_cause + string" where
  "authenticateInternal env req m =
     (if \<exists>u \<in> set (InternalUsers m). authenticateWithUser env req u
      then Inr (cr_User (au_Credentials req)) else Inl AuthFailed)"

definition authenticateHTTP :: "auth_env \<Rightarrow> auth_request \<Rightarrow> string \<Rightarrow> auth_manager \<Rightarrow> auth_cause + string" where
  "authenticateHTTP env req token m =
     (if matchesPermission env (HTTPExclude m) req then Inr ''''
      else
        case Post env req token of
          HttpError e \<Rightarrow> Inl (HttpFailed e)
        | HttpStatus code \<Rightarrow>
            if code < 200 \<or> 299 < code then Inl (HttpCode code) else Inr (cr_User (au_Credentials req)))"

definition jwksRefreshPeriod :: int where
  "jwksRefreshPeriod = 60 * 60 * time_Second"

text \<open>\<open>Panic\<close> is the call through a nil key function.\<close>

definition pullJWTJWKS :: "auth_env \<Rightarrow> int \<Rightarrow> auth_manager \<Rightarrow> auth_manager \<times> (auth_cause, keyset) outcome" where
  "pullJWTJWKS env now m =
     (if jwksRefreshPeriod \<le> time_since now (jwksLastRefresh m) then
        (case FetchJWKS env of
           Inl e \<Rightarrow> (m, Fail (JwksFailed e))
         | Inr keys \<Rightarrow> (m\<lparr>jwtKeyFunc := Some keys, jwksLastRefresh := Some now\<rparr>, Ret keys))
      else (m, case jwtKeyFunc m of None \<Rightarrow> Panic | Some keys \<Rightarrow> Ret keys))"

definition RefreshJWTJWKS :: "auth_manager \<Rightarrow> auth_manager" where
  "RefreshJWTJWKS m = m\<lparr>jwksLastRefresh := None\<rparr>"

definition jwt_decide :: "auth_env \<Rightarrow> auth_request \<Rightarrow> string \<Rightarrow> keyset \<Rightarrow> (auth_cause, string) outcome" where
  "jwt_decide env req token keys =
     (if token = [] then Fail JwtNotProvided
      else
        case ParseWithClaims env keys token of
          Inl e \<Rightarrow> Fail (JwtInvalid e)
        | Inr (subject, permissions) \<Rightarrow>
            if matchesPermission env permissions req then Ret subject else Fail JwtNoPermission)"

definition authenticateJWT ::
  "auth_env \<Rightarrow> int \<Rightarrow> auth_request \<Rightarrow> string \<Rightarrow> auth_manager \<Rightarrow> auth_manager \<times> (auth_cause, string) outcome" where
  "authenticateJWT env now req token m =
     (if matchesPermission env (JWTExclude m) req then (m, Ret '''')
      else let (m1, r) = pullJWTJWKS env now m in (m1, obind r (jwt_decide env req token)))"

definition ReloadInternalUsers :: "internal_user list \<Rightarrow> auth_manager \<Rightarrow> auth_manager" where
  "ReloadInternalUsers u m = m\<lparr>InternalUsers := u\<rparr>"

definition request_token :: "auth_manager \<Rightarrow> auth_request \<Rightarrow> string" where
  "request_token m req =
     (if Method m = AuthMethodHTTP \<or> Method m = AuthMethodJWT
      then getToken (Method m = AuthMethodJWT \<and> JWTInHTTPQuery m = Some True) req else [])"

definition Authenticate ::
  "auth_env \<Rightarrow> int \<Rightarrow> auth_request \<Rightarrow> auth_manager \<Rightarrow> auth_manager \<times> (auth_error, string) outcome" where
  "Authenticate env now req m =
     (let token = request_token m req;
          (m1, r) =
            (case Method m of
               AuthMethodInternal \<Rightarrow>
                 (m, case authenticateInternal env req m of Inl e \<Rightarrow> Fail e | Inr u \<Rightarrow> Ret u)
             | AuthMethodHTTP \<Rightarrow>
                 (m, case authenticateHTTP env req token m of Inl e \<Rightarrow> Fail e | Inr u \<Rightarrow> Ret u)
             | AuthMethodJWT \<Rightarrow> authenticateJWT env now req token m)
      in (m1, omap_err (\<lambda>e. \<lparr>Wrapped = e,
                AskCredentials = (cr_User (au_Credentials req) = [] \<and> cr_Pass (au_Credentials req) = [] \<and> token = [])\<rparr>) r))"

section \<open>Key sets\<close>

datatype auth_op = OpAuth auth_env int auth_request | OpRefreshKeys | OpReloadUsers "internal_user list"

fun auth_step :: "auth_op \<Rightarrow> auth_manager \<Rightarrow> auth_manager \<times> (auth_error, string) outcome list" where
  "auth_step (OpAuth env now req) m = (let (m', r) = Authenticate env now req m in (m', [r]))"
| "auth_step OpRefreshKeys m = (RefreshJWTJWKS m, [])"
| "auth_step (OpReloadUsers us) m = (ReloadInternalUsers us m, [])"

text \<open>The key set at hand is the one downloaded at \<open>jwksLastRefresh\<close>.\<close>

definition keys_from :: "auth_op set \<Rightarrow> auth_manager \<Rightarrow> bool" where
  "keys_from past m \<longleftrightarrow>
     (\<forall>t. jwksLastRefresh m = Some t \<longrightarrow>
        (\<exists>keys env req. jwtKeyFunc m = Some keys \<and> OpAuth env t req \<in> past \<and> FetchJWKS env = Inr keys))"

lemma keys_from_mono: "keys_from past m \<Longrightarrow> past \<subseteq> past' \<Longrightarrow> keys_from past' m"
  unfolding keys_from_def by blast

lemma pull_keys_from:
  assumes "keys_from past m" "pullJWTJWKS env now m = (m', r)" "OpAuth env now req \<in> past"
  shows "keys_from past m'" "r \<noteq> Panic"
proof -
  show "keys_from past m'"
    using assms unfolding pullJWTJWKS_def keys_from_def by (auto split: if_splits sum.splits) blast
  have "jwtKeyFunc m \<noteq> None" if "\<not> jwksRefreshPeriod \<le> time_since now (jwksLastRefresh m)"
  proof (cases "jwksLastRefresh m")
    case None
    then show ?thesis using that by (simp add: jwksRefreshPeriod_def time_Second_def max_duration_def)
  qed (use assms(1) in \<open>auto simp: keys_from_def\<close>)
  then show "r \<noteq> Panic" using assms(2) by (auto simp: pullJWTJWKS_def split: if_splits sum.splits option.splits)
qed

lemma obind_panic: "obind r f = Panic \<longleftrightarrow> r = Panic \<or> (\<exists>x. r = Ret x \<and> f x = Panic)"
  by (cases r) auto

lemma omap_err_panic [simp]: "omap_err f r = Panic \<longleftrightarrow> r = Panic"
  by (cases r) auto

lemma jwt_decide_no_panic [simp]: "jwt_decide env req token keys \<noteq> Panic"
  by (simp add: jwt_decide_def split: sum.split)

lemma authenticateJWT_keys_from:
  assumes "keys_from past m" "authenticateJWT env now req token m = (m', r)" "OpAuth env now req \<in> past"
  shows "keys_from past m' \<and> r \<noteq> Panic"
proof (cases "matchesPermission env (JWTExclude m) req")
  case True
  then show ?thesis using assms by (auto simp: authenticateJWT_def)
next
  case False
  obtain m1 r1 where p: "pullJWTJWKS env now m = (m1, r1)" by force
  with pull_keys_from [OF assms(1) p assms(3)] False assms(2) show ?thesis
    by (auto simp: authenticateJWT_def Let_def obind_panic)
qed

lemma Authenticate_keys_from:
  assumes "keys_from past m" "Authenticate env now req m = (m', r)" "OpAuth env now req \<in> past"
  shows "keys_from past m' \<and> r \<noteq> Panic"
proof (cases "Method m")
  case AuthMethodJWT
  obtain m1 r1 where j: "authenticateJWT env now req (request_token m req) m = (m1, r1)" by force
  with authenticateJWT_keys_from [OF assms(1) j assms(3)] AuthMethodJWT assms(2) show ?thesis
    by (auto simp: Authenticate_def)
qed (use assms in \<open>auto simp: Authenticate_def Let_def split: sum.splits\<close>)

lemma auth_step_keys_from:
  assumes "keys_from past m" "auth_step op m = (m', e)" "op \<in> past"
  shows "keys_from past m' \<and> Panic \<notin> set e"
proof (cases op)
  case (OpAuth env now req)
  obtain m1 r where a: "Authenticate env now req m = (m1, r)" by force
  with Authenticate_keys_from [OF assms(1) a] assms OpAuth show ?thesis by auto
qed (use assms in \<open>auto simp: RefreshJWTJWKS_def ReloadInternalUsers_def keys_from_def\<close>)

lemma auth_run_keys_from:
  "keys_from past m \<Longrightarrow> set ops \<subseteq> past \<Longrightarrow> run_steps auth_step ops m = (m', e) \<Longrightarrow>
   keys_from past m' \<and> Panic \<notin> set e"
proof (induction ops arbitrary: m e)
  case (Cons op ops)
  obtain m1 e1 where 1: "auth_step op m = (m1, e1)" by force
  obtain e2 where 2: "run_steps auth_step ops m1 = (m', e2)" "e = e1 @ e2"
    using Cons.prems(3) 1 by (auto split: prod.splits)
  have "keys_from past m1 \<and> Panic \<notin> set e1" using auth_step_keys_from [OF Cons.prems(1) 1] Cons.prems(2) by simp
  with Cons.IH [OF _ _ 2(1)] Cons.prems(2) 2(2) show ?case by auto
qed simp

section \<open>Correctness\<close>

lemma pull_fresh:
  "pullJWTJWKS env now m = (m', Ret keys) \<Longrightarrow>
   FetchJWKS env = Inr keys \<or>
   (\<exists>t. jwksLastRefresh m = Some t \<and> jwtKeyFunc m = Some keys \<and> now - t < jwksRefreshPeriod)"
  by (cases "jwksLastRefresh m")
     (auto simp: pullJWTJWKS_def jwksRefreshPeriod_def time_Second_def max_duration_def
      split: if_splits sum.splits option.splits)

text \<open>C29.
  For every sequence of authentications, key refreshes and user reloads: no authentication panics on
  a missing key set, and the key set a JWT is verified with was downloaded less than an hour before,
  by this request or by an earlier one.
\<close>
theorem auth_keys_fresh:
  assumes "jwksLastRefresh m0 = None" "run_steps auth_step past m0 = (m, e)"
    and "pullJWTJWKS env now m = (m', r)"
  shows "Panic \<notin> set e \<and> r \<noteq> Panic \<and>
    (\<forall>keys. r = Ret keys \<longrightarrow> FetchJWKS env = Inr keys \<or>
       (\<exists>env' t req. OpAuth env' t req \<in> set past \<and> FetchJWKS env' = Inr keys \<and> now - t < jwksRefreshPeriod))"
proof -
  have "keys_from (set past) m0" using assms(1) by (simp add: keys_from_def)
  from auth_run_keys_from [OF this _ assms(2)] have k: "keys_from (set past) m" "Panic \<notin> set e" by auto
  let ?past = "insert (OpAuth env now undefined) (set past)"
  have "keys_from ?past m" by (rule keys_from_mono [OF k(1)]) auto
  from pull_keys_from(2) [OF this assms(3)] have "r \<noteq> Panic" by auto
  moreover have "FetchJWKS env = Inr keys \<or>
       (\<exists>env' t req. OpAuth env' t req \<in> set past \<and> FetchJWKS env' = Inr keys \<and> now - t < jwksRefreshPeriod)"
    if "r = Ret keys" for keys
    using pull_fresh [of env now m m' keys] assms(3) that k(1) by (auto simp: keys_from_def) blast
  ultimately show ?thesis using k(2) by blast
qed

definition sample_auth_request :: auth_request where
  "sample_auth_request =
     \<lparr>au_Action = AuthActionRead, au_Path = ''cam'', au_Query = ''jwt=a%2Bb'', au_Protocol = ProtocolRTSP,
      au_ID = None, au_UserAgent = '''', au_Credentials = \<lparr>cr_User = '''', cr_Pass = '''', cr_Token = ''''\<rparr>,
      au_IP = [10, 0, 0, 7], au_CustomVerifyFunc = None\<rparr>"

definition sample_env :: auth_env where
  "sample_env =
     \<lparr>MatchString = (\<lambda>re. None), sha256Base64 = (\<lambda>s. s), VerifyEncoded = (\<lambda>g h. False),
      Post = (\<lambda>req token. HttpStatus 200), FetchJWKS = Inr 7,
      ParseWithClaims = (\<lambda>keys token. if token = ''a+b'' then Inr (''alice'', [\<lparr>perm_Action = AuthActionRead, perm_Path = ''cam''\<rparr>])
                                     else Inl ''bad signature'')\<rparr>"

definition sample_jwt_manager :: auth_manager where
  "sample_jwt_manager =
     \<lparr>Method = AuthMethodJWT, InternalUsers = [], HTTPExclude = [], JWTExclude = [], JWTInHTTPQuery = None,
      jwksLastRefresh = None, jwtKeyFunc = None\<rparr>"

theorem auth_keys_fresh_witness:
  "\<exists>m e m'. run_steps auth_step [OpAuth sample_env 1000 sample_auth_request] sample_jwt_manager = (m, e) \<and>
     e = [Ret ''alice''] \<and> pullJWTJWKS sample_env 2000 m = (m', Ret 7) \<and> FetchJWKS sample_env = Inr 7"
proof -
  have run: "run_steps auth_step [OpAuth sample_env 1000 sample_auth_request] sample_jwt_manager =
      (sample_jwt_manager\<lparr>jwtKeyFunc := Some 7, jwksLastRefresh := Some 1000\<rparr>, [Ret ''alice''])"
    by code_simp
  let ?m = "sample_jwt_manager\<lparr>jwtKeyFunc := Some 7, jwksLastRefresh := Some 1000\<rparr>"
  have pull: "pullJWTJWKS sample_env 2000 ?m = (?m, Ret 7)"
    by (simp add: pullJWTJWKS_def jwksRefreshPeriod_def time_Second_def)
  have "jwksLastRefresh sample_jwt_manager = None" by (simp add: sample_jwt_manager_def)
  from auth_keys_fresh [OF this run pull] run pull show ?thesis by (auto simp: sample_env_def)
qed

end
