(* ===== verification/Path_Manager.thy ===== *)
theory Path_Manager
  imports Core_Path_Loop Auth_Manager "HOL-Library.AList"
begin

text \<open>
  \<^verbatim>\<open>internal/core/path_manager.go\<close>: the owner of all paths. Its goroutine \<open>run\<close> receives one request
  at a time, so a handler is a function from the state to the new state and the list of its
  effects (responses, and calls on paths and on the HLS server). What the code calls through
  interfaces is a parameter: \<open>authenticate\<close> (the authentication manager), the admin store's
  \<^verbatim>\<open>IsStreamAllowed\<close>, and \<open>find_submatch\<close> (regular expressions).
\<close>

section \<open>State\<close>

text \<open>A pointer to a path: which one it is, and its immutable name.\<close>

record path_ref =
  ref_id :: nat
  ref_name :: string

text \<open>
  What the manager knows of a path: \<open>m_conf\<close> is the configuration the path was created with or was
  last sent with \<open>reloadConf\<close>.
\<close>

record managed =
  m_ref :: path_ref
  m_confName :: string
  m_conf :: path_conf
  m_matches :: "string list"
  m_ready :: bool

type_synonym stream_checker = "string \<Rightarrow> string + bool"

record path_manager =
  pathConfs :: "(string \<times> path_conf) list"
  paths :: "(string \<times> managed) list"
  nextPath :: nat
  pendingOf :: "nat \<Rightarrow> int"
  hlsServer :: bool
  adminStore :: "stream_checker option"

record access_request =
  ar_Name :: string
  ar_Query :: string
  ar_UserAgent :: string
  ar_Publish :: bool
  ar_SkipAuth :: bool
  ar_Proto :: protocol
  ar_ID :: "nat option"
  ar_Credentials :: credentials
  ar_IP :: ip
  ar_CustomVerifyFunc :: "(string \<Rightarrow> string \<Rightarrow> bool) option"

definition ToAuthRequest :: "access_request \<Rightarrow> auth_request" where
  "ToAuthRequest r =
     \<lparr>au_Action = (if ar_Publish r then AuthActionPublish else AuthActionRead),
      au_Path = ar_Name r, au_Query = ar_Query r, au_Protocol = ar_Proto r, au_ID = ar_ID r,
      au_UserAgent = ar_UserAgent r, au_Credentials = ar_Credentials r, au_IP = ar_IP r,
      au_CustomVerifyFunc = ar_CustomVerifyFunc r\<rparr>"

type_synonym authenticator = "auth_request \<Rightarrow> auth_error + string"
type_synonym matcher = "string \<Rightarrow> string \<Rightarrow> string list option"

datatype pm_err =
    ConfErr find_error | AuthErr auth_error | PublishRefused string | ConfChanged | PathNotFound

datatype pm_eff =
    PathCreated nat string path_conf "string list"
  | PathClosed path_ref
  | PathReload path_ref path_conf
  | HlsReady path_ref | HlsNotReady path_ref
  | ResFindPathConf "pm_err + path_conf \<times> string"
  | ResPublishAllowed bool
  | ResDescribePath "pm_err + path_ref"
  | ResReaderPath "pm_err + path_ref \<times> string"
  | ResPublisherPath "pm_err + path_ref \<times> string"
  | ResReadyPaths "path_ref list"
  | ResPathsList "(string \<times> path_ref) list"
  | ResPathsGet "pm_err + path_ref"

section \<open>Operations\<close>

definition createPath ::
  "path_conf \<Rightarrow> string \<Rightarrow> string list \<Rightarrow> path_manager \<Rightarrow> path_manager \<times> pm_eff list" where
  "createPath c name matches pm =
     (let pa = \<lparr>m_ref = \<lparr>ref_id = nextPath pm, ref_name = name\<rparr>, m_confName = Name c, m_conf = c,
                m_matches = matches, m_ready = False\<rparr>
      in (pm\<lparr>paths := AList.update name pa (paths pm), nextPath := Suc (nextPath pm),
             pendingOf := (pendingOf pm)(nextPath pm := 0)\<rparr>,
          [PathCreated (nextPath pm) name c matches]))"

definition doClosePath :: "path_ref \<Rightarrow> path_manager \<Rightarrow> path_manager \<times> pm_eff list" where
  "doClosePath pa pm = (pm\<lparr>paths := AList.delete (ref_name pa) (paths pm)\<rparr>, [PathClosed pa])"

definition removePath :: "path_ref \<Rightarrow> path_manager \<Rightarrow> path_manager" where
  "removePath pa pm =
     (case map_of (paths pm) (ref_name pa) of
        Some pa2 \<Rightarrow> if m_ref pa2 = pa then pm\<lparr>paths := AList.delete (ref_name pa) (paths pm)\<rparr> else pm
      | None \<Rightarrow> pm)"

definition closePathIfIdle :: "path_ref \<Rightarrow> path_manager \<Rightarrow> path_manager \<times> pm_eff list" where
  "closePathIfIdle pa pm = (if pendingOf pm (ref_id pa) = 0 then doClosePath pa pm else (pm, []))"

text \<open>The last loop of \<open>doReloadConf\<close>, and the loop of \<open>initialize\<close>.\<close>

fun create_static :: "(string \<times> path_conf) list \<Rightarrow> path_manager \<Rightarrow> path_manager \<times> pm_eff list" where
  "create_static [] pm = (pm, [])"
| "create_static ((pathConfName, c) # cs) pm =
     (if Regexp c = None \<and> map_of (paths pm) pathConfName = None then
        (let (pm1, e1) = createPath c pathConfName [] pm; (pm2, e2) = create_static cs pm1
         in (pm2, e1 @ e2))
      else create_static cs pm)"

fun init_paths :: "(string \<times> path_conf) list \<Rightarrow> path_manager \<Rightarrow> path_manager \<times> pm_eff list" where
  "init_paths [] pm = (pm, [])"
| "init_paths ((_, c) # cs) pm =
     (if Regexp c = None then
        (let (pm1, e1) = createPath c (Name c) [] pm; (pm2, e2) = init_paths cs pm1 in (pm2, e1 @ e2))
      else init_paths cs pm)"

definition pm_initialize :: "(string \<times> path_conf) list \<Rightarrow> path_manager \<times> pm_eff list" where
  "pm_initialize confs =
     init_paths confs
       \<lparr>pathConfs = confs, paths = [], nextPath = 0, pendingOf = (\<lambda>_. 0), hlsServer = False,
        adminStore = None\<rparr>"

text \<open>The first loop of \<open>doReloadConf\<close>: which configurations changed, and how.\<close>

definition confsToRecreate :: "(string \<times> path_conf) list \<Rightarrow> (string \<times> path_conf) list \<Rightarrow> string list" where
  "confsToRecreate old new =
     map fst (filter (\<lambda>(k, c). case map_of new k of
                Some c' \<Rightarrow> c' \<noteq> c \<and> \<not> pathConfCanBeUpdated c c' | None \<Rightarrow> False) old)"

definition confsToReload :: "(string \<times> path_conf) list \<Rightarrow> (string \<times> path_conf) list \<Rightarrow> string list" where
  "confsToReload old new =
     map fst (filter (\<lambda>(k, c). case map_of new k of
                Some c' \<Rightarrow> c' \<noteq> c \<and> pathConfCanBeUpdated c c' | None \<Rightarrow> False) old)"

text \<open>
  The second loop: existing paths. \<open>None\<close> is a nil dereference, of a configuration that is not in
  the old map any more.
\<close>

datatype reload_decision = Keep | Reload path_conf | Move path_conf | Close | NilConf

definition reload_decide ::
  "matcher \<Rightarrow> (string \<times> path_conf) list \<Rightarrow> (string \<times> path_conf) list \<Rightarrow> string \<Rightarrow> managed \<Rightarrow>
   reload_decision" where
  "reload_decide find_submatch old new pathName pa =
     (case FindPathConf find_submatch new pathName of
        Inl _ \<Rightarrow> Close
      | Inr (newPathConf, _) \<Rightarrow>
          if Name newPathConf \<noteq> m_confName pa then
            (case map_of old (m_confName pa) of
               None \<Rightarrow> NilConf
             | Some oldPathConf \<Rightarrow>
                 if pathConfCanBeUpdated oldPathConf newPathConf then Move newPathConf else Close)
          else if Name newPathConf \<in> set (confsToRecreate old new) then Close
          else if Name newPathConf \<in> set (confsToReload old new) then Reload newPathConf
          else Keep)"

text \<open>
  In the source, \<^verbatim>\<open>go pa.reloadConf(...)\<close> starts a goroutine that delivers the configuration to the
  path.
\<close>

fun reload_paths ::
  "matcher \<Rightarrow> (string \<times> path_conf) list \<Rightarrow> (string \<times> managed) list \<Rightarrow> path_manager \<Rightarrow>
   (path_manager \<times> pm_eff list) option" where
  "reload_paths find_submatch new [] pm = Some (pm, [])"
| "reload_paths find_submatch new ((pathName, pa) # ps) pm =
     (case (case reload_decide find_submatch (pathConfs pm) new pathName pa of
              NilConf \<Rightarrow> None
            | Keep \<Rightarrow> Some (pm, [])
            | Close \<Rightarrow> Some (doClosePath (m_ref pa) pm)
            | Reload c \<Rightarrow>
                Some (pm\<lparr>paths := AList.update pathName (pa\<lparr>m_conf := c\<rparr>) (paths pm)\<rparr>,
                      [PathReload (m_ref pa) c])
            | Move c \<Rightarrow>
                Some (pm\<lparr>paths := AList.update pathName (pa\<lparr>m_confName := Name c, m_conf := c\<rparr>) (paths pm)\<rparr>,
                      [PathReload (m_ref pa) c])) of
        None \<Rightarrow> None
      | Some (pm1, e1) \<Rightarrow>
          (case reload_paths find_submatch new ps pm1 of
             None \<Rightarrow> None
           | Some (pm2, e2) \<Rightarrow> Some (pm2, e1 @ e2)))"

definition pm_doReloadConf ::
  "matcher \<Rightarrow> (string \<times> path_conf) list \<Rightarrow> path_manager \<Rightarrow> (path_manager \<times> pm_eff list) option" where
  "pm_doReloadConf find_submatch newPaths pm =
     (case reload_paths find_submatch newPaths (paths pm) pm of
        None \<Rightarrow> None
      | Some (pm1, e1) \<Rightarrow>
          (let (pm2, e2) = create_static newPaths (pm1\<lparr>pathConfs := newPaths\<rparr>)
           in Some (pm2, e1 @ e2)))"

definition doSetHLSServer :: "bool \<Rightarrow> path_manager \<Rightarrow> path_manager \<times> path_ref list" where
  "doSetHLSServer srv pm =
     (pm\<lparr>hlsServer := srv\<rparr>, map (\<lambda>(_, pa). m_ref pa) (filter (\<lambda>(_, pa). m_ready pa) (paths pm)))"

definition setReadyFlag :: "bool \<Rightarrow> path_ref \<Rightarrow> path_manager \<Rightarrow> path_manager" where
  "setReadyFlag b pa pm =
     (case map_of (paths pm) (ref_name pa) of
        Some pa2 \<Rightarrow> pm\<lparr>paths := AList.update (ref_name pa) (pa2\<lparr>m_ready := b\<rparr>) (paths pm)\<rparr>
      | None \<Rightarrow> pm)"

definition isCurrent :: "path_ref \<Rightarrow> path_manager \<Rightarrow> bool" where
  "isCurrent pa pm \<longleftrightarrow> map_option m_ref (map_of (paths pm) (ref_name pa)) = Some pa"

definition doSetPathReady :: "path_ref \<Rightarrow> path_manager \<Rightarrow> path_manager \<times> pm_eff list" where
  "doSetPathReady pa pm =
     (if \<not> isCurrent pa pm then (pm, [])
      else (setReadyFlag True pa pm, if hlsServer pm then [HlsReady pa] else []))"

definition doSetPathNotReady :: "path_ref \<Rightarrow> path_manager \<Rightarrow> path_manager \<times> pm_eff list" where
  "doSetPathNotReady pa pm =
     (if \<not> isCurrent pa pm then (pm, [])
      else (setReadyFlag False pa pm, if hlsServer pm then [HlsNotReady pa] else []))"

definition doFindPathConf :: "matcher \<Rightarrow> authenticator \<Rightarrow> access_request \<Rightarrow> path_manager \<Rightarrow> pm_eff" where
  "doFindPathConf find_submatch authenticate req pm =
     (case FindPathConf find_submatch (pathConfs pm) (ar_Name req) of
        Inl e \<Rightarrow> ResFindPathConf (Inl (ConfErr e))
      | Inr (c, _) \<Rightarrow>
          (case authenticate (ToAuthRequest req) of
             Inl e \<Rightarrow> ResFindPathConf (Inl (AuthErr e))
           | Inr user \<Rightarrow> ResFindPathConf (Inr (c, user))))"

definition isStreamAllowedUnsafe :: "string \<Rightarrow> path_manager \<Rightarrow> bool" where
  "isStreamAllowedUnsafe pathName pm =
     (case adminStore pm of
        None \<Rightarrow> True
      | Some store \<Rightarrow> (case store pathName of Inl _ \<Rightarrow> True | Inr allowed \<Rightarrow> allowed))"

text \<open>
  The common tail of the three request handlers: the path is created if it does not exist, and
  the request is announced to it.
\<close>

definition take_path ::
  "path_conf \<Rightarrow> string \<Rightarrow> string list \<Rightarrow> path_manager \<Rightarrow> path_manager \<times> pm_eff list \<times> path_ref" where
  "take_path c name matches pm =
     (let (pm1, e1) = (if map_of (paths pm) name = None then createPath c name matches pm else (pm, []));
          pa = (case map_of (paths pm1) name of Some m \<Rightarrow> m_ref m | None \<Rightarrow> \<lparr>ref_id = 0, ref_name = name\<rparr>)
      in (pm1\<lparr>pendingOf := (pendingOf pm1)(ref_id pa := pendingOf pm1 (ref_id pa) + 1)\<rparr>, e1, pa))"

text \<open>The user is the empty string when authentication is skipped.\<close>

definition check_auth :: "authenticator \<Rightarrow> access_request \<Rightarrow> auth_error + string" where
  "check_auth authenticate req =
     (if ar_SkipAuth req then Inr '''' else authenticate (ToAuthRequest req))"

definition pm_doDescribe ::
  "matcher \<Rightarrow> authenticator \<Rightarrow> access_request \<Rightarrow> path_manager \<Rightarrow> path_manager \<times> pm_eff list" where
  "pm_doDescribe find_submatch authenticate req pm =
     (case FindPathConf find_submatch (pathConfs pm) (ar_Name req) of
        Inl e \<Rightarrow> (pm, [ResDescribePath (Inl (ConfErr e))])
      | Inr (c, matches) \<Rightarrow>
          (case check_auth authenticate req of
             Inl e \<Rightarrow> (pm, [ResDescribePath (Inl (AuthErr e))])
           | Inr _ \<Rightarrow>
               (let (pm1, e1, pa) = take_path c (ar_Name req) matches pm
                in (pm1, e1 @ [ResDescribePath (Inr pa)]))))"

definition pm_doAddReader ::
  "matcher \<Rightarrow> authenticator \<Rightarrow> access_request \<Rightarrow> path_manager \<Rightarrow> path_manager \<times> pm_eff list" where
  "pm_doAddReader find_submatch authenticate req pm =
     (case FindPathConf find_submatch (pathConfs pm) (ar_Name req) of
        Inl e \<Rightarrow> (pm, [ResReaderPath (Inl (ConfErr e))])
      | Inr (c, matches) \<Rightarrow>
          (case check_auth authenticate req of
             Inl e \<Rightarrow> (pm, [ResReaderPath (Inl (AuthErr e))])
           | Inr user \<Rightarrow>
               (let (pm1, e1, pa) = take_path c (ar_Name req) matches pm
                in (pm1, e1 @ [ResReaderPath (Inr (pa, user))]))))"

definition pm_doAddPublisher ::
  "matcher \<Rightarrow> authenticator \<Rightarrow> access_request \<Rightarrow> path_conf option \<Rightarrow> path_manager \<Rightarrow>
   path_manager \<times> pm_eff list" where
  "pm_doAddPublisher find_submatch authenticate req confToCompare pm =
     (case FindPathConf find_submatch (pathConfs pm) (ar_Name req) of
        Inl e \<Rightarrow> (pm, [ResPublisherPath (Inl (ConfErr e))])
      | Inr (c, matches) \<Rightarrow>
          if \<not> isStreamAllowedUnsafe (ar_Name req) pm then
            (pm, [ResPublisherPath (Inl (PublishRefused (ar_Name req)))])
          else if confToCompare \<noteq> None \<and> confToCompare \<noteq> Some c then
            (pm, [ResPublisherPath (Inl ConfChanged)])
          else
            (case check_auth authenticate req of
               Inl e \<Rightarrow> (pm, [ResPublisherPath (Inl (AuthErr e))])
             | Inr user \<Rightarrow>
                 (let (pm1, e1, pa) = take_path c (ar_Name req) matches pm
                  in (pm1, e1 @ [ResPublisherPath (Inr (pa, user))]))))"

definition doAPIPathsList :: "path_manager \<Rightarrow> (string \<times> path_ref) list" where
  "doAPIPathsList pm = map (\<lambda>(k, pa). (k, m_ref pa)) (paths pm)"

definition pm_doAPIPathsGet :: "string \<Rightarrow> path_manager \<Rightarrow> pm_err + path_ref" where
  "pm_doAPIPathsGet name pm =
     (case map_of (paths pm) name of None \<Rightarrow> Inl PathNotFound | Some pa \<Rightarrow> Inr (m_ref pa))"

text \<open>The rounds of \<open>run\<close>, and the atomic decrement of \<^verbatim>\<open>pendingRequests\<close> by a path.\<close>

datatype pm_event =
    PmReloadConf "(string \<times> path_conf) list"
  | PmSetHLSServer bool
  | PmSetAdminStore "stream_checker option"
  | PmRemovePath path_ref
  | PmClosePathIfIdle path_ref
  | PmSetPathReady path_ref
  | PmSetPathNotReady path_ref
  | PmFindPathConf access_request
  | PmIsPublishAllowed string
  | PmDescribe access_request
  | PmAddReader access_request
  | PmAddPublisher access_request "path_conf option"
  | PmAPIPathsList
  | PmAPIPathsGet string
  | PmRequestDone path_ref

fun pm_step ::
  "matcher \<Rightarrow> authenticator \<Rightarrow> pm_event \<Rightarrow> path_manager \<Rightarrow> (path_manager \<times> pm_eff list) option" where
  "pm_step fs au (PmReloadConf newPaths) pm = pm_doReloadConf fs newPaths pm"
| "pm_step fs au (PmSetHLSServer srv) pm =
     (let (pm1, refs) = doSetHLSServer srv pm in Some (pm1, [ResReadyPaths refs]))"
| "pm_step fs au (PmSetAdminStore store) pm = Some (pm\<lparr>adminStore := store\<rparr>, [])"
| "pm_step fs au (PmRemovePath pa) pm = Some (removePath pa pm, [])"
| "pm_step fs au (PmClosePathIfIdle pa) pm = Some (closePathIfIdle pa pm)"
| "pm_step fs au (PmSetPathReady pa) pm = Some (doSetPathReady pa pm)"
| "pm_step fs au (PmSetPathNotReady pa) pm = Some (doSetPathNotReady pa pm)"
| "pm_step fs au (PmFindPathConf req) pm = Some (pm, [doFindPathConf fs au req pm])"
| "pm_step fs au (PmIsPublishAllowed name) pm =
     Some (pm, [ResPublishAllowed (isStreamAllowedUnsafe name pm)])"
| "pm_step fs au (PmDescribe req) pm = Some (pm_doDescribe fs au req pm)"
| "pm_step fs au (PmAddReader req) pm = Some (pm_doAddReader fs au req pm)"
| "pm_step fs au (PmAddPublisher req cmp) pm = Some (pm_doAddPublisher fs au req cmp pm)"
| "pm_step fs au PmAPIPathsList pm = Some (pm, [ResPathsList (doAPIPathsList pm)])"
| "pm_step fs au (PmAPIPathsGet name) pm = Some (pm, [ResPathsGet (pm_doAPIPathsGet name pm)])"
| "pm_step fs au (PmRequestDone pa) pm =
     Some (pm\<lparr>pendingOf := (pendingOf pm)(ref_id pa := pendingOf pm (ref_id pa) - 1)\<rparr>, [])"

section \<open>The invariant\<close>

text \<open>
  Every path is stored under its name, and has been told the configuration that the search finds
  for that name in the current map.
\<close>

definition managed_ok :: "matcher \<Rightarrow> (string \<times> path_conf) list \<Rightarrow> nat \<Rightarrow> string \<Rightarrow> managed \<Rightarrow> bool" where
  "managed_ok fs confs n k m \<longleftrightarrow>
     ref_name (m_ref m) = k \<and> ref_id (m_ref m) < n \<and> m_confName m = Name (m_conf m) \<and>
     (\<exists>g. FindPathConf fs confs k = Inr (m_conf m, g))"

text \<open>The shape of the map of paths, with a predicate on its entries.\<close>

definition shape :: "(string \<Rightarrow> managed \<Rightarrow> bool) \<Rightarrow> (string \<times> managed) list \<Rightarrow> bool" where
  "shape P al \<longleftrightarrow>
     distinct (map fst al) \<and> inj_on (\<lambda>(_, m). ref_id (m_ref m)) (set al) \<and>
     (\<forall>(k, m) \<in> set al. P k m)"

definition pm_inv :: "matcher \<Rightarrow> path_manager \<Rightarrow> bool" where
  "pm_inv fs pm \<longleftrightarrow>
     wf_confs (pathConfs pm) \<and> shape (managed_ok fs (pathConfs pm) (nextPath pm)) (paths pm)"

lemma alist_update_set:
  "distinct (map fst al) \<Longrightarrow> set (AList.update k v al) = insert (k, v) {x \<in> set al. fst x \<noteq> k}"
proof (induction al)
  case (Cons x al)
  then show ?case by (cases x) (auto simp: rev_image_eqI)
qed simp

lemma alist_delete_set: "set (AList.delete k al) = {x \<in> set al. fst x \<noteq> k}"
  by (auto simp: AList.delete_eq)

lemma shape_entry: "shape P al \<Longrightarrow> (k, m) \<in> set al \<Longrightarrow> P k m"
  by (auto simp: shape_def)

lemma shape_mono: "shape P al \<Longrightarrow> (\<And>k m. (k, m) \<in> set al \<Longrightarrow> P k m \<Longrightarrow> Q k m) \<Longrightarrow> shape Q al"
  by (auto simp: shape_def)

lemma shape_delete:
  assumes "shape P al" "\<And>k' m. k' \<noteq> k \<Longrightarrow> P k' m \<Longrightarrow> Q k' m"
  shows "shape Q (AList.delete k al)"
proof -
  have "inj_on (\<lambda>(_, m). ref_id (m_ref m)) (set (AList.delete k al))"
    using assms(1) by (auto simp: shape_def alist_delete_set intro: inj_on_subset)
  then show ?thesis
    using assms by (auto simp: shape_def alist_delete_set AList.distinct_delete)
qed

text \<open>A new entry with a fresh pointer, or a changed entry with its old pointer.\<close>

lemma shape_update:
  assumes sh: "shape P al" and Q: "Q k m" "\<And>k' m. k' \<noteq> k \<Longrightarrow> P k' m \<Longrightarrow> Q k' m"
    and ref: "\<And>k' m'. (k', m') \<in> set al \<Longrightarrow> k' \<noteq> k \<Longrightarrow> ref_id (m_ref m') \<noteq> ref_id (m_ref m)"
  shows "shape Q (AList.update k m al)"
proof -
  have d: "distinct (map fst al)" and inj: "inj_on (\<lambda>(_, m). ref_id (m_ref m)) (set al)"
    using sh by (simp_all add: shape_def)
  have "inj_on (\<lambda>(_, m). ref_id (m_ref m)) (set (AList.update k m al))"
  proof (rule inj_onI, clarify)
    fix k1 m1 k2 m2
    assume *: "(k1, m1) \<in> set (AList.update k m al)" "(k2, m2) \<in> set (AList.update k m al)"
      "ref_id (m_ref m1) = ref_id (m_ref m2)"
    then show "k1 = k2 \<and> m1 = m2"
      using ref [of k1 m1] ref [of k2 m2] inj_onD [OF inj, of "(k1, m1)" "(k2, m2)"]
      unfolding alist_update_set [OF d] by auto
  qed
  moreover have "\<forall>(k', m') \<in> set (AList.update k m al). Q k' m'"
    using sh Q unfolding alist_update_set [OF d] shape_def by auto
  ultimately show ?thesis using d by (simp add: shape_def AList.distinct_update)
qed

lemma shape_modify:
  assumes sh: "shape P al" and m: "(k, m) \<in> set al" "m_ref m' = m_ref m" "Q k m'"
    and Q: "\<And>k' m. k' \<noteq> k \<Longrightarrow> P k' m \<Longrightarrow> Q k' m"
  shows "shape Q (AList.update k m' al)"
proof (rule shape_update [where P = P, OF sh])
  show "Q k m'" by (rule m(3))
  show "k' \<noteq> k \<Longrightarrow> P k' m \<Longrightarrow> Q k' m" for k' m by (rule Q)
  have inj: "inj_on (\<lambda>(_, m). ref_id (m_ref m)) (set al)" using sh by (simp add: shape_def)
  show "ref_id (m_ref m2) \<noteq> ref_id (m_ref m')" if "(k2, m2) \<in> set al" "k2 \<noteq> k" for k2 m2
    using inj_onD [OF inj _ that(1) m(1)] that(2) m(2) by auto
qed

lemma pm_inv_frame [simp]:
  "pm_inv fs (pm\<lparr>pendingOf := f\<rparr>) = pm_inv fs pm" "pm_inv fs (pm\<lparr>hlsServer := b\<rparr>) = pm_inv fs pm"
  "pm_inv fs (pm\<lparr>adminStore := st\<rparr>) = pm_inv fs pm"
  by (simp_all add: pm_inv_def)

lemma pm_inv_delete: "pm_inv fs pm \<Longrightarrow> pm_inv fs (pm\<lparr>paths := AList.delete k (paths pm)\<rparr>)"
  by (auto simp: pm_inv_def intro: shape_delete)

lemma createPath_inv:
  assumes "pm_inv fs pm" "FindPathConf fs (pathConfs pm) name = Inr (c, g)"
  shows "pm_inv fs (fst (createPath c name ms pm))"
proof -
  have sh: "shape (managed_ok fs (pathConfs pm) (nextPath pm)) (paths pm)"
    using assms(1) by (simp add: pm_inv_def)
  let ?m = "\<lparr>m_ref = \<lparr>ref_id = nextPath pm, ref_name = name\<rparr>, m_confName = Name c, m_conf = c,
    m_matches = ms, m_ready = False\<rparr>"
  have "shape (managed_ok fs (pathConfs pm) (Suc (nextPath pm))) (AList.update name ?m (paths pm))"
  proof (rule shape_update [OF sh])
    show "managed_ok fs (pathConfs pm) (Suc (nextPath pm)) name ?m"
      using assms(2) by (simp add: managed_ok_def)
    show "ref_id (m_ref m') \<noteq> ref_id (m_ref ?m)" if "(k', m') \<in> set (paths pm)" for k' m'
      using shape_entry [OF sh that] by (simp add: managed_ok_def)
  qed (simp add: managed_ok_def)
  then show ?thesis using assms(1) by (simp add: createPath_def pm_inv_def)
qed

lemma take_path_inv:
  assumes "pm_inv fs pm" "FindPathConf fs (pathConfs pm) name = Inr (c, g)"
  shows "pm_inv fs (fst (take_path c name ms pm))"
  using createPath_inv [OF assms, of ms] assms(1)
  by (auto simp: take_path_def Let_def split: prod.splits if_splits)

lemma find_static:
  assumes "wf_confs cs" "(k, c) \<in> set cs"
  shows "FindPathConf fs cs k = Inr (c, [])" "Name c = k"
  using assms wf_confs_name [OF assms] by (simp_all add: FindPathConf_def wf_confs_def)

section \<open>Reloading\<close>

lemma reload_decide_ok:
  assumes wf: "wf_confs old" "wf_confs new" and ok: "managed_ok fs old n k m"
  shows "case reload_decide fs old new k m of
      Keep \<Rightarrow> managed_ok fs new n k m
    | Reload c \<Rightarrow> managed_ok fs new n k (m\<lparr>m_conf := c\<rparr>)
    | Move c \<Rightarrow> managed_ok fs new n k (m\<lparr>m_confName := Name c, m_conf := c\<rparr>)
    | Close \<Rightarrow> True
    | NilConf \<Rightarrow> False"
proof (cases "FindPathConf fs new k")
  case (Inl e)
  then show ?thesis by (simp add: reload_decide_def)
next
  case (Inr r)
  obtain c g where r: "r = (c, g)" by (cases r)
  from ok obtain g0 where m: "ref_name (m_ref m) = k" "ref_id (m_ref m) < n" "m_confName m = Name (m_conf m)"
    "FindPathConf fs old k = Inr (m_conf m, g0)" by (auto simp: managed_ok_def)
  have old: "map_of old (m_confName m) = Some (m_conf m)"
    using FindPathConf_member [OF wf(1) m(4)] wf(1) m(3) by (simp add: wf_confs_def)
  have new: "map_of new (Name c) = Some c"
    using FindPathConf_member [OF wf(2), of fs k c g] Inr r wf(2) by (simp add: wf_confs_def)
  have same: "m_conf m = c" if "Name c = m_confName m" "m_confName m \<notin> set (confsToRecreate old new)"
    "m_confName m \<notin> set (confsToReload old new)"
  proof -
    have "(m_confName m, m_conf m) \<in> set old" using old by (rule map_of_SomeD)
    then show ?thesis
      using that new by (force simp: confsToRecreate_def confsToReload_def image_iff)
  qed
  show ?thesis
    using Inr r m old same by (auto simp: reload_decide_def managed_ok_def)
qed

text \<open>During the loop the entries still to be visited are those of the old configurations.\<close>

definition midway ::
  "matcher \<Rightarrow> (string \<times> path_conf) list \<Rightarrow> (string \<times> path_conf) list \<Rightarrow> nat \<Rightarrow>
   (string \<times> managed) list \<Rightarrow> string \<Rightarrow> managed \<Rightarrow> bool" where
  "midway fs old new n ps k m \<longleftrightarrow>
     (if k \<in> fst ` set ps then (k, m) \<in> set ps \<and> managed_ok fs old n k m
      else managed_ok fs new n k m)"

lemma midway_done: "k \<notin> fst ` set ps \<Longrightarrow> midway fs old new n ps k m = managed_ok fs new n k m"
  by (simp add: midway_def)

lemma midway_other:
  "k' \<noteq> k \<Longrightarrow> midway fs old new n ((k, m) # ps) k' m' \<Longrightarrow> midway fs old new n ps k' m'"
  by (auto simp: midway_def split: if_splits)

lemma reload_paths_ok:
  assumes wf: "wf_confs old" "wf_confs new"
    and "shape (midway fs old new n ps) (paths pm)" "set ps \<subseteq> set (paths pm)" "distinct (map fst ps)"
      "pathConfs pm = old" "nextPath pm = n"
  shows "\<exists>pm' e. reload_paths fs new ps pm = Some (pm', e) \<and>
    shape (managed_ok fs new n) (paths pm') \<and> pathConfs pm' = old \<and> nextPath pm' = n"
  using assms(3-)
proof (induction ps arbitrary: pm)
  case Nil
  have "shape (managed_ok fs new n) (paths pm)"
    by (rule shape_mono [OF Nil.prems(1)]) (simp add: midway_def)
  with Nil show ?case by simp
next
  case (Cons p ps)
  obtain k m where p: "p = (k, m)" by (cases p)
  have k: "k \<notin> fst ` set ps" "(k, m) \<in> set (paths pm)" using Cons.prems p by auto
  have ok: "managed_ok fs old n k m"
    using shape_entry [OF Cons.prems(1) k(2)] p by (simp add: midway_def)
  note others = midway_other [of _ k fs old new n m ps]
  have d: "distinct (map fst (paths pm))" using Cons.prems(1) by (simp add: shape_def)
  have keep: "set ps \<subseteq> set (AList.update k x (paths pm))" "set ps \<subseteq> set (AList.delete k (paths pm))" for x
    using Cons.prems(2) k(1) by (auto simp: alist_update_set [OF d] alist_delete_set)
  note dec = reload_decide_ok [OF wf ok]
  have goal: ?case
    if "shape (midway fs old new n ps) (paths pm1)" "set ps \<subseteq> set (paths pm1)" "pathConfs pm1 = old"
      "nextPath pm1 = n"
      "\<And>r. reload_paths fs new ps pm1 = Some r \<Longrightarrow>
         \<exists>e. reload_paths fs new (p # ps) pm = Some (fst r, e)" for pm1
    using Cons.IH [OF that(1,2) _ that(3,4)] Cons.prems(3) that(5) p by fastforce
  note sh = Cons.prems(1) [unfolded p]
  have upd: "shape (midway fs old new n ps) (AList.update k m' (paths pm))"
    if "m_ref m' = m_ref m" "managed_ok fs new n k m'" for m'
    by (rule shape_modify [OF sh k(2) that(1)]) (simp_all add: midway_done [OF k(1)] that(2) others)
  show ?case
  proof (cases "reload_decide fs old new k m")
    case Keep
    have "shape (midway fs old new n ps) (paths pm)"
    proof (rule shape_mono [OF sh])
      fix k' m' assume m': "(k', m') \<in> set (paths pm)" "midway fs old new n ((k, m) # ps) k' m'"
      show "midway fs old new n ps k' m'"
      proof (cases "k' = k")
        case True
        then have "m' = m" using m'(1) k(2) d eq_key_imp_eq_value by fastforce
        with True Keep dec show ?thesis by (simp add: midway_done [OF k(1)])
      next
        case False
        with m'(2) show ?thesis by (rule others [rotated])
      qed
    qed
    then show ?thesis by (rule goal) (use Keep Cons.prems p in auto)
  next
    case (Reload c)
    show ?thesis
      by (rule goal [of "pm\<lparr>paths := AList.update k (m\<lparr>m_conf := c\<rparr>) (paths pm)\<rparr>"])
        (use Reload dec Cons.prems p keep upd in auto)
  next
    case (Move c)
    show ?thesis
      by (rule goal [of "pm\<lparr>paths := AList.update k (m\<lparr>m_confName := Name c, m_conf := c\<rparr>) (paths pm)\<rparr>"])
        (use Move dec Cons.prems p keep upd in auto)
  next
    case Close
    have "ref_name (m_ref m) = k" using ok by (simp add: managed_ok_def)
    moreover have "shape (midway fs old new n ps) (AList.delete k (paths pm))"
      by (rule shape_delete [OF sh]) (rule others)
    ultimately show ?thesis
      by (intro goal [of "pm\<lparr>paths := AList.delete k (paths pm)\<rparr>"])
        (use Close Cons.prems p keep in \<open>auto simp: doClosePath_def\<close>)
  next
    case NilConf
    with dec show ?thesis by simp
  qed
qed

text \<open>Creating the static paths.\<close>

lemma create_static_ok:
  assumes "pm_inv fs pm" "set cs \<subseteq> set (pathConfs pm)"
  shows "pm_inv fs (fst (create_static cs pm)) \<and> pathConfs (fst (create_static cs pm)) = pathConfs pm \<and>
    fst ` set (paths pm) \<subseteq> fst ` set (paths (fst (create_static cs pm))) \<and>
    (\<forall>(k, c) \<in> set cs. Regexp c = None \<longrightarrow> k \<in> fst ` set (paths (fst (create_static cs pm))))"
  using assms
proof (induction cs arbitrary: pm)
  case (Cons x cs)
  obtain k c where x: "x = (k, c)" by (cases x)
  show ?case
  proof (cases "Regexp c = None \<and> map_of (paths pm) k = None")
    case True
    let ?pm1 = "fst (createPath c k [] pm)"
    have wf: "wf_confs (pathConfs pm)" using Cons.prems(1) by (simp add: pm_inv_def)
    have "(k, c) \<in> set (pathConfs pm)" using Cons.prems(2) x by simp
    from createPath_inv [OF Cons.prems(1) find_static(1) [OF wf this]] have "pm_inv fs ?pm1" .
    moreover have "pathConfs ?pm1 = pathConfs pm" "fst ` set (paths ?pm1) = insert k (fst ` set (paths pm))"
      by (simp_all add: createPath_def Let_def AList.dom_update)
    ultimately have IH: "pm_inv fs (fst (create_static cs ?pm1)) \<and>
        pathConfs (fst (create_static cs ?pm1)) = pathConfs pm \<and>
        insert k (fst ` set (paths pm)) \<subseteq> fst ` set (paths (fst (create_static cs ?pm1))) \<and>
        (\<forall>(k, c) \<in> set cs. Regexp c = None \<longrightarrow> k \<in> fst ` set (paths (fst (create_static cs ?pm1))))"
      using Cons.IH [of ?pm1] Cons.prems(2) by simp
    have "fst (create_static (x # cs) pm) = fst (create_static cs ?pm1)"
      using True x by (simp add: split_beta)
    with IH x show ?thesis by auto
  next
    case False
    then have "create_static (x # cs) pm = create_static cs pm" using x by auto
    moreover have "Regexp c = None \<Longrightarrow> k \<in> fst ` set (paths pm)"
      using False by (simp add: map_of_eq_None_iff)
    ultimately show ?thesis using Cons.IH [OF Cons.prems(1)] Cons.prems(2) x by auto
  qed
qed simp

definition static_exist :: "path_manager \<Rightarrow> bool" where
  "static_exist pm \<longleftrightarrow>
     (\<forall>(k, c) \<in> set (pathConfs pm). Regexp c = None \<longrightarrow> k \<in> fst ` set (paths pm))"

lemma doReloadConf_ok:
  assumes "pm_inv fs pm" "wf_confs new"
  shows "\<exists>pm' e. pm_doReloadConf fs new pm = Some (pm', e) \<and> pm_inv fs pm' \<and> pathConfs pm' = new \<and>
    static_exist pm'"
proof -
  let ?old = "pathConfs pm" and ?n = "nextPath pm"
  have sh: "shape (managed_ok fs ?old ?n) (paths pm)" and wf: "wf_confs ?old"
    using assms(1) by (simp_all add: pm_inv_def)
  have "shape (midway fs ?old new ?n (paths pm)) (paths pm)"
    by (rule shape_mono [OF sh]) (force simp: midway_def)
  moreover have "distinct (map fst (paths pm))" using sh by (simp add: shape_def)
  ultimately obtain pm1 e1 where 1: "reload_paths fs new (paths pm) pm = Some (pm1, e1)"
    "shape (managed_ok fs new ?n) (paths pm1)" "nextPath pm1 = ?n"
    using reload_paths_ok [OF wf assms(2), of fs ?n "paths pm" pm] by auto
  have "pm_inv fs (pm1\<lparr>pathConfs := new\<rparr>)" using 1 assms(2) by (simp add: pm_inv_def)
  moreover obtain pm2 e2 where 2: "create_static new (pm1\<lparr>pathConfs := new\<rparr>) = (pm2, e2)" by force
  ultimately have "pm_inv fs pm2 \<and> pathConfs pm2 = new \<and>
      (\<forall>(k, c) \<in> set new. Regexp c = None \<longrightarrow> k \<in> fst ` set (paths pm2))"
    using create_static_ok [of fs "pm1\<lparr>pathConfs := new\<rparr>" new] by simp
  then show ?thesis by (simp add: pm_doReloadConf_def static_exist_def 1 2)
qed

section \<open>Reachable states\<close>

lemma init_paths_ok:
  assumes "pm_inv fs pm" "set cs \<subseteq> set (pathConfs pm)"
  shows "pm_inv fs (fst (init_paths cs pm)) \<and> pathConfs (fst (init_paths cs pm)) = pathConfs pm \<and>
    fst ` set (paths pm) \<subseteq> fst ` set (paths (fst (init_paths cs pm))) \<and>
    (\<forall>(k, c) \<in> set cs. Regexp c = None \<longrightarrow> k \<in> fst ` set (paths (fst (init_paths cs pm)))) \<and>
    ((\<forall>i. pendingOf pm i = 0) \<longrightarrow> (\<forall>i. pendingOf (fst (init_paths cs pm)) i = 0))"
  using assms
proof (induction cs arbitrary: pm)
  case (Cons x cs)
  obtain k c where x: "x = (k, c)" by (cases x)
  show ?case
  proof (cases "Regexp c = None")
    case True
    have wf: "wf_confs (pathConfs pm)" using Cons.prems(1) by (simp add: pm_inv_def)
    have mem: "(k, c) \<in> set (pathConfs pm)" using Cons.prems(2) x by simp
    then have name: "Name c = k" by (rule find_static(2) [OF wf])
    let ?pm1 = "fst (createPath c k [] pm)"
    from createPath_inv [OF Cons.prems(1) find_static(1) [OF wf mem]] have "pm_inv fs ?pm1" .
    moreover have p1: "pathConfs ?pm1 = pathConfs pm" "fst ` set (paths ?pm1) = insert k (fst ` set (paths pm))"
      "(\<forall>i. pendingOf pm i = 0) \<longrightarrow> (\<forall>i. pendingOf ?pm1 i = 0)"
      by (simp_all add: createPath_def Let_def AList.dom_update)
    ultimately have IH: "pm_inv fs (fst (init_paths cs ?pm1)) \<and>
        pathConfs (fst (init_paths cs ?pm1)) = pathConfs pm \<and>
        insert k (fst ` set (paths pm)) \<subseteq> fst ` set (paths (fst (init_paths cs ?pm1))) \<and>
        (\<forall>(k, c) \<in> set cs. Regexp c = None \<longrightarrow> k \<in> fst ` set (paths (fst (init_paths cs ?pm1)))) \<and>
        ((\<forall>i. pendingOf ?pm1 i = 0) \<longrightarrow> (\<forall>i. pendingOf (fst (init_paths cs ?pm1)) i = 0))"
      using Cons.IH [of ?pm1] Cons.prems(2) by simp
    have "fst (init_paths (x # cs) pm) = fst (init_paths cs ?pm1)"
      using True x name by (simp add: split_beta)
    with IH p1(3) x show ?thesis by auto
  next
    case False
    then show ?thesis using Cons.IH [OF Cons.prems(1)] Cons.prems(2) x by auto
  qed
qed simp

text \<open>The paths that a response hands to a client, which then sends its request there.\<close>

fun handed :: "pm_eff \<Rightarrow> path_ref list" where
  "handed (ResDescribePath (Inr pa)) = [pa]"
| "handed (ResReaderPath (Inr (pa, _))) = [pa]"
| "handed (ResPublisherPath (Inr (pa, _))) = [pa]"
| "handed _ = []"

fun outs_after :: "pm_event \<Rightarrow> pm_eff list \<Rightarrow> path_ref list \<Rightarrow> path_ref list" where
  "outs_after (PmRequestDone pa) e outs = remove1 pa outs"
| "outs_after ev e outs = concat (map handed e) @ outs"

text \<open>
  A path reports the end of a request that was handed to a client, and asks to be closed only while
  it is alive (a closed path gives up its call).
\<close>

fun ok_pm_event :: "pm_event \<Rightarrow> path_manager \<Rightarrow> path_ref list \<Rightarrow> bool" where
  "ok_pm_event (PmReloadConf new) pm outs \<longleftrightarrow> wf_confs new"
| "ok_pm_event (PmRequestDone pa) pm outs \<longleftrightarrow> pa \<in> set outs"
| "ok_pm_event (PmClosePathIfIdle pa) pm outs \<longleftrightarrow> isCurrent pa pm"
| "ok_pm_event _ pm outs \<longleftrightarrow> True"

inductive pm_reach :: "matcher \<Rightarrow> authenticator \<Rightarrow> path_manager \<Rightarrow> path_ref list \<Rightarrow> bool" for fs au where
  init: "wf_confs confs \<Longrightarrow> pm_reach fs au (fst (pm_initialize confs)) []"
| step: "pm_reach fs au pm outs \<Longrightarrow> ok_pm_event ev pm outs \<Longrightarrow> pm_step fs au ev pm = Some (pm', e) \<Longrightarrow>
    pm_reach fs au pm' (outs_after ev e outs)"

definition counts_ok :: "path_manager \<Rightarrow> path_ref list \<Rightarrow> bool" where
  "counts_ok pm outs \<longleftrightarrow>
     (\<forall>i. pendingOf pm i = int (count_list (map ref_id outs) i)) \<and>
     (\<forall>pa \<in> set outs. ref_id pa < nextPath pm)"

lemma count_list_remove1:
  "x \<in> set xs \<Longrightarrow> count_list (map f (remove1 x xs)) i = count_list (map f xs) i - (if f x = i then 1 else 0)"
proof (induction xs)
  case (Cons y ys)
  have "f x = i \<Longrightarrow> 0 < count_list (map f ys) i" if "x \<in> set ys"
    using that by (metis count_list_0_iff gr0I imageI list.set_map)
  with Cons show ?case by auto
qed simp

lemma take_path_counts:
  assumes inv: "pm_inv fs pm" and ok: "counts_ok pm outs" and t: "take_path c name ms pm = (pm1, e1, pa)"
  shows "counts_ok pm1 (pa # outs)" "concat (map handed e1) = []" "isCurrent pa pm1" "ref_name pa = name"
proof -
  have sh: "shape (managed_ok fs (pathConfs pm) (nextPath pm)) (paths pm)"
    using inv by (simp add: pm_inv_def)
  have "counts_ok pm1 (pa # outs) \<and> concat (map handed e1) = [] \<and> isCurrent pa pm1 \<and> ref_name pa = name"
  proof (cases "map_of (paths pm) name")
    case None
    have "count_list (map ref_id outs) (nextPath pm) = 0"
      using ok by (fastforce simp: counts_ok_def count_list_0_iff)
    with None t ok show ?thesis
      by (auto simp: take_path_def createPath_def Let_def counts_ok_def AList.update_conv' isCurrent_def
          less_Suc_eq)
  next
    case (Some m)
    from shape_entry [OF sh map_of_SomeD [OF Some]]
    have "ref_id (m_ref m) < nextPath pm" "ref_name (m_ref m) = name" by (simp_all add: managed_ok_def)
    with Some t ok show ?thesis
      by (auto simp: take_path_def Let_def counts_ok_def isCurrent_def)
  qed
  then show "counts_ok pm1 (pa # outs)" "concat (map handed e1) = []" "isCurrent pa pm1" "ref_name pa = name"
    by blast+
qed

lemma counts_createPath: "counts_ok pm outs \<Longrightarrow> counts_ok (fst (createPath c n ms pm)) outs"
proof -
  assume ok: "counts_ok pm outs"
  then have "count_list (map ref_id outs) (nextPath pm) = 0"
    by (fastforce simp: counts_ok_def count_list_0_iff)
  with ok show ?thesis by (auto simp: counts_ok_def createPath_def Let_def less_Suc_eq)
qed

lemma handed_createPath: "concat (map handed (snd (createPath c n ms pm))) = []"
  by (simp add: createPath_def Let_def)

lemma counts_create_static:
  "counts_ok pm outs \<Longrightarrow> counts_ok (fst (create_static cs pm)) outs \<and>
     concat (map handed (snd (create_static cs pm))) = []"
proof (induction cs pm rule: create_static.induct)
  case (2 k c cs pm)
  show ?case
  proof (cases "Regexp c = None \<and> map_of (paths pm) k = None")
    case True
    obtain pm1 e1 where cr: "createPath c k [] pm = (pm1, e1)" by force
    from counts_createPath [OF 2(3), of c k "[]"] cr have "counts_ok pm1 outs" by simp
    moreover have "concat (map handed e1) = []" using handed_createPath [of c k "[]" pm] cr by simp
    ultimately show ?thesis using 2(1) [OF True cr [symmetric] refl] True cr by (simp add: split_beta)
  next
    case False
    with 2 show ?thesis by auto
  qed
qed simp

lemma counts_reload_paths:
  "reload_paths fs new ps pm = Some (pm', e) \<Longrightarrow>
   pendingOf pm' = pendingOf pm \<and> nextPath pm' = nextPath pm \<and> concat (map handed e) = []"
proof (induction ps arbitrary: pm e)
  case (Cons p ps)
  obtain k m where p: "p = (k, m)" by (cases p)
  from Cons.prems p obtain pm1 e1 e2 where r: "reload_paths fs new ps pm1 = Some (pm', e2)" "e = e1 @ e2"
    "pendingOf pm1 = pendingOf pm" "nextPath pm1 = nextPath pm" "concat (map handed e1) = []"
    by (auto simp: doClosePath_def split: reload_decision.splits option.splits)
  from Cons.IH [OF r(1)] r show ?case by simp
qed simp

lemma pm_step_ok:
  assumes inv: "pm_inv fs pm" and cnt: "counts_ok pm outs" and ok: "ok_pm_event ev pm outs"
  shows "\<exists>pm' e. pm_step fs au ev pm = Some (pm', e) \<and> pm_inv fs pm' \<and>
    counts_ok pm' (outs_after ev e outs)"
proof -
  have sh: "shape (managed_ok fs (pathConfs pm) (nextPath pm)) (paths pm)"
    using inv by (simp add: pm_inv_def)
  have del: "pm_inv fs (pm\<lparr>paths := AList.delete k (paths pm)\<rparr>)" for k by (rule pm_inv_delete [OF inv])
  have flag: "pm_inv fs (setReadyFlag b pa pm)" "counts_ok (setReadyFlag b pa pm) outs" for b pa
  proof -
    show "counts_ok (setReadyFlag b pa pm) outs"
      using cnt by (simp add: counts_ok_def setReadyFlag_def split: option.splits)
    show "pm_inv fs (setReadyFlag b pa pm)"
    proof (cases "map_of (paths pm) (ref_name pa)")
      case (Some m)
      have "shape (managed_ok fs (pathConfs pm) (nextPath pm))
          (AList.update (ref_name pa) (m\<lparr>m_ready := b\<rparr>) (paths pm))"
        using shape_entry [OF sh map_of_SomeD [OF Some]]
        by (intro shape_modify [OF sh map_of_SomeD [OF Some]]) (simp_all add: managed_ok_def)
      with Some inv show ?thesis by (simp add: setReadyFlag_def pm_inv_def)
    qed (simp add: setReadyFlag_def inv)
  qed
  have cntp: "counts_ok (pm\<lparr>paths := ps\<rparr>) outs" for ps using cnt by (simp add: counts_ok_def)
  have take: "pm_inv fs pm1 \<and> counts_ok pm1 (pa # outs) \<and> concat (map handed e1) = []"
    if "FindPathConf fs (pathConfs pm) n = Inr (c, g)" "take_path c n g pm = (pm1, e1, pa)" for n c g pm1 e1 pa
    using take_path_inv [OF inv that(1), of g] take_path_counts [OF inv cnt that(2)] that(2) by simp
  show ?thesis
  proof (cases ev)
    case (PmReloadConf new)
    with ok have wf: "wf_confs new" by simp
    from doReloadConf_ok [OF inv wf] obtain pm' e where
      r: "pm_doReloadConf fs new pm = Some (pm', e)" "pm_inv fs pm'" by blast
    from r(1) obtain pm1 e1 pm2 e2 where 1: "reload_paths fs new (paths pm) pm = Some (pm1, e1)"
      "create_static new (pm1\<lparr>pathConfs := new\<rparr>) = (pm2, e2)" "pm' = pm2" "e = e1 @ e2"
      by (auto simp: pm_doReloadConf_def split: option.splits prod.splits)
    have "counts_ok (pm1\<lparr>pathConfs := new\<rparr>) outs"
      using counts_reload_paths [OF 1(1)] cnt by (simp add: counts_ok_def)
    with counts_create_static [of _ outs new] counts_reload_paths [OF 1(1)] 1
    have "counts_ok pm' (outs_after ev e outs)"
      using PmReloadConf by (metis append_Nil concat_append fst_conv map_append outs_after.simps(2) snd_conv)
    with r PmReloadConf show ?thesis by simp
  next
    case (PmDescribe req)
    show ?thesis
    proof (cases "FindPathConf fs (pathConfs pm) (ar_Name req)")
      case (Inr r)
      then obtain c g where r: "FindPathConf fs (pathConfs pm) (ar_Name req) = Inr (c, g)" by (cases r) simp
      obtain pm1 e1 pa where t: "take_path c (ar_Name req) g pm = (pm1, e1, pa)" using prod_cases3 by blast
      from take [OF r t] show ?thesis
        using PmDescribe inv cnt r t
        by (cases "check_auth au req") (simp_all add: pm_doDescribe_def del: concat_eq_Nil_conv)
    qed (use PmDescribe inv cnt in \<open>simp add: pm_doDescribe_def\<close>)
  next
    case (PmAddReader req)
    show ?thesis
    proof (cases "FindPathConf fs (pathConfs pm) (ar_Name req)")
      case (Inr r)
      then obtain c g where r: "FindPathConf fs (pathConfs pm) (ar_Name req) = Inr (c, g)" by (cases r) simp
      obtain pm1 e1 pa where t: "take_path c (ar_Name req) g pm = (pm1, e1, pa)" using prod_cases3 by blast
      from take [OF r t] show ?thesis
        using PmAddReader inv cnt r t
        by (cases "check_auth au req") (simp_all add: pm_doAddReader_def del: concat_eq_Nil_conv)
    qed (use PmAddReader inv cnt in \<open>simp add: pm_doAddReader_def\<close>)
  next
    case (PmAddPublisher req cmp)
    show ?thesis
    proof (cases "FindPathConf fs (pathConfs pm) (ar_Name req)")
      case (Inr r)
      then obtain c g where r: "FindPathConf fs (pathConfs pm) (ar_Name req) = Inr (c, g)" by (cases r) simp
      obtain pm1 e1 pa where t: "take_path c (ar_Name req) g pm = (pm1, e1, pa)" using prod_cases3 by blast
      from take [OF r t] show ?thesis
        using PmAddPublisher inv cnt r t
        by (cases "check_auth au req") (simp_all add: pm_doAddPublisher_def del: concat_eq_Nil_conv)
    qed (use PmAddPublisher inv cnt in \<open>simp add: pm_doAddPublisher_def\<close>)
  next
    case (PmRequestDone pa)
    have "counts_ok (pm\<lparr>pendingOf := (pendingOf pm)(ref_id pa := pendingOf pm (ref_id pa) - 1)\<rparr>) (remove1 pa outs)"
    proof -
      have "pa \<in> set outs" using ok PmRequestDone by simp
      moreover from this have "0 < count_list (map ref_id outs) (ref_id pa)"
        by (metis count_list_0_iff gr0I imageI list.set_map)
      ultimately show ?thesis using cnt notin_set_remove1 by (auto simp: counts_ok_def count_list_remove1)
    qed
    with PmRequestDone inv show ?thesis by simp
  next
    case (PmFindPathConf req)
    then show ?thesis using inv cnt
      by (simp add: doFindPathConf_def split: sum.splits prod.splits)
  next
    case (PmAPIPathsGet n)
    then show ?thesis using inv cnt by simp
  next
    case (PmSetHLSServer b)
    then show ?thesis using inv cnt by (simp add: doSetHLSServer_def counts_ok_def)
  next
    case (PmSetAdminStore st)
    then show ?thesis using inv cnt by (simp add: counts_ok_def)
  next
    case (PmRemovePath pa)
    then show ?thesis using inv cnt del cntp by (simp add: removePath_def split: option.splits)
  next
    case (PmClosePathIfIdle pa)
    then show ?thesis using inv cnt del cntp by (simp add: closePathIfIdle_def doClosePath_def)
  next
    case (PmSetPathReady pa)
    then show ?thesis using inv cnt flag by (simp add: doSetPathReady_def)
  next
    case (PmSetPathNotReady pa)
    then show ?thesis using inv cnt flag by (simp add: doSetPathNotReady_def)
  next
    case (PmIsPublishAllowed n)
    then show ?thesis using inv cnt by simp
  next
    case PmAPIPathsList
    then show ?thesis using inv cnt by simp
  qed
qed

lemma pm_reach_inv: "pm_reach fs au pm outs \<Longrightarrow> pm_inv fs pm \<and> counts_ok pm outs"
proof (induction rule: pm_reach.induct)
  case (init confs)
  have "pm_inv fs \<lparr>pathConfs = confs, paths = [], nextPath = 0, pendingOf = (\<lambda>_. 0), hlsServer = False,
      adminStore = None\<rparr>" using init by (simp add: pm_inv_def shape_def)
  from init_paths_ok [OF this, of confs] show ?case by (simp add: pm_initialize_def counts_ok_def)
next
  case (step pm outs ev pm' e)
  then show ?case using pm_step_ok [of fs pm outs ev au] by auto
qed

text \<open>The manager, with the requests handed out and not yet processed.\<close>

definition pm_step_out ::
  "matcher \<Rightarrow> authenticator \<Rightarrow> pm_event \<Rightarrow> path_manager \<times> path_ref list \<Rightarrow>
   ((path_manager \<times> path_ref list) \<times> pm_eff list) option" where
  "pm_step_out fs au ev st =
     (case st of (pm, outs) \<Rightarrow>
        map_option (\<lambda>(pm', e). ((pm', outs_after ev e outs), e)) (pm_step fs au ev pm))"

interpretation pm_loop: guarded_machine
  "\<lambda>(pm, outs). pm_inv fs pm \<and> counts_ok pm outs" "\<lambda>ev (pm, outs). ok_pm_event ev pm outs"
  "pm_step_out fs au" for fs au
proof
  show "\<exists>s' e. pm_step_out fs au ev st = Some (s', e) \<and> (case s' of (pm, outs) \<Rightarrow> pm_inv fs pm \<and> counts_ok pm outs)"
    if "case st of (pm, outs) \<Rightarrow> pm_inv fs pm \<and> counts_ok pm outs" "case st of (pm, outs) \<Rightarrow> ok_pm_event ev pm outs" for st ev
    using that pm_step_ok [of fs "fst st" "snd st" ev au] by (fastforce simp: pm_step_out_def split: prod.splits)
qed

section \<open>What a reload sends to the paths\<close>

lemma reload_decide_updates:
  assumes wf: "wf_confs old" "wf_confs new" and ok: "managed_ok fs old n k m"
    and d: "reload_decide fs old new k m = Reload c \<or> reload_decide fs old new k m = Move c"
  shows "pathConfCanBeUpdated (m_conf m) c \<and> (Name c, c) \<in> set new"
proof -
  from ok obtain g0 where m: "m_confName m = Name (m_conf m)" "FindPathConf fs old k = Inr (m_conf m, g0)"
    by (auto simp: managed_ok_def)
  have old: "map_of old (m_confName m) = Some (m_conf m)"
    using FindPathConf_member [OF wf(1) m(2)] wf(1) m(1) by (simp add: wf_confs_def)
  from d obtain g where f: "FindPathConf fs new k = Inr (c, g)"
    by (auto simp: reload_decide_def split: sum.splits prod.splits if_splits option.splits)
  have new: "map_of new (Name c) = Some c"
    using FindPathConf_member [OF wf(2) f] wf(2) by (simp add: wf_confs_def)
  have "pathConfCanBeUpdated (m_conf m) c" if "Name c = m_confName m" "Name c \<in> set (confsToReload old new)"
  proof -
    from that(2) obtain c0 where "(Name c, c0) \<in> set old" "pathConfCanBeUpdated c0 c"
      using new by (auto simp: confsToReload_def split: option.splits)
    moreover have "map_of old (Name c) = Some c0" using calculation(1) wf(1) by (simp add: wf_confs_def)
    ultimately show ?thesis using old that(1) by simp
  qed
  then show ?thesis
    using d f old map_of_SomeD [OF new] by (auto simp: reload_decide_def split: if_splits)
qed

lemma reload_paths_effects:
  "reload_paths fs new ps pm = Some (pm', e) \<Longrightarrow> PathReload pa c \<in> set e \<Longrightarrow>
   \<exists>k m. (k, m) \<in> set ps \<and> m_ref m = pa \<and>
     (reload_decide fs (pathConfs pm) new k m = Reload c \<or> reload_decide fs (pathConfs pm) new k m = Move c)"
proof (induction ps arbitrary: pm e)
  case (Cons p ps)
  obtain k m where p: "p = (k, m)" by (cases p)
  have "\<exists>pm1 e1 e2. reload_paths fs new ps pm1 = Some (pm', e2) \<and> e = e1 @ e2 \<and>
      pathConfs pm1 = pathConfs pm \<and> (PathReload pa c \<in> set e1 \<longrightarrow> m_ref m = pa \<and>
      (reload_decide fs (pathConfs pm) new k m = Reload c \<or> reload_decide fs (pathConfs pm) new k m = Move c))"
  proof (cases "reload_decide fs (pathConfs pm) new k m")
    case Keep
    then show ?thesis using Cons.prems(1) p
      by (intro exI [of _ pm] exI [of _ "[]"] exI [of _ e]) (simp split: option.splits)
  next
    case (Reload x)
    then show ?thesis using Cons.prems(1) p
      by (intro exI [of _ "pm\<lparr>paths := AList.update k (m\<lparr>m_conf := x\<rparr>) (paths pm)\<rparr>"]
          exI [of _ "[PathReload (m_ref m) x]"] exI [of _ "tl e"]) (auto split: option.splits)
  next
    case (Move x)
    then show ?thesis using Cons.prems(1) p
      by (intro exI [of _ "pm\<lparr>paths := AList.update k (m\<lparr>m_confName := Name x, m_conf := x\<rparr>) (paths pm)\<rparr>"]
          exI [of _ "[PathReload (m_ref m) x]"] exI [of _ "tl e"]) (auto split: option.splits)
  next
    case Close
    then show ?thesis using Cons.prems(1) p
      by (intro exI [of _ "fst (doClosePath (m_ref m) pm)"] exI [of _ "[PathClosed (m_ref m)]"] exI [of _ "tl e"])
        (auto simp: doClosePath_def split: option.splits)
  next
    case NilConf
    then show ?thesis using Cons.prems(1) p by simp
  qed
  then obtain pm1 e1 e2 where r: "reload_paths fs new ps pm1 = Some (pm', e2)" "e = e1 @ e2"
    "pathConfs pm1 = pathConfs pm" "PathReload pa c \<in> set e1 \<longrightarrow> m_ref m = pa \<and>
      (reload_decide fs (pathConfs pm) new k m = Reload c \<or> reload_decide fs (pathConfs pm) new k m = Move c)"
    by blast
  show ?case
  proof (cases "PathReload pa c \<in> set e1")
    case True
    with r(4) p show ?thesis by auto
  next
    case False
    with Cons.prems(2) r(2) have "PathReload pa c \<in> set e2" by simp
    from Cons.IH [OF r(1) this] r(3) show ?thesis by auto
  qed
qed simp

lemma create_static_effects: "PathReload pa c \<notin> set (snd (create_static cs pm))"
proof (induction cs arbitrary: pm)
  case (Cons x cs)
  show ?case
    using Cons.IH by (cases x) (simp add: split_beta createPath_def Let_def)
qed simp

lemma reload_effects:
  assumes "pm_inv fs pm" "wf_confs new" "pm_doReloadConf fs new pm = Some (pm', e)" "PathReload pa c \<in> set e"
  shows "\<exists>m. map_of (paths pm) (ref_name pa) = Some m \<and> m_ref m = pa \<and> pathConfCanBeUpdated (m_conf m) c \<and>
    (Name c, c) \<in> set new"
proof -
  from assms(3) obtain pm1 e1 pm2 e2 where 1: "reload_paths fs new (paths pm) pm = Some (pm1, e1)"
    "create_static new (pm1\<lparr>pathConfs := new\<rparr>) = (pm2, e2)" "e = e1 @ e2"
    by (auto simp: pm_doReloadConf_def split: option.splits prod.splits)
  have "PathReload pa c \<in> set e1"
    using assms(4) 1 create_static_effects [of pa c new "pm1\<lparr>pathConfs := new\<rparr>"] by simp
  from reload_paths_effects [OF 1(1) this] obtain k m where m: "(k, m) \<in> set (paths pm)" "m_ref m = pa"
    "reload_decide fs (pathConfs pm) new k m = Reload c \<or> reload_decide fs (pathConfs pm) new k m = Move c"
    by blast
  have sh: "shape (managed_ok fs (pathConfs pm) (nextPath pm)) (paths pm)" and wf: "wf_confs (pathConfs pm)"
    using assms(1) by (simp_all add: pm_inv_def)
  note ok = shape_entry [OF sh m(1)]
  have "map_of (paths pm) k = Some m" using sh m(1) by (simp add: shape_def)
  moreover have "ref_name pa = k" using ok m(2) by (simp add: managed_ok_def)
  ultimately show ?thesis using reload_decide_updates [OF wf assms(2) ok m(3)] m(2) by auto
qed

text \<open>What a publisher that is given a path has passed.\<close>

lemma publisher_granted:
  assumes "pm_doAddPublisher fs au req cmp pm = (pm', e)" "ResPublisherPath (Inr (pa, user)) \<in> set e"
  shows "isStreamAllowedUnsafe (ar_Name req) pm" "check_auth au req = Inr user"
proof -
  have no: "ResPublisherPath r \<notin> set e1" if "take_path c n g pm = (pm1, e1, pa')" for c n g pm1 e1 pa' r
    using that by (auto simp: take_path_def createPath_def Let_def split: if_splits prod.splits)
  show "isStreamAllowedUnsafe (ar_Name req) pm" "check_auth au req = Inr user"
    using assms by (auto simp: pm_doAddPublisher_def dest: no split: sum.splits if_splits prod.splits)
qed

section \<open>Correctness\<close>

lemma pm_reach_reload:
  assumes "pm_reach fs au pm outs" "wf_confs new"
  shows "\<exists>pm' e. pm_doReloadConf fs new pm = Some (pm', e) \<and> pm_inv fs pm' \<and> pathConfs pm' = new \<and>
    static_exist pm'"
  using doReloadConf_ok pm_reach_inv [OF assms(1)] assms(2) by blast

definition denied :: auth_error where
  "denied = \<lparr>Wrapped = AuthFailed, AskCredentials = False\<rparr>"

definition open_auth :: authenticator where
  "open_auth r = (if au_Action r = AuthActionRead then Inr ''any'' else Inl denied)"

definition sample_manager :: path_manager where
  "sample_manager = fst (pm_initialize sample_confs)"

lemma sample_manager_reach: "pm_reach prefix_match open_auth sample_manager []"
  unfolding sample_manager_def by (rule pm_reach.init) (rule wf_sample_confs)

text \<open>C4.
  In every reachable state of the manager each path is stored under its own name, under one name
  only, and the configuration it was last given is the one that the search finds for its name in
  the current configuration map, whatever reloads have happened.
\<close>
theorem manager_paths_have_current_conf:
  assumes "pm_reach fs au pm outs" "(k, m) \<in> set (paths pm)"
  shows "map_of (paths pm) k = Some m \<and> ref_name (m_ref m) = k \<and> m_confName m = Name (m_conf m) \<and>
    (\<exists>g. FindPathConf fs (pathConfs pm) k = Inr (m_conf m, g))"
proof -
  have sh: "shape (managed_ok fs (pathConfs pm) (nextPath pm)) (paths pm)"
    using pm_reach_inv [OF assms(1)] by (simp add: pm_inv_def)
  then have "distinct (map fst (paths pm))" by (simp add: shape_def)
  with assms(2) shape_entry [OF sh assms(2)] show ?thesis by (simp add: managed_ok_def)
qed

lemma sample_manager_paths:
  "paths sample_manager = [(''cam'', \<lparr>m_ref = \<lparr>ref_id = 0, ref_name = ''cam''\<rparr>, m_confName = ''cam'',
     m_conf = sample_conf ''cam'' None, m_matches = [], m_ready = False\<rparr>)]"
  by (simp add: sample_manager_def pm_initialize_def sample_confs_def createPath_def sample_conf_def)

theorem manager_paths_have_current_conf_witness:
  "\<exists>k m. (k, m) \<in> set (paths sample_manager) \<and> map_of (paths sample_manager) k = Some m \<and>
     ref_name (m_ref m) = k"
  using manager_paths_have_current_conf [OF sample_manager_reach] by (fastforce simp: sample_manager_paths)

text \<open>
  A reload never dereferences a missing configuration; afterwards the new map is installed and every
  configuration without a regular expression has its path.
\<close>
lemma manager_reload_safe:
  assumes "pm_reach fs au pm outs" "wf_confs new"
  shows "\<exists>pm' e. pm_doReloadConf fs new pm = Some (pm', e) \<and> pathConfs pm' = new \<and>
    (\<forall>(k, c) \<in> set new. Regexp c = None \<longrightarrow> map_of (paths pm') k \<noteq> None)"
proof -
  from pm_reach_reload [OF assms] obtain pm' e where
    "pm_doReloadConf fs new pm = Some (pm', e)" "pathConfs pm' = new" "static_exist pm'" by blast
  then show ?thesis by (auto simp: static_exist_def map_of_eq_None_iff)
qed

lemma manager_reload_safe_instance:
  "\<exists>pm' e. pm_doReloadConf prefix_match sample_confs sample_manager = Some (pm', e) \<and>
     pathConfs pm' = sample_confs"
  using manager_reload_safe [OF sample_manager_reach wf_sample_confs] by blast

text \<open>
  The manager's loop never panics: from every reachable state each event that can occur is served
  and the resulting state is reachable again.
\<close>
lemma manager_step_safe:
  assumes "pm_reach fs au pm outs" "ok_pm_event ev pm outs"
  shows "\<exists>pm' e. pm_step fs au ev pm = Some (pm', e) \<and> pm_reach fs au pm' (outs_after ev e outs)"
proof -
  have "\<exists>st e. pm_step_out fs au ev (pm, outs) = Some (st, e)"
    using pm_loop.step_ok [of fs "(pm, outs)" ev au] pm_reach_inv [OF assms(1)] assms(2) by auto
  then obtain pm' e where "pm_step fs au ev pm = Some (pm', e)" by (auto simp: pm_step_out_def)
  with pm_reach.step [OF assms this] show ?thesis by blast
qed

lemma manager_step_safe_instance:
  "\<exists>pm' e. pm_step prefix_match open_auth PmAPIPathsList sample_manager = Some (pm', e) \<and>
     pm_reach prefix_match open_auth pm' (outs_after PmAPIPathsList e [])"
  by (rule manager_step_safe [OF sample_manager_reach]) simp

text \<open>C5.
  The gate for publishers: a path is handed out only if a configuration exists for the name, the
  stream is on the whitelist, the configuration is the one the caller saw, and the caller is
  authenticated for publishing (unless it may skip that); then the path handed out is the current
  one of that name. In every other case nothing changes and an error is returned.
\<close>
theorem manager_publisher_gate:
  assumes "pm_reach fs au pm outs" "pm_doAddPublisher fs au req cmp pm = (pm', e)"
  shows "(\<exists>c g user pa. FindPathConf fs (pathConfs pm) (ar_Name req) = Inr (c, g) \<and>
      isStreamAllowedUnsafe (ar_Name req) pm \<and> (cmp = None \<or> cmp = Some c) \<and>
      (ar_SkipAuth req \<and> user = '''' \<or> au (ToAuthRequest req) = Inr user) \<and>
      ResPublisherPath (Inr (pa, user)) \<in> set e \<and> isCurrent pa pm' \<and> ref_name pa = ar_Name req) \<or>
    pm' = pm \<and> (\<exists>err. e = [ResPublisherPath (Inl err)])"
proof (cases "FindPathConf fs (pathConfs pm) (ar_Name req)")
  case (Inl err)
  with assms(2) show ?thesis by (auto simp: pm_doAddPublisher_def)
next
  case (Inr r)
  then obtain c g where r: "FindPathConf fs (pathConfs pm) (ar_Name req) = Inr (c, g)" by (cases r) simp
  obtain pm1 e1 pa where t: "take_path c (ar_Name req) g pm = (pm1, e1, pa)" using prod_cases3 by blast
  have inv: "pm_inv fs pm" "counts_ok pm outs" using pm_reach_inv [OF assms(1)] by auto
  note cur = take_path_counts(3,4) [OF inv t]
  consider "\<not> isStreamAllowedUnsafe (ar_Name req) pm"
    | "isStreamAllowedUnsafe (ar_Name req) pm" "cmp \<noteq> None \<and> cmp \<noteq> Some c"
    | err where "isStreamAllowedUnsafe (ar_Name req) pm" "cmp = None \<or> cmp = Some c"
        "check_auth au req = Inl err"
    | (ok) user where "isStreamAllowedUnsafe (ar_Name req) pm" "cmp = None \<or> cmp = Some c"
        "check_auth au req = Inr user"
    by (cases "check_auth au req"; cases "cmp = None \<or> cmp = Some c"; auto)
  then show ?thesis
  proof cases
    case ok
    then have "pm' = pm1" "e = e1 @ [ResPublisherPath (Inr (pa, user))]"
      using assms(2) r t by (auto simp: pm_doAddPublisher_def)
    moreover have "ar_SkipAuth req \<and> user = '''' \<or> au (ToAuthRequest req) = Inr user"
      using ok(3) by (auto simp: check_auth_def split: if_splits)
    ultimately show ?thesis using ok r cur by auto
  qed (use assms(2) r in \<open>auto simp: pm_doAddPublisher_def\<close>)
qed

definition publish_live :: access_request where
  "publish_live = \<lparr>ar_Name = ''live/a'', ar_Query = '''', ar_UserAgent = '''', ar_Publish = True,
     ar_SkipAuth = False, ar_Proto = ProtocolWebRTC, ar_ID = None,
     ar_Credentials = \<lparr>cr_User = '''', cr_Pass = '''', cr_Token = ''''\<rparr>, ar_IP = [127, 0, 0, 1],
     ar_CustomVerifyFunc = None\<rparr>"

theorem manager_publisher_gate_witness:
  "pm_doAddPublisher prefix_match open_auth publish_live None sample_manager =
     (sample_manager, [ResPublisherPath (Inl (AuthErr denied))]) \<and>
   open_auth (ToAuthRequest publish_live) = Inl denied"
proof -
  obtain pm' e where r: "pm_doAddPublisher prefix_match open_auth publish_live None sample_manager = (pm', e)"
    by force
  have au: "open_auth (ToAuthRequest publish_live) = Inl denied" "\<not> ar_SkipAuth publish_live"
    by (simp_all add: open_auth_def ToAuthRequest_def publish_live_def)
  from manager_publisher_gate [OF sample_manager_reach r] au obtain err where
    "pm' = sample_manager" "e = [ResPublisherPath (Inl err)]" by auto
  moreover have "pathConfs sample_manager = sample_confs" "adminStore sample_manager = None"
    by (simp_all add: sample_manager_def pm_initialize_def sample_confs_def createPath_def sample_conf_def)
  then have "e = [ResPublisherPath (Inl (AuthErr denied))]"
    using r find_sample au
    by (simp add: pm_doAddPublisher_def publish_live_def isStreamAllowedUnsafe_def check_auth_def)
  ultimately show ?thesis using r au by simp
qed

text \<open>C30.
  Request counting: in every reachable state the pending counter of a path is exactly the number of
  requests handed to clients for it and not yet processed, so a path is closed as idle only when no
  client is on its way to it.
\<close>
theorem manager_idle_close_safe:
  assumes "pm_reach fs au pm outs" "closePathIfIdle pa pm = (pm', e)" "PathClosed pa \<in> set e"
  shows "pendingOf pm (ref_id pa) = int (count_list (map ref_id outs) (ref_id pa)) \<and> pa \<notin> set outs"
proof -
  have "pendingOf pm (ref_id pa) = 0"
    using assms(2,3) by (auto simp: closePathIfIdle_def split: if_splits)
  moreover have "pendingOf pm (ref_id pa) = int (count_list (map ref_id outs) (ref_id pa))"
    using pm_reach_inv [OF assms(1)] by (simp add: counts_ok_def)
  ultimately show ?thesis by (auto simp: count_list_0_iff)
qed

theorem manager_idle_close_safe_witness:
  "\<exists>pm' e. closePathIfIdle \<lparr>ref_id = 0, ref_name = ''cam''\<rparr> sample_manager = (pm', e) \<and>
     PathClosed \<lparr>ref_id = 0, ref_name = ''cam''\<rparr> \<in> set e \<and> pendingOf sample_manager 0 = 0"
proof -
  have "pendingOf sample_manager 0 = 0"
    using pm_reach_inv [OF sample_manager_reach] by (simp add: counts_ok_def)
  then have cl: "closePathIfIdle \<lparr>ref_id = 0, ref_name = ''cam''\<rparr> sample_manager =
      (sample_manager\<lparr>paths := AList.delete ''cam'' (paths sample_manager)\<rparr>,
       [PathClosed \<lparr>ref_id = 0, ref_name = ''cam''\<rparr>])"
    by (simp add: closePathIfIdle_def doClosePath_def)
  from manager_idle_close_safe [OF sample_manager_reach cl] cl show ?thesis by simp
qed

text \<open>
  A run that loses a static path: a dynamic path becomes idle and asks to be closed while a reload
  turns its name into a static configuration; the reload keeps the path, then the request is served.
\<close>

definition live_read :: access_request where
  "live_read = publish_live\<lparr>ar_Publish := False\<rparr>"

definition dynamic_confs :: "(string \<times> path_conf) list" where
  "dynamic_confs = [(''~^live'', sample_conf ''~^live'' (Some ''^live''))]"

definition static_confs :: "(string \<times> path_conf) list" where
  "static_confs = (''live/a'', sample_conf ''live/a'' None) # dynamic_confs"

definition live_ref :: path_ref where
  "live_ref = \<lparr>ref_id = 0, ref_name = ''live/a''\<rparr>"

abbreviation pm_run ::
  "pm_event list \<Rightarrow> path_manager \<times> path_ref list \<Rightarrow> ((path_manager \<times> path_ref list) \<times> pm_eff list) option" where
  "pm_run \<equiv> run_guarded (\<lambda>ev (pm, outs). ok_pm_event ev pm outs) (pm_step_out prefix_match open_auth)"

lemma pm_step_out_Some:
  "pm_step_out fs au ev (pm, outs) = Some (st, e) \<longleftrightarrow>
   (\<exists>pm'. pm_step fs au ev pm = Some (pm', e) \<and> st = (pm', outs_after ev e outs))"
  by (auto simp: pm_step_out_def)

lemma pm_run_reach:
  "pm_run evs (pm, outs) = Some ((pm', outs'), e) \<Longrightarrow> pm_reach prefix_match open_auth pm outs \<Longrightarrow>
   pm_reach prefix_match open_auth pm' outs'"
proof (induction evs arbitrary: pm outs e)
  case (Cons ev evs)
  from Cons.prems(1) obtain pm1 e1 e2 where "ok_pm_event ev pm outs"
    "pm_step prefix_match open_auth ev pm = Some (pm1, e1)"
    "pm_run evs (pm1, outs_after ev e1 outs) = Some ((pm', outs'), e2)"
    by (auto simp: pm_step_out_Some split: if_splits option.splits)
  then show ?case using Cons.IH pm_reach.step [OF Cons.prems(2)] by blast
qed simp

definition losing_events :: "pm_event list" where
  "losing_events =
     [PmDescribe live_read, PmRequestDone live_ref, PmReloadConf static_confs, PmClosePathIfIdle live_ref]"

lemma losing_run:
  "map_option (\<lambda>((pm, outs), e). (pathConfs pm, paths pm, outs))
     (pm_run losing_events (fst (pm_initialize dynamic_confs), [])) = Some (static_confs, [], [])"
  by code_simp

text \<open>
  A configured static path can be missing: a state is reachable in which a configuration without a
  regular expression has no path, because the manager serves an idle-close request that the path
  sent before a reload made its name static.
\<close>
lemma manager_static_path_lost:
  "\<exists>pm outs. pm_reach prefix_match open_auth pm outs \<and>
     (''live/a'', sample_conf ''live/a'' None) \<in> set (pathConfs pm) \<and> map_of (paths pm) ''live/a'' = None"
proof -
  have "wf_confs dynamic_confs" by (simp add: wf_confs_def dynamic_confs_def sample_conf_def)
  from pm_reach.init [OF this] have r: "pm_reach prefix_match open_auth (fst (pm_initialize dynamic_confs)) []" .
  obtain pm outs e where "pm_run losing_events (fst (pm_initialize dynamic_confs), []) = Some ((pm, outs), e)"
    "pathConfs pm = static_confs" "paths pm = []"
    using losing_run by auto
  with pm_run_reach [OF _ r] show ?thesis by (force simp: static_confs_def)
qed

end
