(* ===== verification/Track_Selector.thy ===== *)
theory Track_Selector
  imports Forward_Layers Go_Float
begin

text \<open>
  \<^verbatim>\<open>internal/protocols/webrtc/track_selector.go\<close>: which of the simulcast layers of a stream a WHEP
  reader gets. A selector is a record; every method returns the new record and the callbacks it
  makes. The mutex makes the methods atomic. The clock is an argument. Track sizes are far below
  the limits of \<^verbatim>\<open>int\<close>, so sizes and identifiers are unbounded here.
\<close>

section \<open>State\<close>

record track_info =
  ID :: int
  RID :: string
  Type :: string
  Codec :: string
  Label :: string
  Bitrate :: int
  Width :: int
  Height :: int
  dimsResolved :: bool

definition layerDefaults :: "(string \<times> int \<times> int \<times> int) list" where
  "layerDefaults =
     [(''0'', 2000000, 1920, 1080), (''1'', 1000000, 1280, 720),
      (''2'', 400000, 640, 360), (''3'', 150000, 426, 240)]"

text \<open>Of a callback, whether one is registered.\<close>

record track_selector =
  tracks :: "track_info list"
  activeID :: int
  pendingID :: int
  pendingAt :: time
  onSwitched :: bool
  onTracksChanged :: bool
  passthrough :: bool

datatype selector_eff = Switched int int | TracksChanged

datatype select_error = TrackNotFound int

definition pendingTimeout :: int where
  "pendingTimeout = 5 * time_Second"

abbreviation is_video :: "track_info \<Rightarrow> bool" where
  "is_video t \<equiv> Type t = ''video''"

definition callSwitched :: "track_selector \<Rightarrow> int \<Rightarrow> int \<Rightarrow> selector_eff list" where
  "callSwitched ts from to = (if onSwitched ts then [Switched from to] else [])"

section \<open>Operations\<close>

definition NewTrackSelector :: "bool \<Rightarrow> track_selector" where
  "NewTrackSelector cb =
     \<lparr>tracks = [], activeID = - 1, pendingID = - 1, pendingAt = None, onSwitched = cb,
      onTracksChanged = False, passthrough = False\<rparr>"

definition SetOnTracksChanged :: "bool \<Rightarrow> track_selector \<Rightarrow> track_selector" where
  "SetOnTracksChanged cb ts = ts\<lparr>onTracksChanged := cb\<rparr>"

text \<open>\<^verbatim>\<open>%dp %s\<close>\<close>

definition show_int :: "int \<Rightarrow> string" where
  "show_int n = (if n < 0 then CHR ''-'' # show_nat (nat (- n)) else show_nat (nat n))"

definition quality_label :: "int \<Rightarrow> string \<Rightarrow> string" where
  "quality_label h cdc = show_int h @ ''p '' @ cdc"

text \<open>The codec is that of the first format of the first video media.\<close>

fun format_codec :: "media_format \<Rightarrow> string" where
  "format_codec H264 = ''h264''"
| "format_codec H265 = ''h265''"
| "format_codec VP9 = ''vp9''"
| "format_codec VP8 = ''vp8''"
| "format_codec AV1 = ''av1''"
| "format_codec (OtherFormat n) = ''unknown''"

fun detect_codec :: "media list \<Rightarrow> string" where
  "detect_codec [] = ''unknown''"
| "detect_codec (m # ms) =
     (if mtype m \<noteq> MediaTypeVideo then detect_codec ms
      else case formats m of [] \<Rightarrow> ''unknown'' | f # _ \<Rightarrow> format_codec f)"

definition layer_track :: "string \<Rightarrow> nat \<Rightarrow> track_info" where
  "layer_track cdc i =
     (let (rid, bitrate, w, h) = layerDefaults ! i
      in \<lparr>ID = int i, RID = rid, Type = ''video'', Codec = cdc, Label = quality_label h cdc,
          Bitrate = bitrate, Width = w, Height = h, dimsResolved = False\<rparr>)"

definition audio_track :: track_info where
  "audio_track =
     \<lparr>ID = 999, RID = '''', Type = ''audio'', Codec = ''opus'', Label = ''Audio Opus'',
      Bitrate = 128000, Width = 0, Height = 0, dimsResolved = False\<rparr>"

definition LoadFromDescription :: "session_desc \<Rightarrow> track_selector \<Rightarrow> track_selector" where
  "LoadFromDescription desc ts =
     (let videoCount = min (length (filter (\<lambda>m. mtype m = MediaTypeVideo) (Medias desc)))
                           (length layerDefaults);
          cdc = detect_codec (Medias desc);
          trs = map (layer_track cdc) [0..<videoCount] @ [audio_track];
          ts1 = ts\<lparr>tracks := trs\<rparr>;
          ts2 = (if 1 < length trs \<and> is_video (trs ! 0) then ts1\<lparr>activeID := ID (trs ! 0)\<rparr> else ts1)
      in if videoCount = 1 then ts2\<lparr>passthrough := True\<rparr> else ts2)"

definition GetTracks :: "track_selector \<Rightarrow> track_info list" where
  "GetTracks ts = tracks ts"

definition obsCanvasSizeFromLayer :: "int \<Rightarrow> int \<Rightarrow> int \<Rightarrow> int \<Rightarrow> int \<times> int" where
  "obsCanvasSizeFromLayer layerIndex layerCount w h =
     (if layerIndex \<le> 0 \<or> layerCount \<le> 1 then (w, h)
      else
        let mult = layerCount - layerIndex
        in if mult \<le> 0 then (w, h)
           else ((w * layerCount) sdiv mult, (h * layerCount) sdiv mult))"

definition obsSimulcastLayerSize :: "int \<Rightarrow> int \<Rightarrow> int \<Rightarrow> int \<Rightarrow> int \<times> int" where
  "obsSimulcastLayerSize layerIndex layerCount canvasW canvasH =
     (if layerIndex \<le> 0 \<or> layerCount \<le> 1 then (canvasW, canvasH)
      else
        let mult = layerCount - layerIndex;
            w = (canvasW sdiv layerCount) * mult;
            h = (canvasH sdiv layerCount) * mult
        in (w - w smod 2, h - h smod 2))"

text \<open>The pointer \<^verbatim>\<open>target\<close> of the first loop is the last video track with the identifier.\<close>

definition target_index :: "int \<Rightarrow> track_info list \<Rightarrow> nat option" where
  "target_index trackID trs =
     (case filter (\<lambda>i. is_video (trs ! i) \<and> ID (trs ! i) = trackID) [0..<length trs] of
        [] \<Rightarrow> None
      | i # is \<Rightarrow> Some (last (i # is)))"

definition set_dims :: "int \<Rightarrow> int \<Rightarrow> track_info \<Rightarrow> track_info" where
  "set_dims w h t = t\<lparr>Width := w, Height := h, Label := quality_label (min w h) (Codec t)\<rparr>"

definition backfill :: "int \<Rightarrow> int \<Rightarrow> int \<Rightarrow> int \<Rightarrow> track_info \<Rightarrow> track_info" where
  "backfill trackID layerCount canvasW canvasH t =
     (if \<not> is_video t \<or> ID t = trackID \<or> dimsResolved t then t
      else
        let (w, h) = obsSimulcastLayerSize (ID t) layerCount canvasW canvasH
        in if w \<le> 0 \<or> h \<le> 0 then t else set_dims w h t)"

definition SetTrackDimensions ::
  "int \<Rightarrow> int \<Rightarrow> int \<Rightarrow> track_selector \<Rightarrow> track_selector \<times> selector_eff list" where
  "SetTrackDimensions trackID width height ts =
     (if width \<le> 0 \<or> height \<le> 0 then (ts, [])
      else
        case target_index trackID (tracks ts) of
          None \<Rightarrow> (ts, [])
        | Some i \<Rightarrow>
            if dimsResolved (tracks ts ! i) then (ts, [])
            else
              let layerCount = int (length (filter is_video (tracks ts)));
                  trs1 = (tracks ts)[i := (set_dims width height (tracks ts ! i))\<lparr>dimsResolved := True\<rparr>];
                  (canvasW, canvasH) = obsCanvasSizeFromLayer trackID layerCount width height;
                  trs2 = map (backfill trackID layerCount canvasW canvasH) trs1
              in (ts\<lparr>tracks := trs2\<rparr>, if onTracksChanged ts then [TracksChanged] else []))"

definition VideoTrackCount :: "track_selector \<Rightarrow> nat" where
  "VideoTrackCount ts = length (filter is_video (tracks ts))"

definition ShouldQueue :: "int \<Rightarrow> track_selector \<Rightarrow> bool" where
  "ShouldQueue trackID ts \<longleftrightarrow> trackID = activeID ts \<or> trackID = pendingID ts"

definition Select ::
  "int \<Rightarrow> int \<Rightarrow> track_selector \<Rightarrow> track_selector \<times> selector_eff list \<times> select_error option" where
  "Select now targetID ts =
     (if \<not> (\<exists>t \<in> set (tracks ts). ID t = targetID \<and> is_video t) then (ts, [], Some (TrackNotFound targetID))
      else if targetID = activeID ts then
        (ts\<lparr>pendingID := - 1\<rparr>, callSwitched ts (activeID ts) (activeID ts), None)
      else if passthrough ts then
        (ts\<lparr>activeID := targetID, pendingID := - 1\<rparr>, callSwitched ts (activeID ts) targetID, None)
      else (ts\<lparr>pendingID := targetID, pendingAt := Some now\<rparr>, [], None))"

text \<open>The result is (should forward, switched).\<close>

definition OnAccessUnit ::
  "int \<Rightarrow> int \<Rightarrow> bool \<Rightarrow> track_selector \<Rightarrow> track_selector \<times> selector_eff list \<times> bool \<times> bool" where
  "OnAccessUnit now trackID keyframe ts =
     (if passthrough ts then (ts, [], activeID ts = trackID, False)
      else if 0 \<le> pendingID ts \<and> trackID = pendingID ts \<and> keyframe then
        (ts\<lparr>activeID := pendingID ts, pendingID := - 1\<rparr>,
         callSwitched ts (activeID ts) (pendingID ts), True, True)
      else if 0 \<le> pendingID ts \<and> pendingTimeout < time_since now (pendingAt ts) then
        (ts\<lparr>pendingID := - 1\<rparr>, callSwitched ts (activeID ts) (activeID ts), trackID = activeID ts, False)
      else (ts, [], trackID = activeID ts, False))"

definition SetPassthrough :: "bool \<Rightarrow> track_selector \<Rightarrow> track_selector" where
  "SetPassthrough v ts = ts\<lparr>passthrough := v\<rparr>"

section \<open>Invariant\<close>

definition video_ids :: "track_selector \<Rightarrow> int list" where
  "video_ids ts = map ID (filter is_video (tracks ts))"

text \<open>
  The layers are the identifiers from 0 on, in the order of falling bitrate; the active layer is one of them unless there is none,
  the pending one too, it differs from the active one and the time of its request is known.
\<close>

definition bitrates :: "track_selector \<Rightarrow> int list" where
  "bitrates ts = map Bitrate (filter is_video (tracks ts))"

definition from_zero :: "int list \<Rightarrow> bool" where
  "from_zero is \<longleftrightarrow> is = map int [0..<length is]"

definition sel_inv :: "track_selector \<Rightarrow> bool" where
  "sel_inv ts \<longleftrightarrow>
     from_zero (video_ids ts) \<and> sorted_wrt (>) (bitrates ts) \<and>
     (activeID ts = - 1 \<longleftrightarrow> video_ids ts = []) \<and>
     (activeID ts \<noteq> - 1 \<longrightarrow> activeID ts \<in> set (video_ids ts)) \<and>
     (pendingID ts \<noteq> - 1 \<longrightarrow>
        pendingID ts \<in> set (video_ids ts) \<and> pendingID ts \<noteq> activeID ts \<and> pendingAt ts \<noteq> None)"

lemma layers_upd [simp]:
  "video_ids (ts\<lparr>activeID := a\<rparr>) = video_ids ts" "video_ids (ts\<lparr>pendingID := p\<rparr>) = video_ids ts"
  "video_ids (ts\<lparr>pendingAt := t\<rparr>) = video_ids ts" "video_ids (ts\<lparr>passthrough := b\<rparr>) = video_ids ts"
  "bitrates (ts\<lparr>activeID := a\<rparr>) = bitrates ts" "bitrates (ts\<lparr>pendingID := p\<rparr>) = bitrates ts"
  "bitrates (ts\<lparr>pendingAt := t\<rparr>) = bitrates ts" "bitrates (ts\<lparr>passthrough := b\<rparr>) = bitrates ts"
  by (simp_all add: video_ids_def bitrates_def)

lemma video_ids_nonneg: "sel_inv ts \<Longrightarrow> i \<in> set (video_ids ts) \<Longrightarrow> 0 \<le> i"
  unfolding sel_inv_def from_zero_def by (metis (no_types, lifting) imageE list.set_map of_nat_0_le_iff)

lemma pending_nonneg: "sel_inv ts \<Longrightarrow> 0 \<le> pendingID ts \<longleftrightarrow> pendingID ts \<noteq> - 1"
  using video_ids_nonneg [of ts "pendingID ts"] by (auto simp: sel_inv_def)

lemma Select_found: "(\<exists>t \<in> set (tracks ts). ID t = i \<and> is_video t) \<longleftrightarrow> i \<in> set (video_ids ts)"
  by (auto simp: video_ids_def)

lemma Type_audio_track [simp]: "Type audio_track = ''audio''"
  by (simp add: audio_track_def)

lemma video_layers [simp]:
  "filter is_video (map (layer_track cdc) xs @ [audio_track]) = map (layer_track cdc) xs"
  by (induction xs) (simp_all add: layer_track_def audio_track_def split: prod.splits)

lemma ID_layer_track [simp]: "ID (layer_track cdc i) = int i" "is_video (layer_track cdc i)"
  by (simp_all add: layer_track_def split: prod.splits)

lemma default_bitrates: "n \<le> length layerDefaults \<Longrightarrow> sorted_wrt (>) (map (\<lambda>i. Bitrate (layer_track cdc i)) [0..<n])"
  by (auto simp: layerDefaults_def layer_track_def le_Suc_eq numeral_nat)

lemma Load_inv:
  assumes "activeID ts = - 1" "pendingID ts = - 1"
  shows "sel_inv (LoadFromDescription desc ts)"
proof -
  define n where "n = min (length (filter (\<lambda>m. mtype m = MediaTypeVideo) (Medias desc))) (length layerDefaults)"
  have "video_ids (LoadFromDescription desc ts) = map int [0..<n]"
    by (simp add: LoadFromDescription_def Let_def video_ids_def n_def [symmetric] o_def)
  moreover have "sorted_wrt (>) (bitrates (LoadFromDescription desc ts))"
    using default_bitrates [of n "detect_codec (Medias desc)"]
    by (simp add: LoadFromDescription_def Let_def bitrates_def n_def [symmetric] o_def)
       (simp add: n_def)
  moreover have "activeID (LoadFromDescription desc ts) = (if n = 0 then - 1 else 0)"
    by (cases n) (simp_all add: LoadFromDescription_def Let_def n_def [symmetric] assms
        nth_append upt_rec [of 0] del: upt_Suc)
  moreover have "pendingID (LoadFromDescription desc ts) = - 1"
    by (simp add: LoadFromDescription_def Let_def assms)
  ultimately show ?thesis by (simp add: sel_inv_def from_zero_def)
qed

lemma set_dims_simps [simp]: "ID (set_dims w h t) = ID t" "Type (set_dims w h t) = Type t"
  "Bitrate (set_dims w h t) = Bitrate t"
  by (simp_all add: set_dims_def)

lemma backfill_simps [simp]:
  "ID (backfill i n cw ch t) = ID t" "Type (backfill i n cw ch t) = Type t"
  "Bitrate (backfill i n cw ch t) = Bitrate t"
  by (simp_all add: backfill_def Let_def split: prod.splits)

lemma filter_video_update:
  "i < length trs \<Longrightarrow> ID t = ID (trs ! i) \<Longrightarrow> Type t = Type (trs ! i) \<Longrightarrow>
   Bitrate t = Bitrate (trs ! i) \<Longrightarrow>
   map ID (filter is_video (trs[i := t])) = map ID (filter is_video trs) \<and>
   map Bitrate (filter is_video (trs[i := t])) = map Bitrate (filter is_video trs)"
  by (induction trs arbitrary: i) (auto split: nat.splits)

lemma filter_video_map:
  "(\<And>t. Type (f t) = Type t) \<Longrightarrow> (\<And>t. g (f t) = g t) \<Longrightarrow>
   map g (filter is_video (map f trs)) = map g (filter is_video trs)"
  by (induction trs) auto

lemma target_index_props:
  assumes "target_index trackID trs = Some i"
  shows "i < length trs" "is_video (trs ! i)" "ID (trs ! i) = trackID"
proof -
  let ?f = "filter (\<lambda>i. is_video (trs ! i) \<and> ID (trs ! i) = trackID) [0..<length trs]"
  from assms have "?f \<noteq> []" "i = last ?f" unfolding target_index_def by (auto split: list.splits)
  then have "i \<in> set ?f" using last_in_set by blast
  then show "i < length trs" "is_video (trs ! i)" "ID (trs ! i) = trackID" by auto
qed

lemma SetTrackDimensions_frame:
  assumes "SetTrackDimensions trackID w h ts = (ts', e)"
  shows "video_ids ts' = video_ids ts" "bitrates ts' = bitrates ts" "activeID ts' = activeID ts" "pendingID ts' = pendingID ts"
    "pendingAt ts' = pendingAt ts" "passthrough ts' = passthrough ts" "length (tracks ts') = length (tracks ts)"
  using assms target_index_props [of trackID "tracks ts"]
  by (auto simp: SetTrackDimensions_def video_ids_def bitrates_def filter_video_map filter_video_update Let_def
      split: if_splits option.splits prod.splits)

lemma SetTrackDimensions_inv: "sel_inv ts \<Longrightarrow> SetTrackDimensions i w h ts = (ts', e) \<Longrightarrow> sel_inv ts'"
  using SetTrackDimensions_frame [of i w h ts ts' e] by (simp add: sel_inv_def)

lemma Select_tracks: "Select now i ts = (ts', e, err) \<Longrightarrow> video_ids ts' = video_ids ts"
  by (auto simp: Select_def split: if_splits)

lemma Select_inv: "sel_inv ts \<Longrightarrow> Select now i ts = (ts', e, err) \<Longrightarrow> sel_inv ts'"
  using video_ids_nonneg [of ts i]
  unfolding Select_def Select_found by (auto simp: sel_inv_def split: if_splits)

lemma OnAccessUnit_inv:
  assumes "sel_inv ts" "OnAccessUnit now i k ts = (ts', e, f, w)"
  shows "sel_inv ts'"
proof -
  have "sel_inv (ts\<lparr>pendingID := - 1\<rparr>)" using assms(1) by (auto simp: sel_inv_def)
  moreover have "0 \<le> pendingID ts \<Longrightarrow> sel_inv (ts\<lparr>activeID := pendingID ts, pendingID := - 1\<rparr>)"
    using assms(1) by (auto simp: sel_inv_def)
  ultimately show ?thesis using assms by (auto simp: OnAccessUnit_def split: if_splits)
qed

lemma SetPassthrough_inv: "sel_inv (SetPassthrough v ts) = sel_inv ts"
  by (simp add: sel_inv_def SetPassthrough_def)

section \<open>Reported tracks\<close>

text \<open>The size of a layer is positive and its label names the shorter side.\<close>

definition track_ok :: "track_info \<Rightarrow> bool" where
  "track_ok t \<longleftrightarrow>
     (is_video t \<longrightarrow> 0 < Width t \<and> 0 < Height t \<and> Label t = quality_label (min (Width t) (Height t)) (Codec t))"

definition tracks_ok :: "track_selector \<Rightarrow> bool" where
  "tracks_ok ts \<longleftrightarrow> (\<forall>t \<in> set (tracks ts). track_ok t)"

lemma track_ok_set_dims: "0 < w \<Longrightarrow> 0 < h \<Longrightarrow> track_ok (set_dims w h t)"
  by (simp add: track_ok_def set_dims_def)

lemma track_ok_backfill: "track_ok t \<Longrightarrow> track_ok (backfill i n cw ch t)"
  by (auto simp: backfill_def Let_def split: prod.splits intro: track_ok_set_dims)

lemma track_ok_resolved [simp]: "track_ok (t\<lparr>dimsResolved := b\<rparr>) = track_ok t"
  by (simp add: track_ok_def)

lemma layerDefaults_ok: "i < length layerDefaults \<Longrightarrow> track_ok (layer_track cdc i)"
  by (auto simp: layerDefaults_def layer_track_def track_ok_def less_Suc_eq numeral_nat)

lemma Load_tracks_ok: "tracks_ok (LoadFromDescription desc ts)"
  by (auto simp: tracks_ok_def LoadFromDescription_def Let_def track_ok_def [of audio_track]
      intro!: layerDefaults_ok)

lemma SetTrackDimensions_tracks_ok:
  assumes "tracks_ok ts" "SetTrackDimensions i w h ts = (ts', e)"
  shows "tracks_ok ts'"
proof (cases "ts' = ts")
  case False
  with assms(2) obtain j n cw ch where
    "0 < w" "0 < h" and
    ts': "tracks ts' = map (backfill i n cw ch)
                  ((tracks ts)[j := (set_dims w h (tracks ts ! j))\<lparr>dimsResolved := True\<rparr>])"
    by (auto simp: SetTrackDimensions_def Let_def split: if_splits option.splits prod.splits)
  then have "\<forall>t \<in> set ((tracks ts)[j := (set_dims w h (tracks ts ! j))\<lparr>dimsResolved := True\<rparr>]). track_ok t"
    using assms(1) set_update_subset_insert [of "tracks ts" j] track_ok_set_dims [of w h]
    by (fastforce simp: tracks_ok_def)
  then show ?thesis by (auto simp: tracks_ok_def ts' track_ok_backfill)
qed (use assms in simp)

section \<open>Estimating the canvas\<close>

lemma div_mult_close:
  fixes w :: int
  assumes "0 < m" "0 < n" "0 \<le> c" "w = (c div n) * m - ((c div n) * m) mod 2"
  shows "(w * n) div m \<le> c" "c < (w * n) div m + 2 * n"
proof -
  let ?q = "c div n" and ?r = "(c div n) * m mod 2"
  have r: "0 \<le> ?r" "?r \<le> 1" by auto
  have q: "?q * n \<le> c" "c < ?q * n + n"
    using pos_mod_bound [OF assms(2), of c] pos_mod_sign [OF assms(2), of c] div_mult_mod_eq [of c n]
    by linarith+
  have wn: "w * n = m * (?q * n) - ?r * n" by (simp add: assms(4) algebra_simps)
  have "?r * n \<le> 1 * n" using r assms(2) by (intro mult_right_mono) auto
  then have rn: "?r * n \<le> n" "0 \<le> ?r * n" using r assms(2) by simp_all
  have "w * n \<le> m * (?q * n)" using wn rn by simp
  then have "(w * n) div m \<le> (m * (?q * n)) div m" using assms(1) by (rule zdiv_mono1)
  then show "(w * n) div m \<le> c" using assms(1) q by simp
  have nm: "n \<le> m * n" using assms(1,2) by simp
  have "m * (?q * n - n) \<le> w * n" using wn rn nm by (simp add: right_diff_distrib)
  then have "(m * (?q * n - n)) div m \<le> (w * n) div m" using assms(1) by (rule zdiv_mono1)
  then show "c < (w * n) div m + 2 * n" using assms(1) q by simp
qed

section \<open>Correctness\<close>

text \<open>
  The canvas size estimated from the real size of one layer is never larger than the canvas that
  layer was scaled from, and smaller by less than twice the number of layers, in each direction.
\<close>
lemma selector_canvas_estimate:
  assumes "0 < k" "k < n" "0 \<le> cw" "0 \<le> ch"
    and "obsSimulcastLayerSize k n cw ch = (w, h)" "obsCanvasSizeFromLayer k n w h = (ew, eh)"
  shows "ew \<le> cw \<and> cw < ew + 2 * n \<and> eh \<le> ch \<and> ch < eh + 2 * n"
proof -
  have q: "0 \<le> cw div n * (n - k)" "0 \<le> ch div n * (n - k)"
    using assms(1-4) by (simp_all add: pos_imp_zdiv_nonneg_iff)
  then have wh: "w = cw div n * (n - k) - (cw div n * (n - k)) mod 2"
      "h = ch div n * (n - k) - (ch div n * (n - k)) mod 2"
    using assms(1-5) by (simp_all add: obsSimulcastLayerSize_def Let_def sdiv_nonneg smod_nonneg)
  then have "0 \<le> w" "0 \<le> h" using q by (simp_all add: zmod_le_nonneg_dividend)
  then have "ew = w * n div (n - k)" "eh = h * n div (n - k)"
    using assms(1,2,6) by (simp_all add: obsCanvasSizeFromLayer_def Let_def sdiv_nonneg)
  then show ?thesis
    using div_mult_close [of "n - k" n cw w] div_mult_close [of "n - k" n ch h] wh assms(1-4) by simp
qed

lemma selector_canvas_estimate_instance:
  "obsSimulcastLayerSize 3 4 1919 1080 = (478, 270) \<and> obsCanvasSizeFromLayer 3 4 478 270 = (1912, 1080) \<and>
   (1912 :: int) \<le> 1919 \<and> (1919 :: int) < 1912 + 2 * 4"
  using selector_canvas_estimate [of 3 4 1919 1080 478 270 1912 1080]
  by (simp add: obsSimulcastLayerSize_def obsCanvasSizeFromLayer_def)

end
