(* ===== verification/Abr_Controller.thy ===== *)
theory Abr_Controller
  imports Track_Selector
begin

text \<open>
  \<^verbatim>\<open>internal/servers/webrtc/abr_controller.go\<close>: the decision which layer a reader should get, from
  the loss it reports and its round-trip time. The controller reads the selector it belongs to;
  here the selector is an argument. A result of \<open>None\<close> is Go's \<^verbatim>\<open>(0, false)\<close>.
\<close>

section \<open>State and operations\<close>

definition abrEvalInterval :: int where "abrEvalInterval = 1 * time_Second"
definition abrWarmupPeriod :: int where "abrWarmupPeriod = 5 * time_Second"
definition abrLossUpgradePct :: f64 where "abrLossUpgradePct = fl64 (3 / 10)"
definition abrLossDowngradePct :: f64 where "abrLossDowngradePct = 1"
definition abrRTTStableFactor :: f64 where "abrRTTStableFactor = fl64 (13 / 10)"
definition abrRTTDowngradeFactor :: f64 where "abrRTTDowngradeFactor = 2"
definition abrRTTStableMinMs :: f64 where "abrRTTStableMinMs = 20"
definition abrRTTWindowSamples :: nat where "abrRTTWindowSamples = 30"
definition abrDowngradeConfirmations :: nat where "abrDowngradeConfirmations = 2"
definition abrUpgradeConfirmations :: nat where "abrUpgradeConfirmations = 5"

record abr_controller =
  downgradeCount :: nat
  upgradeCount :: nat
  rttWindow :: "f64 list"
  rttMinMs :: f64
  haveRTT :: bool

definition newABRController :: abr_controller where
  "newABRController = \<lparr>downgradeCount = 0, upgradeCount = 0, rttWindow = [], rttMinMs = 0, haveRTT = False\<rparr>"

definition observeRTT :: "f64 \<Rightarrow> abr_controller \<Rightarrow> abr_controller" where
  "observeRTT rttMs c =
     (if rttMs \<le> 0 then c
      else
        let w1 = rttWindow c @ [rttMs];
            w = (if abrRTTWindowSamples < length w1 then drop (length w1 - abrRTTWindowSamples) w1 else w1);
            base = fold (\<lambda>v base. if v < base then v else base) w (w ! 0)
        in c\<lparr>rttWindow := w, rttMinMs := base, haveRTT := True\<rparr>)"

definition rttBaseline :: "abr_controller \<Rightarrow> f64" where
  "rttBaseline c = (if rttMinMs c < abrRTTStableMinMs then abrRTTStableMinMs else rttMinMs c)"

definition rttStable :: "f64 \<Rightarrow> abr_controller \<Rightarrow> bool" where
  "rttStable rttMs c \<longleftrightarrow>
     (if \<not> haveRTT c \<or> rttMs \<le> 0 then True else rttMs \<le> f64_mul (rttBaseline c) abrRTTStableFactor)"

definition rttCongested :: "f64 \<Rightarrow> abr_controller \<Rightarrow> bool" where
  "rttCongested rttMs c \<longleftrightarrow>
     (if \<not> haveRTT c \<or> rttMs \<le> 0 then False else f64_mul (rttBaseline c) abrRTTDowngradeFactor < rttMs)"

text \<open>\<^verbatim>\<open>sort.SliceStable\<close> by bitrate is the stable \<open>sort_key\<close>.\<close>

definition videoLadder :: "track_info list \<Rightarrow> track_info list" where
  "videoLadder trs = sort_key Bitrate (filter is_video trs)"

fun index_of :: "int \<Rightarrow> track_info list \<Rightarrow> nat option" where
  "index_of active [] = None"
| "index_of active (t # ts) = (if ID t = active then Some 0 else map_option Suc (index_of active ts))"

definition ladder_step :: "track_info list \<Rightarrow> int \<Rightarrow> int \<Rightarrow> int option" where
  "ladder_step ladder active delta =
     (case index_of active ladder of
        None \<Rightarrow> None
      | Some idx \<Rightarrow>
          let next = int idx + delta
          in if next < 0 \<or> int (length ladder) \<le> next then None else Some (ID (ladder ! nat next)))"

definition evaluate :: "f64 \<Rightarrow> f64 \<Rightarrow> track_selector \<Rightarrow> abr_controller \<Rightarrow> abr_controller \<times> int option" where
  "evaluate lossPct rttMs selector c0 =
     (let c = observeRTT rttMs c0;
          ladder = videoLadder (GetTracks selector);
          active = activeID selector
      in if length ladder < 2 then (c, None)
         else if abrLossDowngradePct \<le> lossPct \<or> rttCongested rttMs c then
           (let c1 = c\<lparr>upgradeCount := 0, downgradeCount := downgradeCount c + 1\<rparr>
            in if abrDowngradeConfirmations \<le> downgradeCount c1
               then (c1\<lparr>downgradeCount := 0\<rparr>, ladder_step ladder active (- 1))
               else (c1, None))
         else if lossPct \<le> abrLossUpgradePct \<and> rttStable rttMs c then
           (let c1 = c\<lparr>downgradeCount := 0, upgradeCount := upgradeCount c + 1\<rparr>
            in if abrUpgradeConfirmations \<le> upgradeCount c1
               then (c1\<lparr>upgradeCount := 0\<rparr>, ladder_step ladder active 1)
               else (c1, None))
         else (c\<lparr>upgradeCount := 0, downgradeCount := 0\<rparr>, None))"

definition controller_reset :: "abr_controller \<Rightarrow> abr_controller" where
  "controller_reset c = c\<lparr>downgradeCount := 0, upgradeCount := 0\<rparr>"

section \<open>The ladder\<close>

text \<open>For a selector that satisfies its invariant the ladder is the list of layers, reversed.\<close>

lemma insort_key_max: "\<forall>y \<in> set ys. f y < f x \<Longrightarrow> insort_key f x ys = ys @ [x]"
  by (induction ys) auto

lemma sort_key_descending: "sorted_wrt (\<lambda>a b. f b < f a) xs \<Longrightarrow> sort_key f xs = rev xs"
  by (induction xs) (simp_all add: insort_key_max)

lemma ladder_rev: "sel_inv ts \<Longrightarrow> videoLadder (tracks ts) = rev (filter is_video (tracks ts))"
  by (simp add: videoLadder_def sort_key_descending sel_inv_def bitrates_def sorted_wrt_map)

lemma length_video_ids: "length (video_ids ts) = VideoTrackCount ts"
  by (simp add: video_ids_def VideoTrackCount_def)

lemma ladder_ids:
  assumes "sel_inv ts"
  shows "map ID (videoLadder (tracks ts)) = map int (rev [0..<VideoTrackCount ts])"
proof -
  have "map ID (videoLadder (tracks ts)) = rev (video_ids ts)"
    using ladder_rev [OF assms] by (simp add: video_ids_def rev_map)
  also have "video_ids ts = map int [0..<VideoTrackCount ts]"
    using assms by (metis sel_inv_def from_zero_def length_video_ids)
  finally show ?thesis by (simp add: rev_map)
qed

lemma index_of_Some:
  assumes "i < length ls" "distinct (map ID ls)" "ID (ls ! i) = a"
  shows "index_of a ls = Some i"
  using assms
proof (induction ls arbitrary: i)
  case (Cons l ls)
  show ?case
  proof (cases i)
    case 0
    then show ?thesis using Cons.prems(3) by simp
  next
    case (Suc j)
    then have "index_of a ls = Some j" "ID (ls ! j) = a" "j < length ls" using Cons by auto
    moreover from this have "ID l \<noteq> a" using Cons.prems(2) by force
    ultimately show ?thesis using Suc by simp
  qed
qed simp

lemma ladder_nth:
  assumes "sel_inv ts" "i < VideoTrackCount ts"
  shows "ID (videoLadder (tracks ts) ! i) = int (VideoTrackCount ts - 1 - i)"
proof -
  have "length (videoLadder (tracks ts)) = VideoTrackCount ts"
    by (simp add: videoLadder_def VideoTrackCount_def)
  then have "ID (videoLadder (tracks ts) ! i) = map ID (videoLadder (tracks ts)) ! i" using assms(2) by simp
  also have "\<dots> = int (VideoTrackCount ts - 1 - i)"
    using assms by (simp add: ladder_ids rev_nth)
  finally show ?thesis .
qed

lemma active_layer:
  assumes "sel_inv ts" "0 < VideoTrackCount ts"
  shows "0 \<le> activeID ts" "activeID ts < int (VideoTrackCount ts)"
proof -
  have "activeID ts \<in> set (video_ids ts)"
    using assms by (auto simp: sel_inv_def simp flip: length_video_ids)
  moreover have "video_ids ts = map int [0..<VideoTrackCount ts]"
    using assms(1) by (metis sel_inv_def from_zero_def length_video_ids)
  ultimately show "0 \<le> activeID ts" "activeID ts < int (VideoTrackCount ts)" by auto
qed

text \<open>One step down is the next identifier, one step up the previous one.\<close>

lemma ladder_step_id:
  assumes "sel_inv ts" "0 < VideoTrackCount ts" "delta = 1 \<or> delta = - 1"
  shows "ladder_step (videoLadder (tracks ts)) (activeID ts) delta =
    (if 0 \<le> activeID ts - delta \<and> activeID ts - delta < int (VideoTrackCount ts)
     then Some (activeID ts - delta) else None)"
proof -
  let ?n = "VideoTrackCount ts" and ?l = "videoLadder (tracks ts)" and ?a = "activeID ts"
  let ?i = "nat (int ?n - 1 - ?a)"
  note a = active_layer [OF assms(1,2)]
  have len: "length ?l = ?n" by (simp add: videoLadder_def VideoTrackCount_def)
  have i: "?i < ?n" "int ?i = int ?n - 1 - ?a" using a by linarith+
  then have "ID (?l ! ?i) = ?a" using ladder_nth [OF assms(1) i(1)] by simp
  moreover have "distinct (map ID ?l)"
    using ladder_ids [OF assms(1)] by (simp add: distinct_map)
  ultimately have idx: "index_of ?a ?l = Some ?i" using i(1) len by (intro index_of_Some) auto
  have "ID (?l ! nat (int ?i + delta)) = ?a - delta" if "0 \<le> int ?i + delta" "int ?i + delta < int ?n"
  proof -
    have "nat (int ?i + delta) < ?n" using that by linarith
    from ladder_nth [OF assms(1) this] show ?thesis using that i by simp
  qed
  then show ?thesis using i len by (auto simp: ladder_step_def idx Let_def)
qed

section \<open>The round-trip baseline\<close>

lemma fold_min:
  fixes xs :: "'a::linorder list"
  shows "fold (\<lambda>v base. if v < base then v else base) xs a = Min (insert a (set xs))"
proof -
  have "(\<lambda>v base :: 'a. if v < base then v else base) = min" by (auto simp: min_def fun_eq_iff)
  then show ?thesis by (simp add: Min.set_eq_fold [of a xs, symmetric])
qed

text \<open>
  The window holds the last positive samples, at most thirty of them, and \<open>rttMinMs\<close> is their
  minimum; the confirmation counters stay below their thresholds and count one direction only.
\<close>

definition rtt_inv :: "abr_controller \<Rightarrow> bool" where
  "rtt_inv c \<longleftrightarrow>
     length (rttWindow c) \<le> abrRTTWindowSamples \<and> (\<forall>v \<in> set (rttWindow c). 0 < v) \<and>
     (haveRTT c \<longleftrightarrow> rttWindow c \<noteq> []) \<and> (haveRTT c \<longrightarrow> rttMinMs c = Min (set (rttWindow c)))"

definition ctl_inv :: "abr_controller \<Rightarrow> bool" where
  "ctl_inv c \<longleftrightarrow> rtt_inv c \<and>
     downgradeCount c < abrDowngradeConfirmations \<and> upgradeCount c < abrUpgradeConfirmations \<and>
     (downgradeCount c = 0 \<or> upgradeCount c = 0)"

lemmas confirmations = abrDowngradeConfirmations_def abrUpgradeConfirmations_def

lemma rtt_inv_observe:
  assumes "rtt_inv c"
  shows "rtt_inv (observeRTT r c)"
proof (cases "r \<le> 0")
  case False
  let ?w1 = "rttWindow c @ [r]"
  define w where "w = (if abrRTTWindowSamples < length ?w1 then drop (length ?w1 - abrRTTWindowSamples) ?w1 else ?w1)"
  have "w \<noteq> []" "length w \<le> abrRTTWindowSamples"
    using assms by (auto simp: w_def rtt_inv_def abrRTTWindowSamples_def)
  moreover have "set w \<subseteq> set ?w1" by (auto simp: w_def dest: in_set_dropD)
  then have "\<forall>v \<in> set w. 0 < v" using assms False by (auto simp: rtt_inv_def)
  moreover have "fold (\<lambda>v base. if v < base then v else base) w (w ! 0) = Min (set w)"
    using \<open>w \<noteq> []\<close> by (simp add: fold_min insert_absorb)
  moreover have "observeRTT r c =
      c\<lparr>rttWindow := w, rttMinMs := fold (\<lambda>v base. if v < base then v else base) w (w ! 0), haveRTT := True\<rparr>"
    unfolding observeRTT_def w_def Let_def using False by (simp only: if_False)
  ultimately show ?thesis by (simp add: rtt_inv_def)
qed (use assms in \<open>simp add: observeRTT_def\<close>)

lemma observe_counts [simp]:
  "downgradeCount (observeRTT r c) = downgradeCount c" "upgradeCount (observeRTT r c) = upgradeCount c"
  by (simp_all add: observeRTT_def Let_def)

lemma rtt_inv_counts [simp]:
  "rtt_inv (c\<lparr>downgradeCount := d\<rparr>) = rtt_inv c" "rtt_inv (c\<lparr>upgradeCount := u\<rparr>) = rtt_inv c"
  by (simp_all add: rtt_inv_def)

lemma ctl_inv_new: "ctl_inv newABRController"
  by (simp add: newABRController_def ctl_inv_def rtt_inv_def confirmations)

lemma ctl_inv_evaluate: "ctl_inv c \<Longrightarrow> evaluate l r ts c = (c', t) \<Longrightarrow> ctl_inv c'"
  using rtt_inv_observe [of c r]
  by (auto simp: evaluate_def Let_def ctl_inv_def confirmations split: if_splits)

lemma ctl_inv_reset: "ctl_inv c \<Longrightarrow> ctl_inv (controller_reset c)"
  by (simp add: controller_reset_def ctl_inv_def confirmations)

section \<open>Confirmation\<close>

text \<open>The verdict on one evaluation, after the round-trip sample has been taken in.\<close>

datatype verdict = Congested | Healthy | Hold

definition verdict_of :: "f64 \<Rightarrow> f64 \<Rightarrow> abr_controller \<Rightarrow> verdict" where
  "verdict_of l r c =
     (let c1 = observeRTT r c
      in if abrLossDowngradePct \<le> l \<or> rttCongested r c1 then Congested
         else if l \<le> abrLossUpgradePct \<and> rttStable r c1 then Healthy else Hold)"

fun eval_run :: "abr_controller \<Rightarrow> (f64 \<times> f64 \<times> track_selector) list \<Rightarrow> (verdict \<times> int option) list" where
  "eval_run c [] = []"
| "eval_run c ((l, r, ts) # xs) =
     (let (c', t) = evaluate l r ts c in (verdict_of l r c, t) # eval_run c' xs)"

lemma length_eval_run [simp]: "length (eval_run c xs) = length xs"
  by (induction xs arbitrary: c) (auto simp: Let_def split: prod.splits)

text \<open>The counters never exceed the length of the streak that ends a history (latest first).\<close>

definition streak :: "verdict \<Rightarrow> verdict list \<Rightarrow> nat" where
  "streak v h = length (takeWhile (\<lambda>x. x = v) h)"

lemma streak_Cons [simp]: "streak v (x # h) = (if x = v then Suc (streak v h) else 0)"
  by (simp add: streak_def)

definition counted :: "abr_controller \<Rightarrow> verdict list \<Rightarrow> bool" where
  "counted c h \<longleftrightarrow> downgradeCount c \<le> streak Congested h \<and> upgradeCount c \<le> streak Healthy h"

lemma evaluate_counted:
  assumes "counted c h" "evaluate l r ts c = (c', t)" "2 \<le> VideoTrackCount ts"
  shows "counted c' (verdict_of l r c # h)"
    and "t \<noteq> None \<Longrightarrow> verdict_of l r c = Congested \<and> 2 \<le> streak Congested (Congested # h) \<or>
                     verdict_of l r c = Healthy \<and> 5 \<le> streak Healthy (Healthy # h)"
  using assms
  by (auto simp: evaluate_def Let_def counted_def verdict_of_def confirmations GetTracks_def
      videoLadder_def VideoTrackCount_def split: if_splits)

lemma eval_run_counted:
  assumes "counted c h" "\<forall>x \<in> set xs. 2 \<le> VideoTrackCount (snd (snd x))"
    "i < length xs" "snd (eval_run c xs ! i) \<noteq> None"
  shows "2 \<le> streak Congested (rev (map fst (take (Suc i) (eval_run c xs))) @ h) \<or>
         5 \<le> streak Healthy (rev (map fst (take (Suc i) (eval_run c xs))) @ h)"
  using assms
proof (induction xs arbitrary: c h i)
  case (Cons x xs)
  obtain l r ts where x: "x = (l, r, ts)" by (cases x)
  obtain c' t where e: "evaluate l r ts c = (c', t)" by force
  note ec = evaluate_counted [OF Cons.prems(1) e]
  show ?case
  proof (cases i)
    case 0
    then show ?thesis using Cons.prems ec(2) x e by auto
  next
    case (Suc j)
    with Cons.prems x e have "2 \<le> VideoTrackCount ts" "j < length xs" "snd (eval_run c' xs ! j) \<noteq> None"
      "\<forall>x \<in> set xs. 2 \<le> VideoTrackCount (snd (snd x))" by auto
    from Cons.IH [OF ec(1) [OF this(1)] this(4,2,3)] show ?thesis using x e Suc by simp
  qed
qed simp

lemma streak_suffix:
  "n \<le> streak v (rev vs) \<Longrightarrow> \<exists>h. vs = h @ replicate n v"
proof (induction n arbitrary: vs)
  case (Suc n)
  then obtain ws where "vs = ws @ [v]" "n \<le> streak v (rev ws)"
    by (cases vs rule: rev_cases) (auto simp: streak_def split: if_splits)
  with Suc.IH obtain h where "ws = h @ replicate n v" by blast
  with \<open>vs = ws @ [v]\<close> have "vs = h @ replicate (Suc n) v" by (simp add: replicate_append_same)
  then show ?case by blast
qed simp

section \<open>The target\<close>

lemma evaluate_target:
  assumes "sel_inv ts" "2 \<le> VideoTrackCount ts" "evaluate l r ts c = (c', Some t)"
  shows "t = activeID ts + 1 \<or> t = activeID ts - 1" "0 \<le> t" "t < int (VideoTrackCount ts)"
  using assms(3) ladder_step_id [OF assms(1), of 1] ladder_step_id [OF assms(1), of "- 1"] assms(2)
  by (auto simp: evaluate_def Let_def GetTracks_def split: if_splits)

lemma layer_in_video_ids:
  assumes "sel_inv ts" "0 \<le> t" "t < int (VideoTrackCount ts)"
  shows "t \<in> set (video_ids ts)"
proof -
  have "video_ids ts = map int [0..<VideoTrackCount ts]"
    using assms(1) by (metis sel_inv_def from_zero_def length_video_ids)
  moreover have "t = int (nat t)" "nat t < VideoTrackCount ts" using assms(2,3) by auto
  ultimately show ?thesis by (metis atLeast0LessThan imageI lessThan_iff list.set_map set_upt)
qed

section \<open>Correctness\<close>

text \<open>
  The controller recommends a layer only on a confirmed verdict: the evaluation that recommends and
  the one before it found congestion, or that evaluation and the four before it all found a healthy
  link. Every single sample in the dead zone starts the count over.
\<close>
lemma abr_recommendation_confirmed:
  assumes "\<forall>x \<in> set xs. 2 \<le> VideoTrackCount (snd (snd x))"
    and "i < length xs" "snd (eval_run newABRController xs ! i) = Some t"
  shows "(\<exists>h. take (Suc i) (map fst (eval_run newABRController xs)) = h @ replicate 2 Congested) \<or>
    (\<exists>h. take (Suc i) (map fst (eval_run newABRController xs)) = h @ replicate 5 Healthy)"
proof -
  have "counted newABRController []" by (simp add: counted_def newABRController_def)
  from eval_run_counted [OF this assms(1,2)] assms(3) show ?thesis
    by (auto simp: take_map dest: streak_suffix)
qed

definition three_layers :: track_selector where
  "three_layers = LoadFromDescription
     \<lparr>Medias = map (\<lambda>i. \<lparr>media_id = i, mtype = MediaTypeVideo, formats = [H264]\<rparr>) [0..<3]\<rparr>
     (NewTrackSelector True)"

lemma three_layers_run:
  "map snd (eval_run newABRController (replicate 2 (5, 30, three_layers))) = [None, Some 1]"
  by code_simp

lemma abr_recommendation_confirmed_instance:
  "map fst (eval_run newABRController (replicate 2 (5, 30, three_layers))) = [Congested, Congested]"
proof -
  define xs :: "(f64 \<times> f64 \<times> track_selector) list" where "xs = replicate 2 (5, 30, three_layers)"
  define vs where "vs = map fst (eval_run newABRController xs)"
  have len: "length xs = 2" "length vs = 2" by (simp_all add: xs_def vs_def)
  have "VideoTrackCount three_layers = 3" by code_simp
  then have "\<forall>x \<in> set xs. 2 \<le> VideoTrackCount (snd (snd x))" by (simp add: xs_def)
  moreover have "snd (eval_run newABRController xs ! 1) = Some 1"
    using arg_cong [OF three_layers_run [folded xs_def], of "\<lambda>l. l ! 1"] len by simp
  ultimately have "(\<exists>h. vs = h @ replicate 2 Congested) \<or> (\<exists>h. vs = h @ replicate 5 Healthy)"
    using abr_recommendation_confirmed [of xs 1 1] len unfolding vs_def [symmetric] by simp
  then have "vs = replicate 2 Congested" using len(2) by auto
  then show ?thesis by (simp only: vs_def xs_def) (simp add: numeral_nat)
qed

end
