(* ===== verification/Media_State.thy ===== *)
theory Media_State
  imports Forward_Layers Go_Float Step_Machine "HOL-Library.AList"
begin

text \<open>
  \<^verbatim>\<open>internal/protocols/webrtc/media_state.go\<close>, the pause and resume of the medias of a WHEP session,
  and the output clock of \<^verbatim>\<open>from_stream.go\<close>. Every method is one atomic step; the map from medias
  to generations is an association list (Go's nil map behaves like the empty one here).
\<close>

unbundle bit_operations_syntax

section \<open>Pausing\<close>

record media_state =
  videoPaused :: bool
  audioPaused :: bool
  videoGeneration :: u64
  videoMediaGeneration :: "(nat \<times> u64) list"

text \<open>
  What the filter sees of a unit: no payload (an RTP packet that does not complete an access unit),
  an H264 access unit with its NAL units, or a payload of another codec.
\<close>

datatype payload = NilPayload | PayloadH264 "bytes list" | PayloadOther

definition new_media_state :: media_state where
  "new_media_state =
     \<lparr>videoPaused = False, audioPaused = False, videoGeneration = 0, videoMediaGeneration = []\<rparr>"

definition SetVideoPaused :: "bool \<Rightarrow> media_state \<Rightarrow> media_state" where
  "SetVideoPaused paused s =
     (let s1 = s\<lparr>videoPaused := paused\<rparr>
      in if videoPaused s \<and> \<not> paused then s1\<lparr>videoGeneration := videoGeneration s + 1\<rparr> else s1)"

definition SetAudioPaused :: "bool \<Rightarrow> media_state \<Rightarrow> media_state" where
  "SetAudioPaused paused s = s\<lparr>audioPaused := paused\<rparr>"

definition VideoNeedsKeyframe :: "media_state \<Rightarrow> bool" where
  "VideoNeedsKeyframe s \<longleftrightarrow>
     (if videoGeneration s = 0 \<or> videoMediaGeneration s = [] then videoGeneration s \<noteq> 0
      else \<exists>(m, g) \<in> set (videoMediaGeneration s). g < videoGeneration s)"

text \<open>\<^verbatim>\<open>h264.NALUType(nalu[0]&0x1F) == h264.NALUTypeIDR\<close>\<close>

definition is_idr :: "bytes \<Rightarrow> bool" where
  "is_idr nalu \<longleftrightarrow> nalu \<noteq> [] \<and> nalu ! 0 AND 0x1F = 5"

definition Allow :: "media \<Rightarrow> payload \<Rightarrow> media_state \<Rightarrow> media_state \<times> bool" where
  "Allow m u s =
     (case mtype m of
        MediaTypeAudio \<Rightarrow> (s, \<not> audioPaused s)
      | MediaTypeVideo \<Rightarrow>
          if videoPaused s then
            ((case map_of (videoMediaGeneration s) (media_id m) of
                None \<Rightarrow> s\<lparr>videoMediaGeneration :=
                           AList.update (media_id m) (videoGeneration s) (videoMediaGeneration s)\<rparr>
              | Some _ \<Rightarrow> s), False)
          else
            (let generation = videoGeneration s;
                 (s1, mediaGeneration) =
                   (case map_of (videoMediaGeneration s) (media_id m) of
                      None \<Rightarrow> (s\<lparr>videoMediaGeneration :=
                                 AList.update (media_id m) 0 (videoMediaGeneration s)\<rparr>, 0)
                    | Some g \<Rightarrow> (s, g));
                 passed = s1\<lparr>videoMediaGeneration :=
                            AList.update (media_id m) generation (videoMediaGeneration s1)\<rparr>
             in if generation = 0 \<or> generation \<le> mediaGeneration then (s1, True)
                else
                  case u of
                    PayloadH264 au \<Rightarrow> if \<exists>nalu \<in> set au. is_idr nalu then (passed, True) else (s1, False)
                  | _ \<Rightarrow> (passed, True))
      | MediaTypeApplication \<Rightarrow> (s, True))"

section \<open>The wait for a keyframe\<close>

text \<open>The generation a media has reached, 0 for one that has not been seen.\<close>

definition gen_of :: "media_state \<Rightarrow> nat \<Rightarrow> u64" where
  "gen_of s k = (case map_of (videoMediaGeneration s) k of None \<Rightarrow> 0 | Some g \<Rightarrow> g)"

definition gens_ok :: "media_state \<Rightarrow> bool" where
  "gens_ok s \<longleftrightarrow> (\<forall>k. gen_of s k \<le> videoGeneration s)"

definition blocked :: "nat \<Rightarrow> media_state \<Rightarrow> bool" where
  "blocked k s \<longleftrightarrow> videoPaused s \<or> gen_of s k < videoGeneration s"

datatype media_op = OpVideo bool | OpAudio bool | OpUnit media payload

fun media_step :: "media_op \<Rightarrow> media_state \<Rightarrow> media_state \<times> (media \<times> payload) list" where
  "media_step (OpVideo p) s = (SetVideoPaused p s, [])"
| "media_step (OpAudio p) s = (SetAudioPaused p s, [])"
| "media_step (OpUnit m u) s = (let (s', ok) = Allow m u s in (s', if ok then [(m, u)] else []))"

lemma gen_of_upd [simp]:
  "gen_of (s\<lparr>videoMediaGeneration := AList.update k g (videoMediaGeneration s)\<rparr>) j =
     (if j = k then g else gen_of s j)"
  "gen_of (s\<lparr>videoPaused := p\<rparr>) j = gen_of s j" "gen_of (s\<lparr>audioPaused := p\<rparr>) j = gen_of s j"
  "gen_of (s\<lparr>videoGeneration := v\<rparr>) j = gen_of s j"
  by (simp_all add: gen_of_def update_conv')

text \<open>A generation is only ever raised to the current one.\<close>

lemma Allow_frame:
  assumes "Allow m u s = (s', ok)"
  shows "videoGeneration s' = videoGeneration s" "videoPaused s' = videoPaused s"
    and "gen_of s' k = gen_of s k \<or> gen_of s' k = videoGeneration s"
    and "k \<noteq> media_id m \<Longrightarrow> gen_of s' k = gen_of s k"
  using assms
  by (auto simp: Allow_def Let_def gen_of_def update_conv'
      split: media_type.splits if_splits option.splits payload.splits prod.splits)

lemma gens_ok_Allow: "gens_ok s \<Longrightarrow> Allow m u s = (s', ok) \<Longrightarrow> gens_ok s'"
  using Allow_frame [of m u s s' ok] unfolding gens_ok_def by (metis order_refl)

lemma inc_less: "(v :: u64) \<noteq> - 1 \<Longrightarrow> v < v + 1"
  by (simp add: word_less_nat_alt unat_suc)

lemma gens_ok_pause: "gens_ok s \<Longrightarrow> videoGeneration s \<noteq> - 1 \<Longrightarrow> gens_ok (SetVideoPaused p s)"
  using inc_less [of "videoGeneration s"]
  by (auto simp: gens_ok_def SetVideoPaused_def Let_def intro: order_trans less_imp_le)

lemma blocked_pause:
  "gens_ok s \<Longrightarrow> videoGeneration s \<noteq> - 1 \<Longrightarrow> blocked k s \<Longrightarrow> blocked k (SetVideoPaused p s)"
  using inc_less [of "videoGeneration s"]
  by (auto simp: gens_ok_def blocked_def SetVideoPaused_def Let_def intro: le_less_trans)

text \<open>What passes for a blocked video media, and that it stays blocked otherwise.\<close>

lemma blocked_Allow:
  assumes "blocked k s" "gens_ok s" "Allow m u s = (s', ok)"
    and "\<not> (ok \<and> media_id m = k \<and> mtype m = MediaTypeVideo)"
  shows "blocked k s'"
proof (cases "videoPaused s")
  case True
  then show ?thesis using Allow_frame [OF assms(3)] by (simp add: blocked_def)
next
  case False
  with assms(1) have lt: "gen_of s k < videoGeneration s" by (simp add: blocked_def)
  show ?thesis
  proof (cases "media_id m = k \<and> mtype m = MediaTypeVideo")
    case True
    with assms lt False have "gen_of s' k = gen_of s k"
      by (auto simp: Allow_def Let_def gen_of_def update_conv'
          split: if_splits option.splits payload.splits prod.splits)
    then show ?thesis using lt Allow_frame(1) [OF assms(3)] by (simp add: blocked_def)
  next
    case False
    then have "gen_of s' k = gen_of s k"
      using Allow_frame(4) [OF assms(3), of k] assms(3)
      by (cases "media_id m = k") (auto simp: Allow_def split: media_type.splits)
    then show ?thesis using lt Allow_frame(1) [OF assms(3)] by (simp add: blocked_def)
  qed
qed

lemma blocked_passes:
  assumes "blocked (media_id m) s" "mtype m = MediaTypeVideo" "Allow m u s = (s', True)"
    and "u = PayloadH264 au"
  shows "\<exists>nalu \<in> set au. is_idr nalu"
  using assms by (auto simp: Allow_def Let_def blocked_def gen_of_def
      split: if_splits option.splits payload.splits prod.splits)

text \<open>The unit of a media that a list of passed units has first.\<close>

fun first_of :: "nat \<Rightarrow> (media \<times> payload) list \<Rightarrow> payload option" where
  "first_of k [] = None"
| "first_of k ((m, u) # xs) =
     (if media_id m = k \<and> mtype m = MediaTypeVideo then Some u else first_of k xs)"

lemma first_of_append: "first_of k (xs @ ys) = (case first_of k xs of None \<Rightarrow> first_of k ys | Some u \<Rightarrow> Some u)"
  by (induction k xs rule: first_of.induct) simp_all

lemma media_step_blocked:
  assumes "blocked k s" "gens_ok s" "videoGeneration s \<noteq> - 1" "media_step x s = (s', out)"
  shows "gens_ok s'" "unat (videoGeneration s') \<le> Suc (unat (videoGeneration s))"
    and "first_of k out = None \<Longrightarrow> blocked k s'"
    and "first_of k out = Some (PayloadH264 au) \<Longrightarrow> \<exists>nalu \<in> set au. is_idr nalu"
proof -
  show "gens_ok s'"
    using assms gens_ok_pause gens_ok_Allow
    by (cases x) (auto simp: SetAudioPaused_def gens_ok_def Let_def split: prod.splits)
  show "unat (videoGeneration s') \<le> Suc (unat (videoGeneration s))"
    using assms Allow_frame(1)
    by (cases x) (auto simp: SetAudioPaused_def SetVideoPaused_def Let_def unat_suc split: prod.splits)
  show "blocked k s'" if "first_of k out = None"
    using assms that blocked_pause blocked_Allow
    by (cases x) (auto simp: SetAudioPaused_def blocked_def [of k "audioPaused_update _ _"] Let_def
        blocked_def [symmetric] split: prod.splits if_splits)
  show "\<exists>nalu \<in> set au. is_idr nalu" if "first_of k out = Some (PayloadH264 au)"
    using assms that blocked_passes
    by (cases x) (auto simp: Let_def split: prod.splits if_splits)
qed

lemma media_run_blocked:
  assumes "blocked k s" "gens_ok s" "unat (videoGeneration s) + length xs < 2 ^ 64"
    "run_steps media_step xs s = (s', out)" "first_of k out = Some (PayloadH264 au)"
  shows "\<exists>nalu \<in> set au. is_idr nalu"
  using assms
proof (induction xs arbitrary: s out)
  case (Cons x xs)
  obtain s1 out1 where 1: "media_step x s = (s1, out1)" by force
  obtain out2 where 2: "run_steps media_step xs s1 = (s', out2)" "out = out1 @ out2"
    using Cons.prems(4) 1 by (auto split: prod.splits)
  have ne: "videoGeneration s \<noteq> - 1" using Cons.prems(3) by (auto simp: unsigned_minus_1_eq_mask mask_eq_exp_minus_1)
  note st = media_step_blocked [OF Cons.prems(1,2) ne 1]
  show ?case
  proof (cases "first_of k out1")
    case None
    then show ?thesis using Cons.IH [of s1 out2] st 2 Cons.prems(3,5) by (simp add: first_of_append)
  next
    case (Some u)
    then show ?thesis using st(4) Cons.prems(5) 2(2) by (simp add: first_of_append)
  qed
qed simp

section \<open>The output clock\<close>

text \<open>
  \<^verbatim>\<open>abrOutputClock\<close> of \<^verbatim>\<open>from_stream.go\<close>: the RTP timestamps of the outgoing video, 90000 ticks a
  second of arrival time. Neither the product of seconds nor that of the nanoseconds below a second
  leaves 64 bits, so only the conversion to \<^verbatim>\<open>uint32\<close> wraps.
\<close>

record abr_output_clock =
  baseTS :: "32 word"
  clockInitialized :: bool
  lastTime :: int
  lastTS :: "32 word"
  tickRemainder :: int

definition clock_next :: "int \<Rightarrow> abr_output_clock \<Rightarrow> abr_output_clock \<times> 32 word" where
  "clock_next now c =
     (if \<not> clockInitialized c then
        (c\<lparr>clockInitialized := True, lastTime := now, lastTS := baseTS c\<rparr>, baseTS c)
      else
        let delta = now - lastTime c;
            c1 = c\<lparr>lastTime := now\<rparr>
        in if delta \<le> 0 then (c1\<lparr>lastTS := lastTS c + 1\<rparr>, lastTS c + 1)
           else
             let ticks = (delta sdiv time_Second) * 90000;
                 subsecond = (delta smod time_Second) * 90000 + tickRemainder c;
                 ticks1 = ticks + subsecond sdiv time_Second;
                 rem1 = subsecond smod time_Second;
                 (ticks2, rem2) = (if ticks1 = 0 then (1, 0) else (ticks1, rem1));
                 ts = lastTS c + word_of_int ticks2
             in (c1\<lparr>tickRemainder := rem2, lastTS := ts\<rparr>, ts))"

definition clock_ok :: "abr_output_clock \<Rightarrow> bool" where
  "clock_ok c \<longleftrightarrow> 0 \<le> tickRemainder c \<and> tickRemainder c < time_Second"

text \<open>The ticks of one interval and the remainder it leaves are exact.\<close>

lemma carry_exact:
  fixes q m u v S d r :: int
  assumes "q * S + m = d" "u * S + v = m * c + r"
  shows "(q * c + u) * S + v = d * c + r"
proof -
  have "(q * c + u) * S + v = q * S * c + (u * S + v)" by (simp add: algebra_simps)
  then show ?thesis by (simp add: assms(2)) (simp add: assms(1) [symmetric] algebra_simps)
qed

lemma tick_pos:
  fixes k v d r :: int
  assumes "k * 1000000000 + v = d * 90000 + r" "v < 1000000000" "11112 \<le> d" "0 \<le> r"
  shows "0 < k"
  using assms by linarith

lemma clock_next_exact:
  assumes "clockInitialized c" "clock_ok c" "lastTime c + 11112 \<le> now" "clock_next now c = (c', ts)"
  shows "\<exists>k. 0 < k \<and> ts = lastTS c + word_of_int k \<and> lastTS c' = ts \<and> lastTime c' = now \<and>
    clockInitialized c' \<and> clock_ok c' \<and> baseTS c' = baseTS c \<and>
    k * time_Second + tickRemainder c' = (now - lastTime c) * 90000 + tickRemainder c"
proof -
  define S where "S = time_Second"
  define d where "d = now - lastTime c"
  define sub where "sub = (d mod S) * 90000 + tickRemainder c"
  define k where "k = (d div S) * 90000 + sub div S"
  define r where "r = sub mod S"
  have S: "S = 1000000000" by (simp add: S_def time_Second_def)
  have d: "11112 \<le> d" using assms(3) by (simp add: d_def)
  have r0: "0 \<le> tickRemainder c" using assms(2) by (simp add: clock_ok_def)
  have sub: "0 \<le> sub" using r0 by (simp add: sub_def S)
  have r: "0 \<le> r" "r < S" by (simp_all add: r_def S)
  have eq: "k * S + r = d * 90000 + tickRemainder c"
    unfolding k_def r_def by (rule carry_exact [of _ _ "d mod S"]) (simp_all add: sub_def)
  have k: "0 < k" using tick_pos [of k r d "tickRemainder c"] eq r d r0 by (simp add: S)
  have "d sdiv S = d div S" "d smod S = d mod S" "sub sdiv S = sub div S" "sub smod S = r"
    using d sub by (simp_all add: sdiv_nonneg smod_nonneg S r_def)
  then have "clock_next now c =
      (c\<lparr>lastTime := now, tickRemainder := r, lastTS := lastTS c + word_of_int k\<rparr>, lastTS c + word_of_int k)"
    using assms(1) d k
    unfolding clock_next_def S_def [symmetric] d_def [symmetric] Let_def
    by (simp add: sub_def [symmetric] k_def [symmetric])
  then show ?thesis using assms(1,4) k eq r by (intro exI [of _ k]) (auto simp: clock_ok_def S_def d_def)
qed

fun clock_run :: "int list \<Rightarrow> abr_output_clock \<Rightarrow> abr_output_clock \<times> 32 word list" where
  "clock_run [] c = (c, [])"
| "clock_run (t # ts) c =
     (let (c1, x) = clock_next t c; (c2, xs) = clock_run ts c1 in (c2, x # xs))"

fun spaced :: "int \<Rightarrow> int list \<Rightarrow> bool" where
  "spaced t [] = True"
| "spaced t (u # us) = (t + 11112 \<le> u \<and> spaced u us)"

lemma clock_run_exact:
  assumes "clockInitialized c" "clock_ok c" "spaced (lastTime c) ts" "clock_run ts c = (c', xs)"
    and "lastTS c = b + word_of_int k" "0 \<le> k"
    and "k * time_Second + tickRemainder c = (lastTime c - t0) * 90000"
  shows "xs = map (\<lambda>t. b + word_of_int ((t - t0) * 90000 div time_Second)) ts"
  using assms
proof (induction ts arbitrary: c k xs)
  case (Cons t ts)
  obtain c1 x where 1: "clock_next t c = (c1, x)" by force
  obtain xs' where 2: "clock_run ts c1 = (c', xs')" "xs = x # xs'"
    using Cons.prems(4) 1 by (auto split: prod.splits)
  from clock_next_exact [OF Cons.prems(1,2) _ 1] Cons.prems(3) obtain j where
    j: "0 < j" "x = lastTS c + word_of_int j" "lastTS c1 = x" "lastTime c1 = t" "clockInitialized c1" "clock_ok c1"
      "j * time_Second + tickRemainder c1 = (t - lastTime c) * 90000 + tickRemainder c" by auto
  have kj: "(k + j) * time_Second + tickRemainder c1 = (t - t0) * 90000"
    using j(7) Cons.prems(7) by (simp add: algebra_simps)
  have "(t - t0) * 90000 div time_Second = k + j"
    using j(6) kj by (intro int_div_pos_eq [of _ _ _ "tickRemainder c1"]) (simp_all add: clock_ok_def mult.commute)
  then have "x = b + word_of_int ((t - t0) * 90000 div time_Second)"
    using j(2) Cons.prems(5) by (simp add: add.assoc)
  moreover have "xs' = map (\<lambda>t. b + word_of_int ((t - t0) * 90000 div time_Second)) ts"
    by (rule Cons.IH [OF j(5,6) _ 2(1), of "k + j"])
       (use j kj Cons.prems in \<open>simp_all add: add.assoc\<close>)
  ultimately show ?case using 2(2) by simp
qed simp

section \<open>Correctness\<close>

text \<open>C27.
  After video has been paused, the first H264 access unit of a media that reaches the reader holds an
  IDR, whatever is paused, resumed and delivered in between, provided the units of that media carry
  their access units (fewer than $2^{64}$ operations).
\<close>
theorem media_resume_keyframe:
  assumes "gens_ok s" "videoPaused s" "unat (videoGeneration s) + length ops < 2 ^ 64"
    and "run_steps media_step ops s = (s', out)" "first_of k out = Some (PayloadH264 au)"
  shows "\<exists>nalu \<in> set au. is_idr nalu"
  using media_run_blocked [of k s ops] assms by (simp add: blocked_def)

definition sample_video :: media where
  "sample_video = \<lparr>media_id = 7, mtype = MediaTypeVideo, formats = [H264]\<rparr>"

definition resume_ops :: "media_op list" where
  "resume_ops =
     [OpUnit sample_video (PayloadH264 [[0x41]]), OpVideo False, OpUnit sample_video (PayloadH264 [[0x41]]),
      OpUnit sample_video (PayloadH264 [[0x67], [0x65]]), OpUnit sample_video (PayloadH264 [[0x41]])]"

lemma resume_run:
  "first_of 7 (snd (run_steps media_step resume_ops (SetVideoPaused True new_media_state))) =
     Some (PayloadH264 [[0x67], [0x65]])"
  by code_simp

theorem media_resume_keyframe_witness:
  "\<exists>nalu \<in> set [[0x67], [0x65]]. is_idr nalu"
proof -
  let ?s = "SetVideoPaused True new_media_state"
  obtain s' out where run: "run_steps media_step resume_ops ?s = (s', out)" by force
  have "gens_ok ?s" "videoPaused ?s" "unat (videoGeneration ?s) + length resume_ops < 2 ^ 64"
    by (simp_all add: SetVideoPaused_def new_media_state_def gens_ok_def gen_of_def resume_ops_def)
  then show ?thesis using media_resume_keyframe [OF _ _ _ run, of 7 "[[0x67], [0x65]]"] resume_run run by simp
qed

text \<open>
  A unit without a payload, as the RTP decoder produces for every packet that does not complete an
  access unit, counts as a keyframe: after it, access units without an IDR pass.
\<close>
lemma media_resume_fragment_releases:
  "map snd (snd (run_steps media_step
      [OpVideo False, OpUnit sample_video NilPayload, OpUnit sample_video (PayloadH264 [[0x41]])]
      (SetVideoPaused True new_media_state))) = [NilPayload, PayloadH264 [[0x41]]]"
  by code_simp

text \<open>C28.
  The output clock does not drift: for access units at least 11112 nanoseconds apart (the length of a
  tick), the timestamp of each is the base plus the number of whole 90 kHz ticks since the first one,
  modulo $2^{32}$, however long the session lasts.
\<close>
theorem abr_clock_exact:
  assumes "\<not> clockInitialized c" "tickRemainder c = 0" "spaced t0 ts" "clock_run (t0 # ts) c = (c', xs)"
  shows "xs = map (\<lambda>t. baseTS c + word_of_int ((t - t0) * 90000 div time_Second)) (t0 # ts)"
proof -
  let ?c1 = "c\<lparr>clockInitialized := True, lastTime := t0, lastTS := baseTS c\<rparr>"
  have n: "clock_next t0 c = (?c1, baseTS c)" using assms(1) by (simp add: clock_next_def)
  with assms(4) obtain ys where ys: "clock_run ts ?c1 = (c', ys)" "xs = baseTS c # ys"
    by (auto split: prod.splits)
  have "ys = map (\<lambda>t. baseTS c + word_of_int ((t - t0) * 90000 div time_Second)) ts"
    by (rule clock_run_exact [OF _ _ _ ys(1), of "baseTS c" 0])
       (use assms in \<open>simp_all add: clock_ok_def time_Second_def\<close>)
  then show ?thesis using ys(2) by simp
qed

definition sample_clock :: abr_output_clock where
  "sample_clock = \<lparr>baseTS = 0xFFFFFF00, clockInitialized = False, lastTime = 0, lastTS = 0, tickRemainder = 0\<rparr>"

theorem abr_clock_exact_witness:
  "snd (clock_run [5000000, 38333333, 71666666] sample_clock) = [0xFFFFFF00, 0xAB7, 0x166F]"
proof -
  obtain c' xs where r: "clock_run [5000000, 38333333, 71666666] sample_clock = (c', xs)" by force
  then have "xs = map (\<lambda>t. baseTS sample_clock + word_of_int ((t - 5000000) * 90000 div time_Second))
      [5000000, 38333333, 71666666]"
    by (intro abr_clock_exact [OF _ _ _ r]) (simp_all add: sample_clock_def)
  then show ?thesis using r by (simp add: sample_clock_def time_Second_def)
qed

end
