(* ===== verification/Abr_Session.thy ===== *)
theory Abr_Session
  imports Abr_Controller Media_State Step_Machine
begin

text \<open>
  The adaptive-bitrate side of one WHEP reader: the control WebSocket of
  \<^verbatim>\<open>internal/servers/webrtc/abr_ws_handler.go\<close>, the loop \<open>runABRControl\<close> of \<^verbatim>\<open>session.go\<close> and the
  video path that \<open>SetupFromStreamABR\<close> of \<^verbatim>\<open>internal/protocols/webrtc/from_stream.go\<close> installs. The
  session serves one event at a time: a message read from a WebSocket, a tick of the loop, a unit
  offered to the filter of the stream reader, a unit taken from the reader's queue. A JSON body is
  what \<^verbatim>\<open>json.Unmarshal\<close> makes of it, \<open>None\<close> when it fails; writes to a WebSocket are effects whose
  outcome the code ignores. Bandwidth estimate and outbound counters (the peer connection) and the
  result of the RTP encoder are part of the events.
\<close>

section \<open>State, messages, effects\<close>

datatype abr_message =
    TRACKS_INFO int "track_info list"
  | MEDIA_STATE string string string bool
  | LAYER_SWITCHED int int
  | ABR_MODE string bool
  | BANDWIDTH_ESTIMATE int
  | ABR_RECOMMEND int string
  | ERROR_MSG int string
  | PONG

datatype client_message =
    SELECT_LAYER "(int \<times> string) option"
  | LATENCY_REPORT "f64 option"
  | SET_ABR_MODE "bool option"
  | PING
  | SET_MEDIA_STATE "(string option \<times> string option) option"
  | UNKNOWN_MSG

datatype session_eff =
    WsWrite nat abr_message
  | WsClose nat
  | Queued int
  | Output int bool "32 word"
  | ReaderError

record abr_session =
  trackSelector :: "track_selector option"
  mediaState :: media_state
  wsConn :: "nat option"
  lastSwitchTime :: time
  abrSwitchCooldown :: int
  abrAutoMode :: bool
  abrRTTMs :: f64
  controller :: abr_controller
  startedAt :: int
  lastSent :: u64
  lastLost :: u64
  haveLast :: bool
  spsResolved :: "int list"
  lastPTS :: "(int \<times> int) list"
  outputClock :: abr_output_clock

definition abrReasonAutoBandwidth :: string where
  "abrReasonAutoBandwidth = ''auto_bandwidth''"

definition selectLayerKeepsAutoMode :: "string \<Rightarrow> bool" where
  "selectLayerKeepsAutoMode reason \<longleftrightarrow> reason = abrReasonAutoBandwidth"

definition writeABRMessage :: "abr_session \<Rightarrow> abr_message \<Rightarrow> session_eff list" where
  "writeABRMessage s msg = (case wsConn s of None \<Rightarrow> [] | Some c \<Rightarrow> [WsWrite c msg])"

definition tracksInfoMessage :: "track_selector option \<Rightarrow> abr_message" where
  "tracksInfoMessage sel =
     (case sel of None \<Rightarrow> TRACKS_INFO (- 1) [] | Some ts \<Rightarrow> TRACKS_INFO (activeID ts) (GetTracks ts))"

definition paused_word :: "bool \<Rightarrow> string" where
  "paused_word p = (if p then ''paused'' else ''resumed'')"

definition mediaStateMessage :: "string \<Rightarrow> media_state \<Rightarrow> abr_message" where
  "mediaStateMessage msgID st =
     MEDIA_STATE msgID (paused_word (videoPaused st)) (paused_word (audioPaused st)) (VideoNeedsKeyframe st)"

text \<open>The callbacks \<open>runRead\<close> registers with the selector.\<close>

fun selector_callback :: "abr_session \<Rightarrow> track_selector \<Rightarrow> selector_eff \<Rightarrow> session_eff list" where
  "selector_callback s ts (Switched from to) = writeABRMessage s (LAYER_SWITCHED to from)"
| "selector_callback s ts TracksChanged = writeABRMessage s (tracksInfoMessage (Some ts))"

definition selector_callbacks :: "abr_session \<Rightarrow> track_selector \<Rightarrow> selector_eff list \<Rightarrow> session_eff list" where
  "selector_callbacks s ts es = concat (map (selector_callback s ts) es)"

section \<open>The control WebSocket\<close>

definition ws_connect :: "nat \<Rightarrow> abr_session \<Rightarrow> abr_session \<times> session_eff list" where
  "ws_connect conn s =
     (let s1 = s\<lparr>wsConn := Some conn\<rparr>
      in (s1,
          (case wsConn s of Some prev \<Rightarrow> if prev \<noteq> conn then [WsClose prev] else [] | None \<Rightarrow> []) @
          writeABRMessage s1 (tracksInfoMessage (trackSelector s1)) @
          writeABRMessage s1 (mediaStateMessage [] (mediaState s1)) @
          writeABRMessage s1 (ABR_MODE [] (abrAutoMode s1))))"

definition ws_disconnect :: "nat \<Rightarrow> abr_session \<Rightarrow> abr_session \<times> session_eff list" where
  "ws_disconnect conn s = ((if wsConn s = Some conn then s\<lparr>wsConn := None\<rparr> else s), [])"

definition cooling_down :: "int \<Rightarrow> abr_session \<Rightarrow> bool" where
  "cooling_down now s \<longleftrightarrow>
     time_since now (lastSwitchTime s) < int64 (abrSwitchCooldown s * time_Millisecond)"

definition ws_select_layer ::
  "int \<Rightarrow> (int \<times> string) option \<Rightarrow> abr_session \<Rightarrow> abr_session \<times> session_eff list" where
  "ws_select_layer now data s =
     (case trackSelector s of
        None \<Rightarrow> (s, writeABRMessage s (ERROR_MSG 4004 ''ABR not available for this session''))
      | Some ts \<Rightarrow>
          (case data of
             None \<Rightarrow> (s, writeABRMessage s (ERROR_MSG 4002 ''invalid data format''))
           | Some (target, reason) \<Rightarrow>
               if cooling_down now s then
                 (s, writeABRMessage s (ERROR_MSG 4003 ''switch too frequent (cooldown period)''))
               else
                 (case Select now target ts of
                    (ts1, es, Some (TrackNotFound i)) \<Rightarrow>
                      (s\<lparr>trackSelector := Some ts1\<rparr>,
                       selector_callbacks s ts1 es @
                       writeABRMessage s
                         (ERROR_MSG 4002 (''track '' @ show_int i @ '' not found or not a video track'')))
                  | (ts1, es, None) \<Rightarrow>
                      (s\<lparr>trackSelector := Some ts1, lastSwitchTime := Some now,
                         abrAutoMode := (if selectLayerKeepsAutoMode reason then abrAutoMode s else False)\<rparr>,
                       selector_callbacks s ts1 es))))"

definition bad_state :: "string option \<Rightarrow> bool" where
  "bad_state v = (case v of None \<Rightarrow> False | Some w \<Rightarrow> w \<noteq> ''paused'' \<and> w \<noteq> ''resumed'')"

definition apply_state :: "(bool \<Rightarrow> media_state \<Rightarrow> media_state) \<Rightarrow> string option \<Rightarrow> media_state \<Rightarrow> media_state" where
  "apply_state setp v st = (case v of None \<Rightarrow> st | Some w \<Rightarrow> setp (w = ''paused'') st)"

definition ws_set_media_state ::
  "string \<Rightarrow> (string option \<times> string option) option \<Rightarrow> abr_session \<Rightarrow> abr_session \<times> session_eff list" where
  "ws_set_media_state msgID data s =
     (case data of
        None \<Rightarrow> (s, writeABRMessage s (ERROR_MSG 4100 ''invalid media state''))
      | Some (video, audio) \<Rightarrow>
          if video = None \<and> audio = None then (s, writeABRMessage s (ERROR_MSG 4100 ''invalid media state''))
          else if bad_state video then
            (s, writeABRMessage s (ERROR_MSG 4100 ''video state must be paused or resumed''))
          else
            let s1 = s\<lparr>mediaState := apply_state SetVideoPaused video (mediaState s)\<rparr>
            in if bad_state audio then
                 (s1, writeABRMessage s1 (ERROR_MSG 4100 ''audio state must be paused or resumed''))
               else
                 let s2 = s1\<lparr>mediaState := apply_state SetAudioPaused audio (mediaState s1)\<rparr>
                 in (s2, writeABRMessage s2 (mediaStateMessage msgID (mediaState s2))))"

definition ws_message ::
  "int \<Rightarrow> nat \<Rightarrow> string \<Rightarrow> client_message \<Rightarrow> abr_session \<Rightarrow> abr_session \<times> session_eff list" where
  "ws_message now conn msgID msg s =
     (case msg of
        SELECT_LAYER data \<Rightarrow> ws_select_layer now data s
      | LATENCY_REPORT data \<Rightarrow> (case data of None \<Rightarrow> (s, []) | Some rtt \<Rightarrow> (s\<lparr>abrRTTMs := rtt\<rparr>, []))
      | SET_ABR_MODE data \<Rightarrow>
          (case data of
             None \<Rightarrow> (s, writeABRMessage s (ERROR_MSG 4002 ''invalid data format''))
           | Some auto \<Rightarrow>
               let s1 = s\<lparr>abrAutoMode := auto\<rparr> in (s1, writeABRMessage s1 (ABR_MODE msgID auto)))
      | PING \<Rightarrow> (s, [WsWrite conn PONG])
      | SET_MEDIA_STATE data \<Rightarrow> ws_set_media_state msgID data s
      | UNKNOWN_MSG \<Rightarrow> (s, []))"

section \<open>The evaluation loop\<close>

text \<open>The loss of a window in percent, \<open>None\<close> when the counters give none.\<close>

definition window_loss :: "u64 \<Rightarrow> u64 \<Rightarrow> abr_session \<Rightarrow> f64 option" where
  "window_loss sent lost s =
     (if haveLast s \<and> lastSent s \<le> sent \<and> lastLost s \<le> lost then
        let dSent = sent - lastSent s; dLost = lost - lastLost s; denom = dSent + dLost
        in if 0 < denom then Some (f64_mul (f64_div (f64_of_u64 dLost) (f64_of_u64 denom)) 100) else None
      else None)"

definition abr_tick ::
  "int \<Rightarrow> int option \<Rightarrow> u64 \<Rightarrow> u64 \<Rightarrow> abr_session \<Rightarrow> abr_session \<times> session_eff list" where
  "abr_tick now estimate sent lost s =
     (case trackSelector s of
        None \<Rightarrow> (s, [])
      | Some ts \<Rightarrow>
          if VideoTrackCount ts < 2 then (s, [])
          else
            let e0 = (case estimate of None \<Rightarrow> [] | Some b \<Rightarrow> writeABRMessage s (BANDWIDTH_ESTIMATE b));
                loss = window_loss sent lost s;
                s1 = s\<lparr>lastSent := sent, lastLost := lost, haveLast := True\<rparr>
            in if now - startedAt s1 < abrWarmupPeriod then (s1, e0)
               else
                 (case loss of
                    None \<Rightarrow> (s1, e0)
                  | Some lossPct \<Rightarrow>
                      if \<not> abrAutoMode s1 then (s1\<lparr>controller := controller_reset (controller s1)\<rparr>, e0)
                      else if cooling_down now s1 then (s1, e0)
                      else
                        (let (c, target) = evaluate lossPct (abrRTTMs s1) ts (controller s1);
                             s2 = s1\<lparr>controller := c\<rparr>
                         in case target of
                              None \<Rightarrow> (s2, e0)
                            | Some t \<Rightarrow>
                                (s2, e0 @ writeABRMessage s2 (ABR_RECOMMEND t abrReasonAutoBandwidth)))))"

section \<open>The video path\<close>

text \<open>
  The filter of a layer, run for every unit of every layer: first the media filter of the session
  (\<open>Reader.OnDataFiltered\<close>), then the size of the layer when the unit brings one (\<open>sps\<close>: the width
  and height the SPS of the unit decodes to), then whether the layer is to be queued.
\<close>

definition unit_filter ::
  "int \<Rightarrow> media \<Rightarrow> payload \<Rightarrow> (int \<times> int) option \<Rightarrow> abr_session \<Rightarrow> abr_session \<times> session_eff list" where
  "unit_filter trackID m u sps s =
     (case trackSelector s of
        None \<Rightarrow> (s, [])
      | Some ts \<Rightarrow>
          (let (st, ok) = Allow m u (mediaState s);
               s1 = s\<lparr>mediaState := st\<rparr>
           in if \<not> ok then (s1, [])
              else
                (let (s2, ts1, es) =
                       (case sps of
                          Some (w, h) \<Rightarrow>
                            if u \<noteq> NilPayload \<and> trackID \<notin> set (spsResolved s1) then
                              (let (ts1, es) = SetTrackDimensions trackID w h ts
                               in (s1\<lparr>trackSelector := Some ts1, spsResolved := trackID # spsResolved s1\<rparr>, ts1,
                                   selector_callbacks s1 ts1 es))
                            else (s1, ts, [])
                        | None \<Rightarrow> (s1, ts, []))
                 in (s2, es @ (if u \<noteq> NilPayload \<and> ShouldQueue trackID ts1 then [Queued trackID] else [])))))"

text \<open>
  A queued unit that the reader delivers, with its presentation time; \<open>encoded\<close> says whether the
  RTP encoder accepts it. The presentation times of a layer must not go back.
\<close>

definition unit_deliver ::
  "int \<Rightarrow> int \<Rightarrow> bool \<Rightarrow> int \<Rightarrow> bool \<Rightarrow> abr_session \<Rightarrow> abr_session \<times> session_eff list" where
  "unit_deliver now trackID keyframe pts encoded s =
     (case trackSelector s of
        None \<Rightarrow> (s, [])
      | Some ts \<Rightarrow>
          if (case map_of (lastPTS s) trackID of None \<Rightarrow> False | Some p \<Rightarrow> pts < p) then (s, [ReaderError])
          else
            (let s1 = s\<lparr>lastPTS := AList.update trackID pts (lastPTS s)\<rparr>;
                 (ts1, es, shouldForward, switched) = OnAccessUnit now trackID keyframe ts;
                 s2 = s1\<lparr>trackSelector := Some ts1\<rparr>;
                 e = selector_callbacks s1 ts1 es
             in if \<not> shouldForward \<or> \<not> encoded then (s2, e)
                else
                  (let (clk, outTS) = clock_next now (outputClock s2)
                   in (s2\<lparr>outputClock := clk\<rparr>, e @ [Output trackID keyframe outTS]))))"

section \<open>Events\<close>

datatype session_event =
    EvConnect nat
  | EvDisconnect nat
  | EvMessage int nat string client_message
  | EvTick int "int option" u64 u64
  | EvFilter int media payload "(int \<times> int) option"
  | EvDeliver int int bool int bool

fun session_step :: "session_event \<Rightarrow> abr_session \<Rightarrow> abr_session \<times> session_eff list" where
  "session_step (EvConnect c) s = ws_connect c s"
| "session_step (EvDisconnect c) s = ws_disconnect c s"
| "session_step (EvMessage now c i m) s = ws_message now c i m s"
| "session_step (EvTick now est sent lost) s = abr_tick now est sent lost s"
| "session_step (EvFilter t m u sps) s = unit_filter t m u sps s"
| "session_step (EvDeliver now t k pts enc) s = unit_deliver now t k pts enc s"

text \<open>
  The session as \<open>runRead\<close> starts it, for the description of the stream, the start time, the
  configured cooldown and the random base of the timestamps.
\<close>

definition new_session :: "session_desc \<Rightarrow> int \<Rightarrow> int \<Rightarrow> 32 word \<Rightarrow> abr_session" where
  "new_session desc now cooldown base =
     \<lparr>trackSelector = Some (LoadFromDescription desc (SetOnTracksChanged True (NewTrackSelector True))),
      mediaState = new_media_state, wsConn = None, lastSwitchTime = None, abrSwitchCooldown = cooldown,
      abrAutoMode = True, abrRTTMs = 0, controller = newABRController, startedAt = now,
      lastSent = 0, lastLost = 0, haveLast = False, spsResolved = [], lastPTS = [],
      outputClock = \<lparr>baseTS = base, clockInitialized = False, lastTime = 0, lastTS = 0, tickRemainder = 0\<rparr>\<rparr>"

section \<open>Invariant\<close>

definition selector_ok :: "track_selector \<Rightarrow> bool" where
  "selector_ok ts \<longleftrightarrow> sel_inv ts \<and> tracks_ok ts \<and> (passthrough ts \<longrightarrow> VideoTrackCount ts = 1)"

definition session_inv :: "abr_session \<Rightarrow> bool" where
  "session_inv s \<longleftrightarrow> (\<forall>ts. trackSelector s = Some ts \<longrightarrow> selector_ok ts) \<and> ctl_inv (controller s)"

lemma Load_passthrough:
  "\<not> passthrough ts \<Longrightarrow> passthrough (LoadFromDescription desc ts) \<longrightarrow> VideoTrackCount (LoadFromDescription desc ts) = 1"
  by (simp add: LoadFromDescription_def Let_def VideoTrackCount_def)

lemma new_session_inv: "session_inv (new_session desc now cd base)"
  by (simp add: session_inv_def new_session_def selector_ok_def Load_inv Load_tracks_ok Load_passthrough
      ctl_inv_new NewTrackSelector_def SetOnTracksChanged_def)

lemma selector_ok_dims: "selector_ok ts \<Longrightarrow> SetTrackDimensions i w h ts = (ts', e) \<Longrightarrow> selector_ok ts'"
  using SetTrackDimensions_inv [of ts i w h ts' e] SetTrackDimensions_tracks_ok [of ts i w h ts' e]
    SetTrackDimensions_frame [of i w h ts ts' e]
  by (simp add: selector_ok_def flip: length_video_ids)

lemma tracks_kept:
  "Select now i ts = (ts', e, err) \<Longrightarrow> tracks ts' = tracks ts \<and> passthrough ts' = passthrough ts"
  "OnAccessUnit now i k ts = (ts', e, f, w) \<Longrightarrow> tracks ts' = tracks ts \<and> passthrough ts' = passthrough ts"
  by (auto simp: Select_def OnAccessUnit_def split: if_splits)

lemma selector_ok_select: "selector_ok ts \<Longrightarrow> Select now i ts = (ts', e, err) \<Longrightarrow> selector_ok ts'"
  using Select_inv [of ts now i ts' e err] tracks_kept(1) [of now i ts ts' e err]
  by (simp add: selector_ok_def tracks_ok_def VideoTrackCount_def)

lemma selector_ok_unit: "selector_ok ts \<Longrightarrow> OnAccessUnit now i k ts = (ts', e, f, w) \<Longrightarrow> selector_ok ts'"
  using OnAccessUnit_inv [of ts now i k ts' e f w] tracks_kept(2) [of now i k ts ts' e f w]
  by (simp add: selector_ok_def tracks_ok_def VideoTrackCount_def)

lemma inv_select_layer: "session_inv s \<Longrightarrow> ws_select_layer now d s = (s', e) \<Longrightarrow> session_inv s'"
  by (auto simp: ws_select_layer_def session_inv_def Let_def
      split: option.splits if_splits prod.splits select_error.splits
      dest: selector_ok_select)

lemma inv_media: "session_inv (s\<lparr>mediaState := m\<rparr>) = session_inv s"
  by (simp add: session_inv_def)

lemma inv_set_media: "session_inv s \<Longrightarrow> ws_set_media_state i d s = (s', e) \<Longrightarrow> session_inv s'"
  by (auto simp: ws_set_media_state_def inv_media Let_def split: option.splits if_splits prod.splits)

lemma inv_tick: "session_inv s \<Longrightarrow> abr_tick now est sent lost s = (s', e) \<Longrightarrow> session_inv s'"
  by (auto simp: abr_tick_def session_inv_def Let_def split: option.splits if_splits prod.splits
      dest: ctl_inv_evaluate ctl_inv_reset)

lemma inv_filter: "session_inv s \<Longrightarrow> unit_filter t m u sps s = (s', e) \<Longrightarrow> session_inv s'"
  by (auto simp: unit_filter_def session_inv_def Let_def split: option.splits if_splits prod.splits
      dest: selector_ok_dims)

lemma inv_deliver: "session_inv s \<Longrightarrow> unit_deliver now t k pts enc s = (s', e) \<Longrightarrow> session_inv s'"
  by (auto simp: unit_deliver_def session_inv_def Let_def split: option.splits if_splits prod.splits
      dest: selector_ok_unit)

lemma inv_simple [simp]:
  "session_inv (s\<lparr>wsConn := c\<rparr>) = session_inv s" "session_inv (s\<lparr>abrRTTMs := r\<rparr>) = session_inv s"
  "session_inv (s\<lparr>abrAutoMode := b\<rparr>) = session_inv s"
  by (simp_all add: session_inv_def)

lemma inv_message: "session_inv s \<Longrightarrow> ws_message now c i m s = (s', e) \<Longrightarrow> session_inv s'"
  by (cases m) (auto simp: ws_message_def Let_def split: option.splits
      intro: inv_select_layer inv_set_media)

lemma session_step_inv: "session_inv s \<Longrightarrow> session_step ev s = (s', e) \<Longrightarrow> session_inv s'"
  by (cases ev)
     (auto simp: ws_connect_def ws_disconnect_def Let_def split: if_splits
      intro: inv_tick inv_filter inv_deliver inv_message)

section \<open>Switching layers\<close>

definition session_active :: "abr_session \<Rightarrow> int" where
  "session_active s = (case trackSelector s of None \<Rightarrow> - 1 | Some ts \<Rightarrow> activeID ts)"

fun output_of :: "session_eff \<Rightarrow> (int \<times> bool) list" where
  "output_of (Output t k x) = [(t, k)]"
| "output_of (WsWrite c m) = []"
| "output_of (WsClose c) = []"
| "output_of (Queued t) = []"
| "output_of ReaderError = []"

text \<open>The RTP encoder accepts every unit.\<close>

fun encodable :: "session_event \<Rightarrow> bool" where
  "encodable (EvDeliver now t k pts enc) = enc"
| "encodable (EvConnect c) = True"
| "encodable (EvDisconnect c) = True"
| "encodable (EvMessage now c i m) = True"
| "encodable (EvTick now est sent lost) = True"
| "encodable (EvFilter t m u sps) = True"

lemma outputs_write [simp]: "seen output_of (writeABRMessage s m) = []"
  by (simp add: writeABRMessage_def split: option.splits)

lemma outputs_callbacks [simp]: "seen output_of (selector_callbacks s ts es) = []"
proof (induction es)
  case (Cons e es)
  then show ?case by (cases e) (simp_all add: selector_callbacks_def)
qed (simp add: selector_callbacks_def)

lemma select_keeps_active:
  "selector_ok ts \<Longrightarrow> Select now i ts = (ts', e, err) \<Longrightarrow> activeID ts' = activeID ts"
proof -
  assume ok: "selector_ok ts" and sel: "Select now i ts = (ts', e, err)"
  have "i = activeID ts" if "passthrough ts" "i \<in> set (video_ids ts)"
  proof -
    from ok that(1) have one: "length (video_ids ts) = 1" by (simp add: selector_ok_def length_video_ids)
    then have "activeID ts \<in> set (video_ids ts)" using ok by (auto simp: selector_ok_def sel_inv_def)
    with one that(2) show ?thesis by (auto simp: length_Suc_conv)
  qed
  with sel show ?thesis unfolding Select_def Select_found by (auto split: if_splits)
qed

lemma unit_active:
  "OnAccessUnit now i k ts = (ts', e, f, w) \<Longrightarrow>
   activeID ts' = activeID ts \<and> (f \<longrightarrow> i = activeID ts) \<or> f \<and> k \<and> i = activeID ts'"
  by (auto simp: OnAccessUnit_def split: if_splits)

lemma active_connect: "ws_connect c s = (s', e) \<Longrightarrow> seen output_of e = [] \<and> session_active s' = session_active s"
  by (auto simp: ws_connect_def Let_def session_active_def split: option.splits)

lemma active_disconnect: "ws_disconnect c s = (s', e) \<Longrightarrow> seen output_of e = [] \<and> session_active s' = session_active s"
  by (auto simp: ws_disconnect_def session_active_def)

lemma active_select_layer:
  "session_inv s \<Longrightarrow> ws_select_layer now d s = (s', e) \<Longrightarrow>
   seen output_of e = [] \<and> session_active s' = session_active s"
  by (auto simp: ws_select_layer_def session_active_def session_inv_def
      split: option.splits if_splits prod.splits select_error.splits dest: select_keeps_active)

lemma active_set_media:
  "ws_set_media_state i d s = (s', e) \<Longrightarrow> seen output_of e = [] \<and> session_active s' = session_active s"
  by (auto simp: ws_set_media_state_def session_active_def Let_def split: option.splits if_splits prod.splits)

lemma active_message:
  "session_inv s \<Longrightarrow> ws_message now c i m s = (s', e) \<Longrightarrow>
   seen output_of e = [] \<and> session_active s' = session_active s"
  using active_select_layer [of s now] active_set_media [of i]
  by (cases m) (auto simp: ws_message_def session_active_def Let_def split: option.splits)

lemma active_tick:
  "abr_tick now est sent lost s = (s', e) \<Longrightarrow> seen output_of e = [] \<and> session_active s' = session_active s"
  by (auto simp: abr_tick_def session_active_def Let_def split: option.splits if_splits prod.splits)

lemma active_filter:
  "unit_filter t m u sps s = (s', e) \<Longrightarrow> seen output_of e = [] \<and> session_active s' = session_active s"
  by (auto simp: unit_filter_def session_active_def Let_def split: option.splits if_splits prod.splits
      dest: SetTrackDimensions_frame(3))

lemma active_deliver:
  "unit_deliver now t k pts True s = (s', e) \<Longrightarrow>
   seen output_of e = [] \<and> session_active s' = session_active s \<or>
   (\<exists>x. seen output_of e = [(session_active s', x)] \<and> (session_active s' \<noteq> session_active s \<longrightarrow> x))"
  by (auto simp: unit_deliver_def session_active_def Let_def split: option.splits if_splits prod.splits
      dest!: unit_active)

interpretation whep: keyframe_switch session_inv session_step encodable session_active output_of
proof
  fix s ev s' e
  assume inv: "session_inv s" and ok: "encodable ev" and st: "session_step ev s = (s', e)"
  show "seen output_of e = [] \<and> session_active s' = session_active s \<or>
    (\<exists>x. seen output_of e = [(session_active s', x)] \<and> (session_active s' \<noteq> session_active s \<longrightarrow> x))"
  proof (cases ev)
    case (EvDeliver now t k pts enc)
    then show ?thesis using ok st active_deliver [of now t k pts s s' e] by simp
  qed (use inv st in \<open>auto dest: active_connect active_disconnect active_message active_tick active_filter\<close>)
qed (rule session_step_inv)

section \<open>Recommendations\<close>

lemma tick_recommends:
  assumes "abr_tick now est sent lost s = (s', e)" "WsWrite c (ABR_RECOMMEND t r) \<in> set e"
  obtains ts l c1 c2 where "trackSelector s = Some ts" "trackSelector s' = Some ts" "2 \<le> VideoTrackCount ts"
    "evaluate l (abrRTTMs s) ts c1 = (c2, Some t)" "r = abrReasonAutoBandwidth" "abrAutoMode s'"
    "\<not> cooling_down now s'"
proof -
  have "\<exists>ts l c1 c2. trackSelector s = Some ts \<and> trackSelector s' = Some ts \<and> 2 \<le> VideoTrackCount ts \<and>
    evaluate l (abrRTTMs s) ts c1 = (c2, Some t) \<and> r = abrReasonAutoBandwidth \<and> abrAutoMode s' \<and>
    \<not> cooling_down now s'"
    using assms
    by (auto simp: abr_tick_def Let_def writeABRMessage_def cooling_down_def
        split: option.splits if_splits prod.splits) blast+
  then show ?thesis using that by blast
qed

text \<open>Time does not bring a cooldown back.\<close>

lemma cooling_down_mono: "\<not> cooling_down now s \<Longrightarrow> now \<le> now' \<Longrightarrow> \<not> cooling_down now' s"
  by (cases "lastSwitchTime s") (auto simp: cooling_down_def)

lemma select_pending:
  assumes "selector_ok ts" "2 \<le> VideoTrackCount ts" "t \<in> set (video_ids ts)" "t \<noteq> activeID ts"
  shows "Select now t ts = (ts\<lparr>pendingID := t, pendingAt := Some now\<rparr>, [], None)"
  using assms unfolding Select_def Select_found by (auto simp: selector_ok_def)

lemma answer_recommendation:
  assumes "session_inv s" "abr_tick now est sent lost s = (s', e)" "WsWrite c (ABR_RECOMMEND t r) \<in> set e"
    "now \<le> now'"
  shows "\<exists>ts ts'. trackSelector s = Some ts \<and> (t = activeID ts + 1 \<or> t = activeID ts - 1) \<and>
    t \<in> set (video_ids ts) \<and> ts' = ts\<lparr>pendingID := t, pendingAt := Some now'\<rparr> \<and>
    ws_message now' c' i (SELECT_LAYER (Some (t, r))) s' =
      (s'\<lparr>trackSelector := Some ts', lastSwitchTime := Some now', abrAutoMode := True\<rparr>, [])"
proof -
  from tick_recommends [OF assms(2,3)] obtain ts l c1 c2 where
    ts: "trackSelector s = Some ts" "trackSelector s' = Some ts" "2 \<le> VideoTrackCount ts"
    and ev: "evaluate l (abrRTTMs s) ts c1 = (c2, Some t)"
    and rest: "r = abrReasonAutoBandwidth" "abrAutoMode s'" "\<not> cooling_down now s'" .
  have ok: "selector_ok ts" using assms(1) ts(1) by (simp add: session_inv_def)
  then have inv: "sel_inv ts" by (simp add: selector_ok_def)
  note t = evaluate_target [OF inv ts(3) ev]
  have mem: "t \<in> set (video_ids ts)" by (rule layer_in_video_ids [OF inv t(2,3)])
  have "t \<noteq> activeID ts" using t(1) by auto
  note sel = select_pending [OF ok ts(3) mem this, of now']
  have "\<not> cooling_down now' s'" by (rule cooling_down_mono [OF rest(3) assms(4)])
  then have "ws_message now' c' i (SELECT_LAYER (Some (t, r))) s' =
      (s'\<lparr>trackSelector := Some (ts\<lparr>pendingID := t, pendingAt := Some now'\<rparr>), lastSwitchTime := Some now',
         abrAutoMode := True\<rparr>, [])"
    using ts(2) rest(1,2) sel
    by (simp add: ws_message_def ws_select_layer_def selectLayerKeepsAutoMode_def selector_callbacks_def)
  with ts(1) t(1) mem show ?thesis by blast
qed

section \<open>Correctness\<close>

text \<open>C21.
  Every state a WHEP session reaches is well formed: the layers are numbered from 0 by falling
  bitrate, the active and the pending layer are among them and differ, every reported layer has a
  positive size and the label of its shorter side, and the counters of the controller are below
  their thresholds.
\<close>
theorem abr_session_well_formed:
  assumes "run_steps session_step evs (new_session desc now cd base) = (s, e)"
  shows "session_inv s"
  using whep.run_inv [OF new_session_inv assms] .

text \<open>C19.
  Layers are only switched on keyframes: in the video a WHEP reader gets, every access unit that is
  not of the same layer as the one before it is a keyframe, for all messages, evaluations and
  deliveries, as long as the RTP encoder accepts the access units.
\<close>
theorem abr_switch_on_keyframe:
  assumes "run_steps session_step evs (new_session desc now cd base) = (s, e)" "list_all encodable evs"
  shows "aligned (session_active (new_session desc now cd base)) (seen output_of e)"
  using whep.run_aligned [OF new_session_inv assms(2,1)] .

text \<open>C20.
  A recommendation of the server is one the server accepts: it names the next layer up or down, and
  the reader that answers it with SELECT_LAYER gets no error, stays in automatic mode and has the
  layer pending, which the next keyframe of that layer makes the active one.
\<close>
theorem abr_recommendation_accepted:
  assumes "run_steps session_step evs (new_session desc t0 cd base) = (s0, e0)"
    and "abr_tick now est sent lost s0 = (s, e)" "WsWrite c (ABR_RECOMMEND t r) \<in> set e" "now \<le> now'"
    and "ws_message now' c i (SELECT_LAYER (Some (t, r))) s = (s1, e1)"
  shows "\<exists>ts. trackSelector s0 = Some ts \<and> (t = activeID ts + 1 \<or> t = activeID ts - 1) \<and>
    t \<in> set (video_ids ts) \<and> e1 = [] \<and> abrAutoMode s1 \<and>
    (\<exists>ts1. trackSelector s1 = Some ts1 \<and> pendingID ts1 = t \<and>
       (\<forall>now2. \<exists>ts2 e2. OnAccessUnit now2 t True ts1 = (ts2, e2, True, True) \<and> activeID ts2 = t))"
proof -
  have inv: "session_inv s0" by (rule whep.run_inv [OF new_session_inv assms(1)])
  from answer_recommendation [OF inv assms(2-4), of c i] assms(5) obtain ts ts1 where
    ts: "trackSelector s0 = Some ts" "t = activeID ts + 1 \<or> t = activeID ts - 1" "t \<in> set (video_ids ts)"
    and ts1: "ts1 = ts\<lparr>pendingID := t, pendingAt := Some now'\<rparr>"
    and s1: "s1 = s\<lparr>trackSelector := Some ts1, lastSwitchTime := Some now', abrAutoMode := True\<rparr>" "e1 = []"
    by auto
  from inv ts(1) have ok: "selector_ok ts" by (simp add: session_inv_def)
  then have "0 \<le> t" using ts(3) video_ids_nonneg by (auto simp: selector_ok_def)
  moreover obtain ts' l c1 c2 where "trackSelector s0 = Some ts'" "2 \<le> VideoTrackCount ts'"
    by (rule tick_recommends [OF assms(2,3)])
  then have "\<not> passthrough ts" using ok ts(1) by (auto simp: selector_ok_def)
  ultimately have "\<forall>now2. \<exists>ts2 e2. OnAccessUnit now2 t True ts1 = (ts2, e2, True, True) \<and> activeID ts2 = t"
    by (simp add: OnAccessUnit_def ts1)
  then show ?thesis using ts s1 by (auto simp: ts1)
qed

definition sample_desc :: session_desc where
  "sample_desc = \<lparr>Medias = map (\<lambda>i. \<lparr>media_id = i, mtype = MediaTypeVideo, formats = [H264]\<rparr>) [0..<3]\<rparr>"

definition sample_session :: abr_session where
  "sample_session = new_session sample_desc 0 500 0"

definition sample_events :: "session_event list" where
  "sample_events =
     [EvConnect 1, EvDeliver 1000000 0 True 0 True,
      EvTick 6000000000 None 0 0, EvTick 7000000000 None 8 8,
      EvMessage 7500000000 1 ''a'' (SELECT_LAYER (Some (1, ''user''))),
      EvDeliver 7600000000 0 False 10 True, EvDeliver 7700000000 1 False 10 True,
      EvDeliver 7800000000 1 True 20 True, EvDeliver 7900000000 1 False 30 True]"

lemma sample_outputs:
  "seen output_of (snd (run_steps session_step sample_events sample_session)) =
     [(0, True), (0, False), (1, True), (1, False)]"
  by code_simp

theorem abr_session_well_formed_witness:
  "session_inv (fst (run_steps session_step sample_events sample_session))"
proof -
  obtain s e where r: "run_steps session_step sample_events sample_session = (s, e)" by force
  then show ?thesis using abr_session_well_formed [OF r [unfolded sample_session_def]] by simp
qed

theorem abr_switch_on_keyframe_witness:
  "aligned 0 [(0, True), (0, False), (1, True), (1, False)]"
proof -
  obtain s e where r: "run_steps session_step sample_events sample_session = (s, e)" by force
  have "session_active sample_session = 0" by code_simp
  moreover have "list_all encodable sample_events" by (simp add: sample_events_def)
  ultimately show ?thesis
    using abr_switch_on_keyframe [OF r [unfolded sample_session_def]] sample_outputs r
    by (simp flip: sample_session_def)
qed

definition congested_events :: "session_event list" where
  "congested_events = [EvConnect 1, EvTick 6000000000 None 0 0, EvTick 7000000000 None 8 8]"

lemma congested_tick:
  "snd (abr_tick 8000000000 None 16 16 (fst (run_steps session_step congested_events sample_session))) =
     [WsWrite 1 (ABR_RECOMMEND 1 ''auto_bandwidth'')]"
  by code_simp

theorem abr_recommendation_accepted_witness:
  "\<exists>s e s1. abr_tick 8000000000 None 16 16
       (fst (run_steps session_step congested_events sample_session)) = (s, e) \<and>
     ws_message 8100000000 1 ''a'' (SELECT_LAYER (Some (1, ''auto_bandwidth''))) s = (s1, []) \<and> abrAutoMode s1"
proof -
  obtain s0 e0 where r: "run_steps session_step congested_events sample_session = (s0, e0)" by force
  obtain s e where t: "abr_tick 8000000000 None 16 16 s0 = (s, e)" by force
  obtain s1 e1 where m: "ws_message 8100000000 1 ''a'' (SELECT_LAYER (Some (1, ''auto_bandwidth''))) s = (s1, e1)"
    by force
  have "WsWrite 1 (ABR_RECOMMEND 1 ''auto_bandwidth'') \<in> set e" using congested_tick r t by simp
  from abr_recommendation_accepted [OF r [unfolded sample_session_def] t this _ m] r t m show ?thesis by auto
qed

end
