(* ===== verification/Publish_Whitelist.thy ===== *)
theory Publish_Whitelist
  imports Auth_Manager "HOL-Library.AList"
begin

text \<open>
  \<^verbatim>\<open>internal/core/publish_whitelist.go\<close>: which paths may be published on a node. The applications
  come from a periodic fetch, whose result is an argument; a path is
  \<open>appId/tableId-viewName\<close> with an optional codec segment.
\<close>

section \<open>Operations\<close>

record app_credential =
  AppID :: string
  AppSecretOf :: string

record whitelist =
  apps :: "(string \<times> string) list"
  onRevoked :: bool

definition newAppPublishWhitelist :: whitelist where
  "newAppPublishWhitelist = \<lparr>apps = [], onRevoked = False\<rparr>"

definition SetRevocationHandler :: "bool \<Rightarrow> whitelist \<Rightarrow> whitelist" where
  "SetRevocationHandler fn w = w\<lparr>onRevoked := fn\<rparr>"

text \<open>The applications whose sessions are revoked are the second result, in the order of the map.\<close>

definition refresh :: "string + app_credential list \<Rightarrow> whitelist \<Rightarrow> whitelist \<times> string list" where
  "refresh fetched w =
     (case fetched of
        Inl _ \<Rightarrow> (w, [])
      | Inr creds \<Rightarrow>
          let new = fold (\<lambda>cred m. AList.update (AppID cred) (AppSecretOf cred) m) creds [];
              previous = apps w
          in (w\<lparr>apps := new\<rparr>,
              if \<not> onRevoked w \<or> previous = [] then []
              else filter (\<lambda>appID. map_of new appID = None) (map fst previous)))"

definition appAllowed :: "string \<Rightarrow> whitelist \<Rightarrow> bool" where
  "appAllowed appID w \<longleftrightarrow> map_of (apps w) appID \<noteq> None"

definition AppSecret :: "string \<Rightarrow> whitelist \<Rightarrow> string option" where
  "AppSecret appID w = map_of (apps w) appID"

text \<open>\<^verbatim>\<open>[A-Za-z0-9_-]{1,64}\<close>\<close>

definition ident_char :: "char \<Rightarrow> bool" where
  "ident_char c \<longleftrightarrow>
     CHR ''A'' \<le> c \<and> c \<le> CHR ''Z'' \<or> CHR ''a'' \<le> c \<and> c \<le> CHR ''z'' \<or> is_digit c \<or>
     c = CHR ''_'' \<or> c = CHR ''-''"

definition ident_word :: "string \<Rightarrow> bool" where
  "ident_word s \<longleftrightarrow> 1 \<le> length s \<and> length s \<le> 64 \<and> list_all ident_char s"

text \<open>The pattern matches when some hyphen splits the string into two identifiers.\<close>

definition tableViewPattern :: "string \<Rightarrow> bool" where
  "tableViewPattern s \<longleftrightarrow>
     list_ex (\<lambda>i. s ! i = CHR ''-'' \<and> ident_word (take i s) \<and> ident_word (drop (Suc i) s)) [0..<length s]"

definition codecSuffixes :: "string list" where
  "codecSuffixes = [''/h264'', ''/hevc'']"

definition IsStreamAllowed :: "whitelist \<Rightarrow> string \<Rightarrow> bool" where
  "IsStreamAllowed w pathName =
     (let (appID, rest, ok) = strings_Cut (CHR ''/'') pathName
      in if \<not> ok \<or> appID = [] \<or> rest = [] then False
         else if \<not> appAllowed appID w then False
         else tableViewPattern (fold TrimSuffix codecSuffixes rest))"

section \<open>What is allowed\<close>

lemma pattern_split:
  "tableViewPattern s \<longleftrightarrow> (\<exists>t v. s = t @ CHR ''-'' # v \<and> ident_word t \<and> ident_word v)"
proof
  assume "tableViewPattern s"
  then obtain i where i: "i < length s" "s ! i = CHR ''-''" "ident_word (take i s)" "ident_word (drop (Suc i) s)"
    by (auto simp: tableViewPattern_def list_ex_iff)
  then have "s = take i s @ CHR ''-'' # drop (Suc i) s" by (metis id_take_nth_drop)
  with i show "\<exists>t v. s = t @ CHR ''-'' # v \<and> ident_word t \<and> ident_word v" by blast
next
  assume "\<exists>t v. s = t @ CHR ''-'' # v \<and> ident_word t \<and> ident_word v"
  then obtain t v where "s = t @ CHR ''-'' # v" "ident_word t" "ident_word v" by blast
  then show "tableViewPattern s"
    by (auto simp: tableViewPattern_def list_ex_iff intro!: bexI [of _ "length t"])
qed

lemma slash_not_ident [simp]: "\<not> ident_char (CHR ''/'')"
  by (simp add: ident_char_def is_digit_def less_eq_char_def)

lemma ident_word_no_slash: "ident_word s \<Longrightarrow> CHR ''/'' \<notin> set s"
  by (auto simp: ident_word_def list_all_iff)

lemma pattern_no_slash: "tableViewPattern s \<Longrightarrow> CHR ''/'' \<notin> set s"
  by (auto simp: pattern_split dest: ident_word_no_slash)

lemma TrimSuffix_no_slash:
  assumes "CHR ''/'' \<in> set suf" "CHR ''/'' \<notin> set s"
  shows "TrimSuffix suf s = s"
  using assms TrimSuffix_cases [of suf s] by (metis in_set_conv_decomp append_assoc append_Cons)

lemma trim_other: "TrimSuffix ''/h264'' (s @ ''/hevc'') = s @ ''/hevc''"
  by (simp add: TrimSuffix_def)

lemma trimmed_core:
  assumes "CHR ''/'' \<notin> set core"
  shows "fold TrimSuffix codecSuffixes rest = core \<longleftrightarrow>
    rest \<in> {core, core @ ''/h264'', core @ ''/hevc'', core @ ''/hevc/h264''}"
proof -
  have no: "TrimSuffix ''/h264'' core = core" "TrimSuffix ''/hevc'' core = core"
    by (rule TrimSuffix_no_slash; use assms in simp)+
  have "rest \<in> {core, core @ ''/h264'', core @ ''/hevc'', core @ ''/hevc/h264''}"
    if t: "TrimSuffix ''/hevc'' (TrimSuffix ''/h264'' rest) = core"
  proof -
    obtain mid where mid: "mid = TrimSuffix ''/h264'' rest" by simp
    then have "rest = mid \<or> rest = mid @ ''/h264''" using TrimSuffix_cases [of "''/h264''" rest] by metis
    moreover have "mid = core \<or> mid = core @ ''/hevc''"
      using TrimSuffix_cases [of "''/hevc''" mid] t mid by metis
    ultimately show ?thesis by auto
  qed
  moreover have "TrimSuffix ''/hevc'' (TrimSuffix ''/h264'' rest) = core"
    if "rest \<in> {core, core @ ''/h264'', core @ ''/hevc'', core @ ''/hevc/h264''}"
    using that no trim_other [of core] TrimSuffix_append [of "''/hevc''" core] TrimSuffix_append [of "''/h264''" core]
      TrimSuffix_append [of "''/h264''" "core @ ''/hevc''"] by auto
  ultimately show ?thesis by (auto simp: codecSuffixes_def)
qed

section \<open>Correctness\<close>

definition codec_tails :: "string list" where
  "codec_tails = ['''', ''/h264'', ''/hevc'', ''/hevc/h264'']"

lemma allowed_shape:
  "IsStreamAllowed w name \<longleftrightarrow>
     (\<exists>app t v tail. name = app @ ''/'' @ t @ ''-'' @ v @ tail \<and> app \<noteq> [] \<and> CHR ''/'' \<notin> set app \<and>
        appAllowed app w \<and> ident_word t \<and> ident_word v \<and> tail \<in> set codec_tails)" (is "_ \<longleftrightarrow> ?R")
proof
  assume "IsStreamAllowed w name"
  then obtain app rest where c: "strings_Cut (CHR ''/'') name = (app, rest, True)"
      and ok: "app \<noteq> []" "appAllowed app w" "tableViewPattern (fold TrimSuffix codecSuffixes rest)"
    unfolding IsStreamAllowed_def by (auto split: prod.splits if_splits)
  obtain core where core: "core = fold TrimSuffix codecSuffixes rest" by simp
  then obtain tail where "rest = core @ tail" "tail \<in> set codec_tails"
    using trimmed_core [OF pattern_no_slash [OF ok(3)], of rest] by (auto simp: codec_tails_def)
  moreover obtain t v where "core = t @ CHR ''-'' # v" "ident_word t" "ident_word v"
    using ok(3) core by (auto simp: pattern_split)
  ultimately show ?R using cut_True [OF c] ok by force
next
  assume ?R
  then obtain app t v tail where n: "name = app @ ''/'' @ t @ ''-'' @ v @ tail" "app \<noteq> []" "CHR ''/'' \<notin> set app"
      "appAllowed app w" "ident_word t" "ident_word v" "tail \<in> set codec_tails" by blast
  let ?core = "t @ CHR ''-'' # v"
  have pat: "tableViewPattern ?core" using n by (auto simp: pattern_split)
  have "fold TrimSuffix codecSuffixes (?core @ tail) = ?core"
    using n(7) by (subst trimmed_core [OF pattern_no_slash [OF pat]]) (auto simp: codec_tails_def)
  then show "IsStreamAllowed w name"
    using n pat cut_append [OF n(3), of "?core @ tail"] by (simp add: IsStreamAllowed_def)
qed

text \<open>C40.
  A path may be published exactly when its name is an application, a slash, a table, a hyphen and a
  view, where the application is one of the last successful synchronisation and table and view are
  words of 1 to 64 letters, digits, underscores or hyphens, followed by at most a codec segment
  (\<open>/h264\<close>, \<open>/hevc\<close>, or \<open>/hevc/h264\<close>).
\<close>
theorem whitelist_allows_exactly:
  "IsStreamAllowed w name \<longleftrightarrow>
     (\<exists>app t v tail. name = app @ ''/'' @ t @ ''-'' @ v @ tail \<and> app \<noteq> [] \<and> CHR ''/'' \<notin> set app \<and>
        appAllowed app w \<and> ident_word t \<and> ident_word v \<and> tail \<in> set codec_tails)"
  by (rule allowed_shape)

lemma map_of_creds:
  "map_of (fold (\<lambda>cred m. AList.update (AppID cred) (AppSecretOf cred) m) creds m0) app \<noteq> None \<longleftrightarrow>
     app \<in> AppID ` set creds \<or> map_of m0 app \<noteq> None"
  by (induction creds arbitrary: m0) (auto simp: update_conv')

text \<open>
  A successful synchronisation makes exactly the fetched applications publishable and revokes
  exactly those that were publishable and no longer are; a failed one changes nothing.
\<close>
lemma appAllowed_fst: "appAllowed app w \<longleftrightarrow> app \<in> fst ` set (apps w)"
  by (simp add: appAllowed_def map_of_eq_None_iff)

lemma refresh_revokes_exactly:
  assumes "refresh (Inr creds) w = (w', revoked)" "onRevoked w"
  shows "appAllowed app w' \<longleftrightarrow> app \<in> AppID ` set creds"
    "app \<in> set revoked \<longleftrightarrow> appAllowed app w \<and> \<not> appAllowed app w'"
proof -
  let ?new = "fold (\<lambda>cred m. AList.update (AppID cred) (AppSecretOf cred) m) creds []"
  have w': "apps w' = ?new" and
    r: "revoked = (if apps w = [] then [] else filter (\<lambda>a. map_of ?new a = None) (map fst (apps w)))"
    using assms by (auto simp: refresh_def Let_def)
  show "appAllowed app w' \<longleftrightarrow> app \<in> AppID ` set creds"
    using map_of_creds [of creds "[]" app] by (simp add: appAllowed_def w')
  show "app \<in> set revoked \<longleftrightarrow> appAllowed app w \<and> \<not> appAllowed app w'"
    unfolding r appAllowed_fst [of app w] appAllowed_def [of app w'] w' by auto
qed

lemma refresh_fails_closed: "refresh (Inl err) w = (w, [])"
  by (simp add: refresh_def)

end
