(* ===== verification/Recv_Stats.thy ===== *)
theory Recv_Stats
  imports Go_Float
begin

text \<open>
  \<^verbatim>\<open>internal/recvstats\<close>: cumulative receive counters turned into per-interval statistics
  (\<open>Sampler\<close>), and the tracker that decides when loss above a threshold is reported and when it has
  lasted long enough to close the connection (\<open>SustainedLossTracker\<close>). The rendering of the log line
  is left out.
\<close>

section \<open>The sampler\<close>

record sampler =
  smp_lastBytes :: u64
  smp_lastRecv :: u64
  smp_lastLost :: u64
  smp_lastAt :: time
  smp_seeded :: bool

definition new_sampler :: sampler where
  "new_sampler = \<lparr>smp_lastBytes = 0, smp_lastRecv = 0, smp_lastLost = 0, smp_lastAt = None, smp_seeded = False\<rparr>"

record snapshot =
  BitrateBps :: f64
  LossPct :: f64
  Window :: int
  PacketsExpected :: u64
  TotalBytes :: u64
  TotalReceived :: u64
  TotalLost :: u64

text \<open>
  \<^verbatim>\<open>Duration.Seconds\<close>. The bitrate divides \<^verbatim>\<open>float64(dBytes) * 8\<close> by it; the loss is the share of
  the lost packets in the expected ones (received plus lost, modulo $2^{64}$).
\<close>

definition duration_Seconds :: "int \<Rightarrow> f64" where
  "duration_Seconds d =
     f64_add (f64_of_int (d sdiv time_Second)) (f64_div (f64_of_int (d smod time_Second)) 1000000000)"

definition loss_share :: "u64 \<Rightarrow> u64 \<Rightarrow> f64" where
  "loss_share lost expected =
     (if 0 < expected then f64_mul (f64_div (f64_of_u64 lost) (f64_of_u64 expected)) 100 else 0)"

definition recv_Sample :: "u64 \<Rightarrow> u64 \<Rightarrow> u64 \<Rightarrow> int \<Rightarrow> sampler \<Rightarrow> sampler \<times> snapshot option" where
  "recv_Sample bytesRecv pktsRecv pktsLost now s =
     (let s' = \<lparr>smp_lastBytes = bytesRecv, smp_lastRecv = pktsRecv, smp_lastLost = pktsLost,
                smp_lastAt = Some now, smp_seeded = True\<rparr> in
      if \<not> smp_seeded s \<or> bytesRecv < smp_lastBytes s \<or> pktsRecv < smp_lastRecv s \<or> pktsLost < smp_lastLost s
      then (s', None)
      else
        let window = time_since now (smp_lastAt s);
            dBytes = bytesRecv - smp_lastBytes s;
            dRecv = pktsRecv - smp_lastRecv s;
            dLost = pktsLost - smp_lastLost s;
            bitrate = (if 0 < window
                       then f64_div (f64_mul (f64_of_u64 dBytes) 8) (duration_Seconds window) else 0);
            expected = dRecv + dLost
        in (s', Some \<lparr>BitrateBps = bitrate, LossPct = loss_share dLost expected, Window = window,
                      PacketsExpected = expected, TotalBytes = bytesRecv, TotalReceived = pktsRecv,
                      TotalLost = pktsLost\<rparr>))"

text \<open>A second baseline is set exactly when a counter went backwards.\<close>

lemma recv_Sample_None_iff:
  "snd (recv_Sample b r l now s) = None \<longleftrightarrow>
     \<not> smp_seeded s \<or> b < smp_lastBytes s \<or> r < smp_lastRecv s \<or> l < smp_lastLost s"
  by (simp add: recv_Sample_def Let_def)

lemma recv_Sample_Some:
  assumes "recv_Sample b r l now s = (s', Some snap)"
  shows "smp_lastLost s \<le> l" "smp_lastRecv s \<le> r"
    "PacketsExpected snap = (r - smp_lastRecv s) + (l - smp_lastLost s)"
    "LossPct snap = loss_share (l - smp_lastLost s) (PacketsExpected snap)"
  using assms by (auto simp: recv_Sample_def Let_def not_less split: if_splits)

lemma recv_Sample_state:
  "fst (recv_Sample b r l now s) =
     \<lparr>smp_lastBytes = b, smp_lastRecv = r, smp_lastLost = l, smp_lastAt = Some now, smp_seeded = True\<rparr>"
  by (simp add: recv_Sample_def Let_def)

lemma f64_of_u64_nonneg: "0 \<le> f64_of_u64 v"
  unfolding f64_of_u64_def by (rule fl64_nonneg [OF of_nat_0_le_iff])

lemma loss_share_nonneg: "0 \<le> loss_share lost expected"
  using f64_of_u64_nonneg [of lost] f64_of_u64_nonneg [of expected]
  by (auto simp: loss_share_def f64_div_def f64_mul_def intro!: fl64_nonneg)

section \<open>Sustained loss\<close>

record loss_tracker =
  exceededSince :: time
  wasOver :: bool

definition new_tracker :: loss_tracker where
  "new_tracker = \<lparr>exceededSince = None, wasOver = False\<rparr>"

record loss_decision =
  ShouldReport :: bool
  Sustained :: int
  ShouldDisconnect :: bool

definition tracker_Update ::
  "f64 \<Rightarrow> f64 \<Rightarrow> bool \<Rightarrow> int \<Rightarrow> int \<Rightarrow> loss_tracker \<Rightarrow> loss_tracker \<times> loss_decision" where
  "tracker_Update lossPct thresholdPct disconnectEnable disconnectAfter now t =
     (if \<not> thresholdPct < lossPct then
        (\<lparr>exceededSince = None, wasOver = False\<rparr>,
         \<lparr>ShouldReport = wasOver t, Sustained = 0, ShouldDisconnect = False\<rparr>)
      else
        (let since = (case exceededSince t of None \<Rightarrow> now | Some x \<Rightarrow> x);
             sustained = now - since
         in (\<lparr>exceededSince = Some since, wasOver = True\<rparr>,
             \<lparr>ShouldReport = True, Sustained = sustained,
              ShouldDisconnect = disconnectEnable \<and> disconnectAfter \<le> sustained\<rparr>)))"

text \<open>
  The reference reads the whole history of samples (loss and time, the newest first): \<open>over_since\<close> is
  the time of the first sample of the current unbroken run above the threshold.
\<close>

fun over_since :: "f64 \<Rightarrow> (f64 \<times> int) list \<Rightarrow> time" where
  "over_since th [] = None"
| "over_since th ((loss, now) # h) =
     (if th < loss then (case over_since th h of None \<Rightarrow> Some now | Some x \<Rightarrow> Some x) else None)"

definition tracker_of :: "f64 \<Rightarrow> (f64 \<times> int) list \<Rightarrow> loss_tracker" where
  "tracker_of th h = \<lparr>exceededSince = over_since th h, wasOver = over_since th h \<noteq> None\<rparr>"

lemma tracker_of_Nil: "tracker_of th [] = new_tracker"
  by (simp add: tracker_of_def new_tracker_def)

lemma tracker_Update_exact:
  "tracker_Update loss th en after now (tracker_of th h) =
     (tracker_of th ((loss, now) # h),
      case over_since th ((loss, now) # h) of
        None \<Rightarrow> \<lparr>ShouldReport = over_since th h \<noteq> None, Sustained = 0, ShouldDisconnect = False\<rparr>
      | Some x \<Rightarrow> \<lparr>ShouldReport = True, Sustained = now - x, ShouldDisconnect = en \<and> after \<le> now - x\<rparr>)"
  by (auto simp: tracker_Update_def tracker_of_def Let_def split: option.splits)

text \<open>
  The run above the threshold: every sample since \<open>over_since\<close> is above it, and the sample of that
  time belongs to it.
\<close>

lemma over_since_run:
  "over_since th h = Some x \<Longrightarrow>
   \<exists>run rest loss. h = run @ rest \<and> run \<noteq> [] \<and> (\<forall>s \<in> set run. th < fst s) \<and> last run = (loss, x) \<and>
     (rest = [] \<or> \<not> th < fst (hd rest))"
proof (induction h)
  case (Cons s h)
  obtain loss now where s: "s = (loss, now)" by force
  show ?case
  proof (cases "over_since th h")
    case None
    with Cons.prems s have x: "th < loss" "x = now" by (auto split: if_splits)
    have "h = [] \<or> \<not> th < fst (hd h)"
    proof (cases h)
      case (Cons s' h')
      obtain l' n' where "s' = (l', n')" by force
      with Cons None show ?thesis by (auto split: if_splits option.splits)
    qed simp
    then show ?thesis using x s by (intro exI [of _ "[s]"] exI [of _ h] exI [of _ loss]) simp
  next
    case (Some y)
    with Cons.prems s have x: "th < loss" "x = y" by (auto split: if_splits)
    from Cons.IH Some x(2) obtain run rest loss' where "h = run @ rest" "run \<noteq> []"
      "\<forall>s \<in> set run. th < fst s" "last run = (loss', x)" "rest = [] \<or> \<not> th < fst (hd rest)" by blast
    then show ?thesis using x(1) s
      by (intro exI [of _ "s # run"] exI [of _ rest] exI [of _ loss']) simp
  qed
qed simp

end
