(* ===== verification/Srt_Latency.thy ===== *)
theory Srt_Latency
  imports Go_Float
begin

text \<open>
  \<^verbatim>\<open>internal/servers/srt/latency.go\<close>: the per-path receive latency, raised and lowered by loss. The
  manager is the map from path names to tuned values; every method is one critical section of its
  mutex. A duration is an \<^verbatim>\<open>int64\<close>, so sums wrap.
\<close>

record lat_config =
  lat_Initial :: int
  lat_Min :: int
  lat_Max :: int
  lat_Step :: int
  lat_RaiseStep :: int
  lat_RaisePct :: f64
  lat_LowerPct :: f64

record lat_state =
  lat_current :: int
  raiseClosedAt :: time

type_synonym lat_manager = "string \<rightharpoonup> lat_state"

definition srtRaiseCloseStaleAfter :: int where
  "srtRaiseCloseStaleAfter = 2 * 60 * time_Second"

definition getOrCreateLocked :: "lat_config \<Rightarrow> string \<Rightarrow> lat_manager \<Rightarrow> lat_manager \<times> lat_state" where
  "getOrCreateLocked cfg p m =
     (case m p of
        Some st \<Rightarrow> (m, st)
      | None \<Rightarrow> (let st = \<lparr>lat_current = lat_Initial cfg, raiseClosedAt = None\<rparr> in (m(p \<mapsto> st), st)))"

definition srtLatencyNextValue :: "int \<Rightarrow> f64 \<Rightarrow> lat_config \<Rightarrow> int" where
  "srtLatencyNextValue current dropRatePct cfg =
     (let n1 = (if lat_RaisePct cfg < dropRatePct then int64 (current + lat_RaiseStep cfg)
                else if dropRatePct < lat_LowerPct cfg then int64 (current - lat_Step cfg)
                else current);
          n2 = (if n1 < lat_Min cfg then lat_Min cfg else n1)
      in if lat_Max cfg < n2 then lat_Max cfg else n2)"

definition lat_Record :: "lat_config \<Rightarrow> string \<Rightarrow> f64 \<Rightarrow> lat_manager \<Rightarrow> lat_manager \<times> bool" where
  "lat_Record cfg p dropRatePct m =
     (let (m1, st) = getOrCreateLocked cfg p m;
          next = srtLatencyNextValue (lat_current st) dropRatePct cfg
      in if next = lat_current st then (m1, False)
         else (m1(p \<mapsto> st\<lparr>lat_current := next\<rparr>), lat_current st < next))"

definition LatencyFor :: "lat_config \<Rightarrow> string \<Rightarrow> lat_manager \<Rightarrow> lat_manager \<times> int" where
  "LatencyFor cfg p m = (let (m1, st) = getOrCreateLocked cfg p m in (m1, lat_current st))"

definition MarkRaiseClose :: "lat_config \<Rightarrow> string \<Rightarrow> int \<Rightarrow> lat_manager \<Rightarrow> lat_manager" where
  "MarkRaiseClose cfg p closedAt m =
     (let (m1, st) = getOrCreateLocked cfg p m in m1(p \<mapsto> st\<lparr>raiseClosedAt := Some closedAt\<rparr>))"

definition adjusted :: "int \<Rightarrow> bool \<Rightarrow> int \<Rightarrow> int \<Rightarrow> int \<Rightarrow> int" where
  "adjusted current raise step minL maxL =
     (if raise then (let n = int64 (current + step) in if maxL < n then maxL else n)
      else (let n = int64 (current - step) in if n < minL then minL else n))"

definition AdjustLatency ::
  "lat_config \<Rightarrow> string \<Rightarrow> bool \<Rightarrow> int \<Rightarrow> int \<Rightarrow> int \<Rightarrow> lat_manager \<Rightarrow> lat_manager \<times> bool" where
  "AdjustLatency cfg p raise step minL maxL m =
     (let (m1, st) = getOrCreateLocked cfg p m;
          next = adjusted (lat_current st) raise step minL maxL
      in if next = lat_current st then (m1, False)
         else (m1(p \<mapsto> st\<lparr>lat_current := next\<rparr>), lat_current st < next))"

definition TakeRaiseCloseGap :: "string \<Rightarrow> int \<Rightarrow> lat_manager \<Rightarrow> lat_manager \<times> int option" where
  "TakeRaiseCloseGap p now m =
     (case m p of
        None \<Rightarrow> (m, None)
      | Some st \<Rightarrow>
          (case raiseClosedAt st of
             None \<Rightarrow> (m, None)
           | Some t \<Rightarrow>
               (let gap = now - t; m1 = m(p \<mapsto> st\<lparr>raiseClosedAt := None\<rparr>)
                in if gap < 0 \<or> srtRaiseCloseStaleAfter < gap then (m1, None) else (m1, Some gap))))"

section \<open>The tuned range\<close>

text \<open>
  The configurations that are accepted have an increasing range and positive steps; the values stay
  far below the limits of \<^verbatim>\<open>int64\<close> (146 years), so nothing wraps. \<open>latency_of\<close> is what a
  handshake would get.
\<close>

definition in_range :: "lat_config \<Rightarrow> int \<Rightarrow> bool" where
  "in_range cfg v \<longleftrightarrow> lat_Min cfg \<le> v \<and> v \<le> lat_Max cfg"

definition lat_config_ok :: "lat_config \<Rightarrow> bool" where
  "lat_config_ok cfg \<longleftrightarrow>
     0 < lat_Min cfg \<and> lat_Max cfg < 2 ^ 62 \<and> in_range cfg (lat_Initial cfg) \<and>
     0 < lat_Step cfg \<and> lat_Step cfg < 2 ^ 62 \<and> 0 < lat_RaiseStep cfg \<and> lat_RaiseStep cfg < 2 ^ 62"

definition latency_of :: "lat_config \<Rightarrow> string \<Rightarrow> lat_manager \<Rightarrow> int" where
  "latency_of cfg p m = (case m p of None \<Rightarrow> lat_Initial cfg | Some st \<Rightarrow> lat_current st)"

definition lat_inv :: "lat_config \<Rightarrow> lat_manager \<Rightarrow> bool" where
  "lat_inv cfg m \<longleftrightarrow> (\<forall>p st. m p = Some st \<longrightarrow> in_range cfg (lat_current st))"

lemma lat_inv_latency: "lat_config_ok cfg \<Longrightarrow> lat_inv cfg m \<Longrightarrow> in_range cfg (latency_of cfg p m)"
  by (auto simp: latency_of_def lat_inv_def lat_config_ok_def split: option.splits)

lemma lat_inv_upd: "lat_inv cfg m \<Longrightarrow> in_range cfg (lat_current st) \<Longrightarrow> lat_inv cfg (m(p \<mapsto> st))"
  by (auto simp: lat_inv_def)

lemma getOrCreate_cases:
  obtains st where "getOrCreateLocked cfg p m = (m(p \<mapsto> st), st)" "lat_current st = latency_of cfg p m"
    "m p = Some st \<or> m p = None"
  by (cases "m p")
    (auto simp: getOrCreateLocked_def latency_of_def Let_def fun_upd_idem intro!: that)

lemma next_in_range:
  assumes "lat_config_ok cfg" "in_range cfg c"
  shows "in_range cfg (srtLatencyNextValue c d cfg)"
  using assms by (auto simp: srtLatencyNextValue_def in_range_def lat_config_ok_def Let_def)

text \<open>One event moves the value by one step towards the end of the range, or not at all.\<close>

lemma next_value:
  assumes "lat_config_ok cfg" "in_range cfg c"
  shows "srtLatencyNextValue c d cfg =
    (if lat_RaisePct cfg < d then min (lat_Max cfg) (c + lat_RaiseStep cfg)
     else if d < lat_LowerPct cfg then max (lat_Min cfg) (c - lat_Step cfg) else c)"
proof -
  have "int64 (c + lat_RaiseStep cfg) = c + lat_RaiseStep cfg" "int64 (c - lat_Step cfg) = c - lat_Step cfg"
    using assms by (auto simp: lat_config_ok_def in_range_def intro!: int64_eq)
  then show ?thesis
    using assms by (auto simp: srtLatencyNextValue_def lat_config_ok_def in_range_def Let_def)
qed

lemma adjusted_value:
  assumes "lat_config_ok cfg" "in_range cfg c"
  shows "adjusted c True (lat_RaiseStep cfg) (lat_Min cfg) (lat_Max cfg) = min (lat_Max cfg) (c + lat_RaiseStep cfg)"
    "adjusted c False (lat_Step cfg) (lat_Min cfg) (lat_Max cfg) = max (lat_Min cfg) (c - lat_Step cfg)"
proof -
  have "int64 (c + lat_RaiseStep cfg) = c + lat_RaiseStep cfg" "int64 (c - lat_Step cfg) = c - lat_Step cfg"
    using assms by (auto simp: lat_config_ok_def in_range_def intro!: int64_eq)
  then show "adjusted c True (lat_RaiseStep cfg) (lat_Min cfg) (lat_Max cfg) = min (lat_Max cfg) (c + lat_RaiseStep cfg)"
    "adjusted c False (lat_Step cfg) (lat_Min cfg) (lat_Max cfg) = max (lat_Min cfg) (c - lat_Step cfg)"
    by (auto simp: adjusted_def Let_def)
qed

text \<open>
  A tuner is what \<open>Record\<close> and \<open>AdjustLatency\<close> have in common: the value of one path is replaced, and
  the flag says whether it went up.
\<close>

locale latency_tuner =
  fixes cfg :: lat_config
    and next_of :: "int \<Rightarrow> int"
    and tune :: "string \<Rightarrow> lat_manager \<Rightarrow> lat_manager \<times> bool"
  assumes tune_eq: "tune p m =
      (let (m1, st) = getOrCreateLocked cfg p m; next = next_of (lat_current st)
       in if next = lat_current st then (m1, False)
          else (m1(p \<mapsto> st\<lparr>lat_current := next\<rparr>), lat_current st < next))"
begin

lemma tuned: "latency_of cfg p (fst (tune p m)) = next_of (latency_of cfg p m)"
  by (rule getOrCreate_cases [of cfg p m]) (auto simp: tune_eq Let_def latency_of_def)

lemma raised_iff: "snd (tune p m) \<longleftrightarrow> latency_of cfg p m < next_of (latency_of cfg p m)"
  by (rule getOrCreate_cases [of cfg p m]) (auto simp: tune_eq Let_def)

lemma others: "q \<noteq> p \<Longrightarrow> fst (tune p m) q = m q"
  by (rule getOrCreate_cases [of cfg p m]) (auto simp: tune_eq Let_def)

lemma keeps_inv:
  assumes "lat_inv cfg m" "lat_config_ok cfg" "in_range cfg (next_of (latency_of cfg p m))"
  shows "lat_inv cfg (fst (tune p m))"
  unfolding lat_inv_def
proof (intro allI impI)
  fix q st assume st: "fst (tune p m) q = Some st"
  show "in_range cfg (lat_current st)"
  proof (cases "q = p")
    case True
    with st tuned [of p m] assms(3) show ?thesis by (simp add: latency_of_def)
  next
    case False
    with st others [of q p m] assms(1) show ?thesis by (auto simp: lat_inv_def)
  qed
qed

end

interpretation record_tuner: latency_tuner cfg "\<lambda>c. srtLatencyNextValue c d cfg" "\<lambda>p. lat_Record cfg p d"
  for cfg d
  by unfold_locales (simp add: lat_Record_def)

interpretation adjust_tuner: latency_tuner cfg "\<lambda>c. adjusted c raise step mn mx"
    "\<lambda>p. AdjustLatency cfg p raise step mn mx" for cfg raise step mn mx
  by unfold_locales (simp add: AdjustLatency_def)

lemma lat_inv_Record:
  "lat_config_ok cfg \<Longrightarrow> lat_inv cfg m \<Longrightarrow> lat_inv cfg (fst (lat_Record cfg p d m))"
  by (intro record_tuner.keeps_inv next_in_range lat_inv_latency)

lemma lat_inv_LatencyFor:
  assumes "lat_config_ok cfg" "lat_inv cfg m"
  shows "lat_inv cfg (fst (LatencyFor cfg p m))" "snd (LatencyFor cfg p m) = latency_of cfg p m"
  by (rule getOrCreate_cases [of cfg p m];
      use assms lat_inv_latency [OF assms, of p] in \<open>auto simp: LatencyFor_def intro: lat_inv_upd\<close>)+

lemma lat_inv_MarkRaiseClose:
  assumes "lat_config_ok cfg" "lat_inv cfg m"
  shows "lat_inv cfg (MarkRaiseClose cfg p closedAt m)" "latency_of cfg q (MarkRaiseClose cfg p closedAt m) = latency_of cfg q m"
  by (rule getOrCreate_cases [of cfg p m];
      use assms lat_inv_latency [OF assms, of p] in
        \<open>auto simp: MarkRaiseClose_def latency_of_def intro: lat_inv_upd\<close>)+

lemma lat_inv_TakeGap:
  assumes "lat_inv cfg m"
  shows "lat_inv cfg (fst (TakeRaiseCloseGap p now m))"
    "latency_of cfg q (fst (TakeRaiseCloseGap p now m)) = latency_of cfg q m"
  using assms
  by (auto simp: TakeRaiseCloseGap_def lat_inv_def latency_of_def Let_def split: option.splits)

text \<open>A gap is reported once, and only up to two minutes after the close.\<close>

lemma TakeGap_once:
  assumes "TakeRaiseCloseGap p now m = (m', Some gap)"
  shows "0 \<le> gap \<and> gap \<le> srtRaiseCloseStaleAfter \<and> snd (TakeRaiseCloseGap p later m') = None"
  using assms by (auto simp: TakeRaiseCloseGap_def Let_def split: option.splits if_splits)

lemma mark_take_gap:
  assumes "0 \<le> d" "d \<le> srtRaiseCloseStaleAfter"
  shows "snd (TakeRaiseCloseGap p (closedAt + d) (MarkRaiseClose cfg p closedAt m)) = Some d"
  by (rule getOrCreate_cases [of cfg p m])
    (use assms in \<open>auto simp: TakeRaiseCloseGap_def MarkRaiseClose_def Let_def\<close>)

end
