(* ===== verification/Srt_Ingest.thy ===== *)
theory Srt_Ingest
  imports Recv_Stats Srt_Latency Degrade Step_Machine
begin

text \<open>
  The control loops of an SRT publisher, \<^verbatim>\<open>internal/servers/srt/conn.go\<close> and \<^verbatim>\<open>server.go\<close>: the
  statistics tick (loss alarm, the two disconnect tiers, the latency tuner) and the sampling tick that
  feeds the degrade ladder and moves the latency with it. The connection's statistics are an argument
  of a tick, and the clock is read once per tick; reports and the closing of the connection are
  effects. Logging is left out.
\<close>

section \<open>The server's settings\<close>

record srt_server =
  srv_Latency :: int
  srv_ReceiverBufferSize :: u64
  srv_FlowControlWindow :: int
  srv_LatencyAutoTune :: bool
  srv_LatencyMin :: int
  srv_LatencyMax :: int
  srv_LatencyStep :: int
  srv_LatencyRaiseStep :: int
  srv_LatencyRaisePct :: f64
  srv_LatencyLowerPct :: f64
  srv_LossAlarmReporter :: bool
  srv_LossAlarmEnable :: bool
  srv_LossAlarmThresholdPct :: f64
  srv_LossSampleReporter :: bool
  srv_LossDisconnectEnable :: bool
  srv_LossDisconnectSec :: int
  srv_LossRecycleEnable :: bool
  srv_LossRecycleThresholdPct :: f64
  srv_LossRecycleSec :: int
  srv_DegradeEnable :: bool
  srv_DegradeRaisePct :: f64
  srv_DegradeLowerPct :: f64
  srv_DegradeRestartPct :: f64
  srv_DegradeObservationSec :: int
  srv_DegradeRaiseLatencyStep :: int
  srv_DegradeLowerLatencyStep :: int
  srv_DegradeLatencyMin :: int
  srv_DegradeLatencyMax :: int

text \<open>
  \<open>Initialize\<close>: which tuner owns the latency. Without one there is no latency manager (\<open>None\<close>).
\<close>

definition latency_config :: "srt_server \<Rightarrow> lat_config option" where
  "latency_config s =
     (if srv_LatencyAutoTune s \<or> srv_DegradeEnable s then
        Some (if srv_DegradeEnable s
              then \<lparr>lat_Initial = srv_Latency s, lat_Min = srv_DegradeLatencyMin s,
                    lat_Max = srv_DegradeLatencyMax s, lat_Step = srv_DegradeLowerLatencyStep s,
                    lat_RaiseStep = srv_DegradeRaiseLatencyStep s, lat_RaisePct = srv_DegradeRaisePct s,
                    lat_LowerPct = srv_DegradeLowerPct s\<rparr>
              else \<lparr>lat_Initial = srv_Latency s, lat_Min = srv_LatencyMin s, lat_Max = srv_LatencyMax s,
                    lat_Step = srv_LatencyStep s, lat_RaiseStep = srv_LatencyRaiseStep s,
                    lat_RaisePct = srv_LatencyRaisePct s, lat_LowerPct = srv_LatencyLowerPct s\<rparr>)
      else None)"

section \<open>The statistics tick\<close>

text \<open>The accumulated counters of the socket that the loops read.\<close>

record srt_stats =
  ByteRecv :: u64
  PktRecv :: u64
  PktRecvLoss :: u64
  PktRecvRetrans :: u64
  PktRecvDrop :: u64
  PktRecvDuplicate :: u64

definition unrecoverableLossPct :: "u64 \<Rightarrow> u64 \<Rightarrow> u64 \<Rightarrow> u64 \<times> f64" where
  "unrecoverableLossPct dLost dRetrans packetsExpected =
     (let unrecovered = (if dRetrans < dLost then dLost - dRetrans else 0)
      in (unrecovered, loss_share unrecovered packetsExpected))"

text \<open>The local variables of \<open>runReceiveStatsSummary\<close>.\<close>

record conn_stats =
  cs_sampler :: sampler
  cs_lossTracker :: loss_tracker
  cs_recycleTracker :: loss_tracker
  cs_lastRetrans :: u64
  cs_lastDrop :: u64
  cs_lastDup :: u64
  cs_lastLoss :: u64

definition start_stats :: "int \<Rightarrow> srt_stats \<Rightarrow> conn_stats" where
  "start_stats now st =
     \<lparr>cs_sampler = fst (recv_Sample (ByteRecv st) (PktRecv st) (PktRecvLoss st) now new_sampler),
      cs_lossTracker = new_tracker, cs_recycleTracker = new_tracker,
      cs_lastRetrans = PktRecvRetrans st, cs_lastDrop = PktRecvDrop st,
      cs_lastDup = PktRecvDuplicate st, cs_lastLoss = PktRecvLoss st\<rparr>"

text \<open>\<open>haveUnrecovered\<close> and \<open>unrecoveredPct\<close>: no figure when a counter went backwards.\<close>

definition tick_loss :: "srt_stats \<Rightarrow> snapshot \<Rightarrow> conn_stats \<Rightarrow> f64 option" where
  "tick_loss st snap c =
     (if cs_lastRetrans c \<le> PktRecvRetrans st \<and> cs_lastDrop c \<le> PktRecvDrop st \<and>
         cs_lastDup c \<le> PktRecvDuplicate st \<and> cs_lastLoss c \<le> PktRecvLoss st
      then Some (snd (unrecoverableLossPct (PktRecvLoss st - cs_lastLoss c)
             (PktRecvRetrans st - cs_lastRetrans c) (PacketsExpected snap)))
      else None)"

datatype close_cause = LossDisconnect | LossRecycle | LatencyRaised

datatype srt_eff =
    ReportSRTLoss string f64 f64 int
  | ReportSRTLossSample string f64 f64 f64
  | CloseConn string close_cause
  | SetLatency string int
  | PushExecutor conn degrade_msg
  | Interrupted string int

text \<open>\<^verbatim>\<open>int(d.Seconds())\<close>: the conversion truncates.\<close>

definition f64_to_int :: "f64 \<Rightarrow> int" where
  "f64_to_int x = (if 0 \<le> x then \<lfloor>x\<rfloor> else \<lceil>x\<rceil>)"

text \<open>The latency tuner is fed unless the path is idle or the degrade protocol owns the latency.\<close>

definition tune_latency ::
  "srt_server \<Rightarrow> string \<Rightarrow> f64 option \<Rightarrow> snapshot \<Rightarrow> lat_manager \<Rightarrow> lat_manager \<times> bool" where
  "tune_latency s p pct snap m =
     (case (latency_config s, pct) of
        (Some cfg, Some u) \<Rightarrow>
          if 0 < PacketsExpected snap \<and> \<not> srv_DegradeEnable s then lat_Record cfg p u m else (m, False)
      | _ \<Rightarrow> (m, False))"

definition alarm_tier ::
  "srt_server \<Rightarrow> string \<Rightarrow> int \<Rightarrow> f64 option \<Rightarrow> snapshot \<Rightarrow> loss_tracker \<Rightarrow> loss_tracker \<times> srt_eff list \<times> bool" where
  "alarm_tier s p now pct snap t =
     (case pct of
        None \<Rightarrow> (t, [], False)
      | Some u \<Rightarrow>
          if srv_LossAlarmEnable s \<or> srv_LossDisconnectEnable s then
            (let (t', d) = tracker_Update u (srv_LossAlarmThresholdPct s) (srv_LossDisconnectEnable s)
                             (duration_of_seconds (srv_LossDisconnectSec s)) now t
             in (t', if srv_LossAlarmEnable s \<and> ShouldReport d \<and> srv_LossAlarmReporter s
                     then [ReportSRTLoss p u (BitrateBps snap) (f64_to_int (duration_Seconds (Sustained d)))]
                     else [],
                 ShouldDisconnect d))
          else (t, [], False))"

definition recycle_tier :: "srt_server \<Rightarrow> int \<Rightarrow> f64 option \<Rightarrow> loss_tracker \<Rightarrow> loss_tracker \<times> bool" where
  "recycle_tier s now pct t =
     (case pct of
        None \<Rightarrow> (t, False)
      | Some u \<Rightarrow>
          if srv_LossRecycleEnable s then
            (let (t', d) = tracker_Update u (srv_LossRecycleThresholdPct s) True
                             (duration_of_seconds (srv_LossRecycleSec s)) now t
             in (t', ShouldDisconnect d))
          else (t, False))"

definition sample_report :: "srt_server \<Rightarrow> string \<Rightarrow> f64 option \<Rightarrow> snapshot \<Rightarrow> srt_eff list" where
  "sample_report s p pct snap =
     (case pct of
        Some u \<Rightarrow>
          if srv_LossSampleReporter s
          then [ReportSRTLossSample p (let r = f64_sub (LossPct snap) u in if r < 0 then 0 else r) u (BitrateBps snap)]
          else []
      | None \<Rightarrow> [])"

text \<open>
  One tick of \<open>runReceiveStatsSummary\<close>. The flag says whether the loop goes on; the trackers of a
  tier that is not reached keep their state.
\<close>

definition stats_tick ::
  "srt_server \<Rightarrow> string \<Rightarrow> int \<Rightarrow> srt_stats \<Rightarrow> conn_stats \<times> lat_manager \<Rightarrow>
   (conn_stats \<times> lat_manager) \<times> srt_eff list \<times> bool" where
  "stats_tick s p now st = (\<lambda>(c, m).
     (case recv_Sample (ByteRecv st) (PktRecv st) (PktRecvLoss st) now (cs_sampler c) of
        (smp, None) \<Rightarrow> ((c\<lparr>cs_sampler := smp\<rparr>, m), [], True)
      | (smp, Some snap) \<Rightarrow>
          (let pct = tick_loss st snap c;
               (m1, raised) = tune_latency s p pct snap m;
               (t1, e1, disconnect) = alarm_tier s p now pct snap (cs_lossTracker c);
               c1 = c\<lparr>cs_sampler := smp, cs_lastRetrans := PktRecvRetrans st, cs_lastDrop := PktRecvDrop st,
                      cs_lastDup := PktRecvDuplicate st, cs_lastLoss := PktRecvLoss st, cs_lossTracker := t1\<rparr>
           in if disconnect then ((c1, m1), e1 @ [CloseConn p LossDisconnect], False)
              else
                let (t2, recycle) = recycle_tier s now pct (cs_recycleTracker c);
                    c2 = c1\<lparr>cs_recycleTracker := t2\<rparr>
                in if recycle then ((c2, m1), e1 @ [CloseConn p LossRecycle], False)
                   else
                     let e2 = e1 @ sample_report s p pct snap
                     in if raised
                        then ((c2, case latency_config s of
                                     Some cfg \<Rightarrow> MarkRaiseClose cfg p now m1 | None \<Rightarrow> m1),
                              e2 @ [CloseConn p LatencyRaised], False)
                        else ((c2, m1), e2, True))))"

section \<open>The sampling tick\<close>

record unrecoverableAccumulator =
  acc_seeded :: bool
  acc_lastLoss :: u64
  acc_lastRetrans :: u64
  acc_lastRecv :: u64
  unrecoverable :: u64
  expected :: u64

definition new_acc :: unrecoverableAccumulator where
  "new_acc = \<lparr>acc_seeded = False, acc_lastLoss = 0, acc_lastRetrans = 0, acc_lastRecv = 0,
              unrecoverable = 0, expected = 0\<rparr>"

definition acc_add ::
  "u64 \<Rightarrow> u64 \<Rightarrow> u64 \<Rightarrow> unrecoverableAccumulator \<Rightarrow> unrecoverableAccumulator \<times> bool" where
  "acc_add curLoss curRetrans curRecv a =
     (let a' = a\<lparr>acc_lastLoss := curLoss, acc_lastRetrans := curRetrans, acc_lastRecv := curRecv\<rparr> in
      if \<not> acc_seeded a then (a'\<lparr>acc_seeded := True\<rparr>, True)
      else if curLoss < acc_lastLoss a \<or> curRetrans < acc_lastRetrans a \<or> curRecv < acc_lastRecv a then (a', False)
      else
        let dLost = curLoss - acc_lastLoss a;
            dRetrans = curRetrans - acc_lastRetrans a;
            dRecv = curRecv - acc_lastRecv a
        in (a'\<lparr>unrecoverable := (if dRetrans < dLost then unrecoverable a + (dLost - dRetrans) else unrecoverable a),
               expected := expected a + (dLost + dRecv)\<rparr>, True))"

definition degrade_thresholds :: "srt_server \<Rightarrow> thresholds" where
  "degrade_thresholds s =
     \<lparr>RaisePct = srv_DegradeRaisePct s, LowerPct = srv_DegradeLowerPct s,
      RestartPct = srv_DegradeRestartPct s, ObservationSec = srv_DegradeObservationSec s\<rparr>"

text \<open>What a tick does to the latency, by the action of the ladder.\<close>

definition follow_action ::
  "srt_server \<Rightarrow> string \<Rightarrow> int \<Rightarrow> action \<Rightarrow> lat_manager \<Rightarrow> lat_manager \<times> srt_eff list" where
  "follow_action s p now act m =
     (case latency_config s of
        None \<Rightarrow> (m, [])
      | Some cfg \<Rightarrow>
          if act = ActionRestart then
            (let (m1, raised) = AdjustLatency cfg p True (srv_DegradeRaiseLatencyStep s)
                                  (srv_DegradeLatencyMin s) (srv_DegradeLatencyMax s) m
             in if raised then (MarkRaiseClose cfg p now m1, [CloseConn p LatencyRaised]) else (m1, []))
          else if act = ActionRecover then
            (fst (AdjustLatency cfg p False (srv_DegradeLowerLatencyStep s)
                    (srv_DegradeLatencyMin s) (srv_DegradeLatencyMax s) m), [])
          else (m, []))"

definition push_effects :: "pushes \<Rightarrow> srt_eff list" where
  "push_effects out = map (\<lambda>(c, msg). PushExecutor c msg) out"

definition degrade_tick ::
  "srt_server \<Rightarrow> string \<Rightarrow> int \<Rightarrow> srt_stats \<Rightarrow> unrecoverableAccumulator \<times> degrade_manager \<times> lat_manager \<Rightarrow>
   (unrecoverableAccumulator \<times> degrade_manager \<times> lat_manager) \<times> srt_eff list" where
  "degrade_tick s p now st = (\<lambda>(a, dm, m).
     (case acc_add (PktRecvLoss st) (PktRecvRetrans st) (PktRecv st) a of
        (a1, False) \<Rightarrow> ((a1, dm, m), [])
      | (a1, True) \<Rightarrow>
          (let (dm1, out, act) = RecordSample now dm p (unrecoverable a1) (expected a1) (degrade_thresholds s);
               (m1, e) = follow_action s p now act m
           in ((a1, dm1, m1), push_effects out @ e))))"

section \<open>The server\<close>

text \<open>
  The publishers of a server, by connection, over the shared managers. Every tick of every connection
  and every handshake is an event; they come in any order. \<open>SrtHandshake\<close> is the new connection
  request of \<open>run\<close> (with the path of the stream identifier, when it parses), \<open>SrtPublish\<close> the start of
  a publisher in \<open>runPublishReader\<close>.
\<close>

record srt_pub =
  pub_path :: string
  pub_stats :: conn_stats
  pub_acc :: unrecoverableAccumulator

record srt_state =
  lats :: lat_manager
  degs :: degrade_manager
  pubs :: "nat \<rightharpoonup> srt_pub"

datatype srt_event =
    SrtHandshake "string option"
  | SrtPublish nat string int srt_stats int
  | SrtStatsTick nat int srt_stats
  | SrtDegradeTick nat int srt_stats
  | SrtGone nat

definition srt_handshake :: "srt_server \<Rightarrow> string option \<Rightarrow> srt_state \<Rightarrow> srt_state \<times> srt_eff list" where
  "srt_handshake s sid st =
     (case (latency_config s, sid) of
        (Some cfg, Some p) \<Rightarrow> (let (m, l) = LatencyFor cfg p (lats st) in (st\<lparr>lats := m\<rparr>, [SetLatency p l]))
      | _ \<Rightarrow> (st, []))"

definition srt_publish :: "srt_server \<Rightarrow> nat \<Rightarrow> string \<Rightarrow> int \<Rightarrow> srt_stats \<Rightarrow> int \<Rightarrow> srt_state \<Rightarrow> srt_state \<times> srt_eff list" where
  "srt_publish s c p now stats videoLayers st =
     (let (m, gap) = (if latency_config s = None then (lats st, None) else TakeRaiseCloseGap p now (lats st));
          (dm, out) = (if srv_DegradeEnable s then ObserveSessionLayers (degs st) p videoLayers else (degs st, []))
      in (st\<lparr>lats := m, degs := dm,
             pubs := (pubs st)(c \<mapsto> \<lparr>pub_path = p, pub_stats = start_stats now stats, pub_acc = new_acc\<rparr>)\<rparr>,
          (case gap of Some g \<Rightarrow> [Interrupted p g] | None \<Rightarrow> []) @ push_effects out))"

fun srt_step :: "srt_server \<Rightarrow> srt_event \<Rightarrow> srt_state \<Rightarrow> srt_state \<times> srt_eff list" where
  "srt_step s (SrtHandshake sid) st = srt_handshake s sid st"
| "srt_step s (SrtPublish c p now stats n) st = srt_publish s c p now stats n st"
| "srt_step s (SrtStatsTick c now stats) st =
     (case pubs st c of
        None \<Rightarrow> (st, [])
      | Some pb \<Rightarrow>
          (let ((cs, m), e, _) = stats_tick s (pub_path pb) now stats (pub_stats pb, lats st)
           in (st\<lparr>lats := m, pubs := (pubs st)(c \<mapsto> pb\<lparr>pub_stats := cs\<rparr>)\<rparr>, e)))"
| "srt_step s (SrtDegradeTick c now stats) st =
     (case pubs st c of
        None \<Rightarrow> (st, [])
      | Some pb \<Rightarrow>
          if srv_DegradeEnable s then
            (let ((a, dm, m), e) = degrade_tick s (pub_path pb) now stats (pub_acc pb, degs st, lats st)
             in (st\<lparr>lats := m, degs := dm, pubs := (pubs st)(c \<mapsto> pb\<lparr>pub_acc := a\<rparr>)\<rparr>, e))
          else (st, []))"
| "srt_step s (SrtGone c) st = (st\<lparr>pubs := (pubs st)(c := None)\<rparr>, [])"

definition srt_start :: srt_state where
  "srt_start = \<lparr>lats = (\<lambda>_. None), degs = (\<lambda>_. None), pubs = (\<lambda>_. None)\<rparr>"

section \<open>The latency stays in its range\<close>

text \<open>
  What \<open>Validate\<close> and \<open>lat_config_ok\<close> leave: the initial latency is not checked against the upper end
  of the range, nor against the range of the degrade protocol.
\<close>

definition srt_lat_ok :: "srt_server \<Rightarrow> bool" where
  "srt_lat_ok s \<longleftrightarrow> (\<forall>cfg. latency_config s = Some cfg \<longrightarrow> lat_config_ok cfg)"

definition lats_ok :: "srt_server \<Rightarrow> lat_manager \<Rightarrow> bool" where
  "lats_ok s m \<longleftrightarrow> (\<forall>cfg. latency_config s = Some cfg \<longrightarrow> lat_inv cfg m)"

text \<open>The effects of one step, seen from the latency: what it sets and when it closes.\<close>

definition lat_effects_ok :: "srt_server \<Rightarrow> lat_manager \<Rightarrow> lat_manager \<Rightarrow> srt_eff list \<Rightarrow> bool" where
  "lat_effects_ok s m m' e \<longleftrightarrow>
     (\<forall>p l. SetLatency p l \<in> set e \<longrightarrow> (\<exists>cfg. latency_config s = Some cfg \<and> in_range cfg l)) \<and>
     (\<forall>p. CloseConn p LatencyRaised \<in> set e \<longrightarrow>
        (\<exists>cfg. latency_config s = Some cfg \<and> latency_of cfg p m < latency_of cfg p m' \<and>
               latency_of cfg p m' \<le> lat_Max cfg))"

lemma tune_latency_ok:
  assumes "srt_lat_ok s" "lats_ok s m" "tune_latency s p pct snap m = (m', raised)"
  shows "lats_ok s m'"
    "raised \<Longrightarrow> \<exists>cfg. latency_config s = Some cfg \<and> latency_of cfg p m < latency_of cfg p m'"
proof -
  have "lats_ok s m' \<and> (raised \<longrightarrow>
      (\<exists>cfg. latency_config s = Some cfg \<and> latency_of cfg p m < latency_of cfg p m'))"
  proof (cases "\<exists>cfg u. latency_config s = Some cfg \<and> lat_Record cfg p u m = (m', raised)")
    case True
    then obtain cfg u where cfg: "latency_config s = Some cfg" "lat_Record cfg p u m = (m', raised)" by blast
    with assms have "lat_config_ok cfg" "lat_inv cfg m" by (auto simp: srt_lat_ok_def lats_ok_def)
    from lat_inv_Record [OF this, of p u] cfg
      record_tuner.tuned [of cfg p u m] record_tuner.raised_iff [of cfg p u m]
    show ?thesis by (auto simp: lats_ok_def)
  next
    case False
    with assms(3) have "m' = m \<and> \<not> raised"
      by (auto simp: tune_latency_def split: option.splits if_splits)
    with assms(2) show ?thesis by simp
  qed
  then show "lats_ok s m'"
    "raised \<Longrightarrow> \<exists>cfg. latency_config s = Some cfg \<and> latency_of cfg p m < latency_of cfg p m'" by blast+
qed

lemma lats_ok_mark:
  assumes "srt_lat_ok s" "lats_ok s m" "latency_config s = Some cfg"
  shows "lats_ok s (MarkRaiseClose cfg p now m)"
    "latency_of cfg q (MarkRaiseClose cfg p now m) = latency_of cfg q m"
  using assms lat_inv_MarkRaiseClose [of cfg m] by (auto simp: srt_lat_ok_def lats_ok_def)

lemma lats_ok_range:
  "srt_lat_ok s \<Longrightarrow> lats_ok s m \<Longrightarrow> latency_config s = Some cfg \<Longrightarrow> in_range cfg (latency_of cfg p m)"
  using lat_inv_latency by (auto simp: srt_lat_ok_def lats_ok_def)

lemma tier_effects:
  assumes "alarm_tier s p now pct snap t = (t', e, d)" "x \<in> set (e @ sample_report s p pct snap)"
  shows "x \<noteq> CloseConn q c \<and> x \<noteq> SetLatency q l"
  using assms
  by (auto simp: alarm_tier_def sample_report_def Let_def split: option.splits if_splits prod.splits)

lemma stats_tick_ok:
  assumes "srt_lat_ok s" "lats_ok s m" "stats_tick s p now st (c, m) = ((c', m'), e, go)"
  shows "lats_ok s m' \<and> lat_effects_ok s m m' e"
proof (cases "snd (recv_Sample (ByteRecv st) (PktRecv st) (PktRecvLoss st) now (cs_sampler c))")
  case None
  with assms(2,3) show ?thesis by (auto simp: stats_tick_def lat_effects_ok_def split: prod.splits)
next
  case (Some snap)
  let ?pct = "tick_loss st snap c"
  obtain smp where smp: "recv_Sample (ByteRecv st) (PktRecv st) (PktRecvLoss st) now (cs_sampler c) = (smp, Some snap)"
    using Some by (metis prod.collapse)
  obtain m1 raised where m1: "tune_latency s p ?pct snap m = (m1, raised)" by force
  obtain t1 e1 d where al: "alarm_tier s p now ?pct snap (cs_lossTracker c) = (t1, e1, d)"
    using prod_cases3 by blast
  obtain t2 r where rc: "recycle_tier s now ?pct (cs_recycleTracker c) = (t2, r)" by force
  note ok = tune_latency_ok [OF assms(1,2) m1]
  note silent = tier_effects [OF al]
  consider (stay) "m' = m1" "set e \<subseteq> set (e1 @ sample_report s p ?pct snap) \<union> {CloseConn p LossDisconnect, CloseConn p LossRecycle}"
    | (raise) cfg where "raised" "latency_config s = Some cfg" "m' = MarkRaiseClose cfg p now m1"
        "e = e1 @ sample_report s p ?pct snap @ [CloseConn p LatencyRaised]"
    using assms(3) ok(2)
    by (auto simp: stats_tick_def smp m1 al rc Let_def split: if_splits option.splits) blast+
  then show ?thesis
  proof cases
    case stay
    then show ?thesis using ok(1) silent by (fastforce simp: lat_effects_ok_def)
  next
    case raise
    have up: "latency_of cfg p m < latency_of cfg p m1" using ok(2) raise(1,2) by auto
    have m': "lats_ok s m'" "latency_of cfg p m' = latency_of cfg p m1"
      using lats_ok_mark [OF assms(1) ok(1) raise(2)] raise(3) by simp_all
    have "latency_of cfg p m' \<le> lat_Max cfg"
      using lats_ok_range [OF assms(1) m'(1) raise(2), of p] by (simp add: in_range_def)
    then show ?thesis
      using m' up raise(2,4) silent by (fastforce simp: lat_effects_ok_def)
  qed
qed

lemma adjust_ok:
  assumes "srt_lat_ok s" "lats_ok s m" "latency_config s = Some cfg" "srv_DegradeEnable s"
  shows "lats_ok s (fst (AdjustLatency cfg p True (srv_DegradeRaiseLatencyStep s)
           (srv_DegradeLatencyMin s) (srv_DegradeLatencyMax s) m))"
    "lats_ok s (fst (AdjustLatency cfg p False (srv_DegradeLowerLatencyStep s)
           (srv_DegradeLatencyMin s) (srv_DegradeLatencyMax s) m))"
proof -
  have cfg: "lat_config_ok cfg" "lat_inv cfg m" using assms by (auto simp: srt_lat_ok_def lats_ok_def)
  have eqs: "srv_DegradeRaiseLatencyStep s = lat_RaiseStep cfg" "srv_DegradeLowerLatencyStep s = lat_Step cfg"
    "srv_DegradeLatencyMin s = lat_Min cfg" "srv_DegradeLatencyMax s = lat_Max cfg"
    using assms(3,4) by (auto simp: latency_config_def split: if_splits)
  note val = adjusted_value [OF cfg(1) lat_inv_latency [OF cfg, of p]]
  have "lat_inv cfg (fst (AdjustLatency cfg p True (lat_RaiseStep cfg) (lat_Min cfg) (lat_Max cfg) m))"
    "lat_inv cfg (fst (AdjustLatency cfg p False (lat_Step cfg) (lat_Min cfg) (lat_Max cfg) m))"
    by (intro adjust_tuner.keeps_inv [OF cfg(2,1)];
        use cfg lat_inv_latency [OF cfg, of p] in \<open>auto simp: val in_range_def lat_config_ok_def\<close>)+
  then show "lats_ok s (fst (AdjustLatency cfg p True (srv_DegradeRaiseLatencyStep s)
           (srv_DegradeLatencyMin s) (srv_DegradeLatencyMax s) m))"
    "lats_ok s (fst (AdjustLatency cfg p False (srv_DegradeLowerLatencyStep s)
           (srv_DegradeLatencyMin s) (srv_DegradeLatencyMax s) m))"
    using assms(3) by (auto simp: lats_ok_def eqs)
qed

lemma follow_action_ok:
  assumes "srt_lat_ok s" "lats_ok s m" "srv_DegradeEnable s" "follow_action s p now act m = (m', e)"
  shows "lats_ok s m' \<and> lat_effects_ok s m m' e"
proof (cases "latency_config s")
  case None
  with assms(2,4) show ?thesis by (auto simp: follow_action_def lat_effects_ok_def)
next
  case (Some cfg)
  note adj = adjust_ok [OF assms(1,2) Some assms(3)]
  obtain m1 raised where up: "AdjustLatency cfg p True (srv_DegradeRaiseLatencyStep s)
      (srv_DegradeLatencyMin s) (srv_DegradeLatencyMax s) m = (m1, raised)" by force
  have m1: "lats_ok s m1" "raised \<Longrightarrow> latency_of cfg p m < latency_of cfg p m1"
    using adj(1) up adjust_tuner.raised_iff [of cfg p True _ _ _ m]
      adjust_tuner.tuned [of cfg p True _ _ _ m] by (metis fst_conv snd_conv)+
  note mark = lats_ok_mark(1) [OF assms(1) m1(1) Some, of p now] lats_ok_mark(2) [OF assms(1) m1(1) Some, of p p now]
  have "latency_of cfg p (MarkRaiseClose cfg p now m1) \<le> lat_Max cfg"
    using lats_ok_range [OF assms(1) mark(1) Some] by (simp add: in_range_def)
  then show ?thesis
    using assms(2,4) Some up adj(2) m1 mark by (auto simp: follow_action_def lat_effects_ok_def split: if_splits)
qed

lemma degrade_tick_ok:
  assumes "srt_lat_ok s" "lats_ok s m" "srv_DegradeEnable s"
    "degrade_tick s p now st (a, dm, m) = ((a', dm', m'), e)"
  shows "lats_ok s m' \<and> lat_effects_ok s m m' e"
proof -
  obtain a1 fed where a1: "acc_add (PktRecvLoss st) (PktRecvRetrans st) (PktRecv st) a = (a1, fed)" by force
  obtain dm1 out act where rec: "RecordSample now dm p (unrecoverable a1) (expected a1) (degrade_thresholds s)
      = (dm1, out, act)" using prod_cases3 by blast
  obtain m1 e1 where fo: "follow_action s p now act m = (m1, e1)" by force
  show ?thesis
  proof (cases fed)
    case True
    with assms(4) a1 rec fo have "m' = m1" "e = push_effects out @ e1" by (auto simp: degrade_tick_def)
    then show ?thesis
      using follow_action_ok [OF assms(1-3) fo] by (auto simp: lat_effects_ok_def push_effects_def)
  next
    case False
    with assms(2,4) a1 show ?thesis by (auto simp: degrade_tick_def lat_effects_ok_def)
  qed
qed

lemma srt_handshake_ok:
  assumes "srt_lat_ok s" "lats_ok s (lats st)" "srt_handshake s sid st = (st', e)"
  shows "lats_ok s (lats st') \<and> lat_effects_ok s (lats st) (lats st') e"
proof (cases "\<exists>cfg p. latency_config s = Some cfg \<and> sid = Some p")
  case True
  then obtain cfg p where cfg: "latency_config s = Some cfg" "sid = Some p" by blast
  with assms have ok: "lat_config_ok cfg" "lat_inv cfg (lats st)" by (auto simp: srt_lat_ok_def lats_ok_def)
  show ?thesis
    using assms(3) cfg lat_inv_LatencyFor [OF ok, of p] lat_inv_latency [OF ok, of p]
    by (auto simp: srt_handshake_def lats_ok_def lat_effects_ok_def split: prod.splits)
next
  case False
  with assms show ?thesis by (auto simp: srt_handshake_def lat_effects_ok_def split: option.splits)
qed

lemma srt_publish_ok:
  assumes "lats_ok s (lats st)" "srt_publish s c p now stats n st = (st', e)"
  shows "lats_ok s (lats st') \<and> lat_effects_ok s (lats st) (lats st') e"
  using assms lat_inv_TakeGap(1) [of _ "lats st" p now]
  by (auto simp: srt_publish_def lats_ok_def lat_effects_ok_def push_effects_def Let_def
      split: prod.splits if_splits option.splits)

lemma srt_step_ok:
  assumes "srt_lat_ok s" "lats_ok s (lats st)" "srt_step s ev st = (st', e)"
  shows "lats_ok s (lats st') \<and> lat_effects_ok s (lats st) (lats st') e"
proof (cases ev)
  case (SrtHandshake sid)
  with assms srt_handshake_ok show ?thesis by simp
next
  case (SrtPublish c p now stats n)
  with assms(2,3) srt_publish_ok show ?thesis by simp
next
  case (SrtStatsTick c now stats)
  show ?thesis
  proof (cases "pubs st c")
    case None
    with assms SrtStatsTick show ?thesis by (simp add: lat_effects_ok_def)
  next
    case (Some pb)
    obtain cs m go where "stats_tick s (pub_path pb) now stats (pub_stats pb, lats st) = ((cs, m), e, go)"
      and "lats st' = m"
      using assms(3) SrtStatsTick Some by (auto split: prod.splits)
    with stats_tick_ok [OF assms(1,2)] show ?thesis by blast
  qed
next
  case (SrtDegradeTick c now stats)
  show ?thesis
  proof (cases "pubs st c = None \<or> \<not> srv_DegradeEnable s")
    case True
    with assms SrtDegradeTick show ?thesis by (auto simp: lat_effects_ok_def split: option.splits)
  next
    case False
    then obtain pb where "pubs st c = Some pb" "srv_DegradeEnable s" by auto
    then obtain a dm m where "degrade_tick s (pub_path pb) now stats (pub_acc pb, degs st, lats st) = ((a, dm, m), e)"
      and "lats st' = m"
      using assms(3) SrtDegradeTick by (auto split: prod.splits)
    with degrade_tick_ok [OF assms(1,2) \<open>srv_DegradeEnable s\<close>] show ?thesis by blast
  qed
next
  case (SrtGone c)
  with assms show ?thesis by (auto simp: lat_effects_ok_def)
qed

interpretation srt_lats: step_machine "\<lambda>st. srt_lat_ok s \<and> lats_ok s (lats st)" "srt_step s" for s
  by unfold_locales (use srt_step_ok in blast)

lemma lats_ok_start: "lats_ok s (lats srt_start)"
  by (simp add: lats_ok_def lat_inv_def srt_start_def)

section \<open>What the ladder is fed\<close>

text \<open>
  The reference for the accumulator: the unrecovered and the expected packets between two successive
  readings (loss, retransmissions, received), as numbers without wrap-around. A reading below its
  predecessor only moves the baseline.
\<close>

type_synonym reading = "u64 \<times> u64 \<times> u64"

fun went_back :: "reading \<Rightarrow> reading \<Rightarrow> bool" where
  "went_back (l, r, v) (l', r', v') \<longleftrightarrow> l' < l \<or> r' < r \<or> v' < v"

fun tick_unrecovered :: "reading \<Rightarrow> reading \<Rightarrow> nat" where
  "tick_unrecovered (l, r, v) (l', r', v') = (unat l' - unat l) - (unat r' - unat r)"

fun tick_expected :: "reading \<Rightarrow> reading \<Rightarrow> nat" where
  "tick_expected (l, r, v) (l', r', v') = (unat l' - unat l) + (unat v' - unat v)"

fun tick_samples :: "reading \<Rightarrow> (int \<times> reading) list \<Rightarrow> (int \<times> nat \<times> nat) list" where
  "tick_samples prev [] = []"
| "tick_samples prev ((now, cur) # rs) =
     (if went_back prev cur then [] else [(now, tick_unrecovered prev cur, tick_expected prev cur)])
     @ tick_samples cur rs"

definition total_expected :: "(int \<times> nat \<times> nat) list \<Rightarrow> nat" where
  "total_expected ss = sum_list (map (\<lambda>(_, _, y). y) ss)"

definition to_sample :: "int \<times> nat \<times> nat \<Rightarrow> sample" where
  "to_sample = (\<lambda>(now, x, y). (now, of_nat x, of_nat y))"

text \<open>The loop of \<open>runDegradeSampling\<close>: one \<open>degrade_tick\<close> per tick of its timer.\<close>

fun degrade_run ::
  "srt_server \<Rightarrow> string \<Rightarrow> (int \<times> srt_stats) list \<Rightarrow> unrecoverableAccumulator \<times> degrade_manager \<times> lat_manager \<Rightarrow>
   (unrecoverableAccumulator \<times> degrade_manager \<times> lat_manager) \<times> srt_eff list" where
  "degrade_run s p [] x = (x, [])"
| "degrade_run s p ((now, st) # ticks) x =
     (let (x1, e1) = degrade_tick s p now st x; (x2, e2) = degrade_run s p ticks x1 in (x2, e1 @ e2))"

definition reading_of :: "srt_stats \<Rightarrow> reading" where
  "reading_of st = (PktRecvLoss st, PktRecvRetrans st, PktRecv st)"

definition readings :: "(int \<times> srt_stats) list \<Rightarrow> (int \<times> reading) list" where
  "readings ticks = map (\<lambda>(now, st). (now, reading_of st)) ticks"

text \<open>The reference: the ladder is given the packets of every tick themselves.\<close>

fun exact_run ::
  "srt_server \<Rightarrow> string \<Rightarrow> sample list \<Rightarrow> degrade_state \<times> lat_manager \<Rightarrow>
   (degrade_state \<times> lat_manager) \<times> srt_eff list" where
  "exact_run s p [] x = (x, [])"
| "exact_run s p ((now, x, y) # ss) (d, m) =
     (let (d1, out, act) = recordSample now x y (degrade_thresholds s) d;
          (m1, e) = follow_action s p now act m;
          (r, e') = exact_run s p ss (d1, m1)
      in (r, push_effects out @ e @ e'))"

text \<open>The ladder does not look at the baseline of its counters.\<close>

definition rebase :: "u64 \<Rightarrow> u64 \<Rightarrow> degrade_state \<Rightarrow> degrade_state" where
  "rebase u y d = d\<lparr>lastUnrecov := u, lastTotal := y\<rparr>"

lemma rebase_rebase [simp]: "rebase u y (rebase u' y' d) = rebase u y d"
  by (simp add: rebase_def)

lemma degrade_rebase:
  "degrade now al (rebase u y d) = (let (d', out, r) = degrade now al d in (rebase u y d', out, r))"
  by (auto simp: degrade_def rebase_def pushTargetStateLocked_def pushLocked_def target_state_def Let_def
      split: option.splits)

lemma recover_rebase: "recover (rebase u y d) = (let (d', out) = recover d in (rebase u y d', out))"
  by (auto simp: recover_def rebase_def pushTargetStateLocked_def pushLocked_def target_state_def Let_def
      split: option.splits)

lemma touch_rebase: "touch_sample now (rebase u y d) = rebase u y (touch_sample now d)"
  by (auto simp: touch_sample_def rebase_def Let_def split: option.splits)

lemma rebase_fields [simp]:
  "goodSince (rebase u y d) = goodSince d" "degradeCooldownUntil (rebase u y d) = degradeCooldownUntil d"
  "lastUnrecov (rebase u y d) = u" "lastTotal (rebase u y d) = y" "haveLastCum (rebase u y d) = haveLastCum d"
  "(rebase u y d)\<lparr>goodSince := g\<rparr> = rebase u y (d\<lparr>goodSince := g\<rparr>)"
  "(rebase u y d)\<lparr>degradeCooldownUntil := g\<rparr> = rebase u y (d\<lparr>degradeCooldownUntil := g\<rparr>)"
  by (simp_all add: rebase_def)

lemma recordSample_rebase:
  "recordSample now x z t (rebase u y d) =
     (let (d', out, act) = recordSample now x z t d in (rebase u y d', out, act))"
  by (simp add: recordSample_def touch_rebase degrade_rebase recover_rebase Let_def split: option.splits prod.splits)

lemma exact_run_rebase:
  "exact_run s p ss (rebase u y d, m) =
     (let ((d', m'), e) = exact_run s p ss (d, m) in ((rebase u y d', m'), e))"
proof (induction ss arbitrary: d m)
  case (Cons a ss)
  obtain now x z where a: "a = (now, x, z)" by (cases a)
  obtain d1 out act where r: "recordSample now x z (degrade_thresholds s) d = (d1, out, act)"
    using prod_cases3 by blast
  obtain m1 e where f: "follow_action s p now act m = (m1, e)" by force
  from Cons.IH [of d1 m1] show ?case
    by (simp add: a r f recordSample_rebase Let_def split: prod.splits)
qed (simp add: Let_def)

text \<open>\<open>follows a prev d\<close>: the baseline of the path is the accumulator, whose last reading is \<open>prev\<close>.\<close>

definition follows :: "unrecoverableAccumulator \<Rightarrow> reading \<Rightarrow> degrade_state \<Rightarrow> bool" where
  "follows a prev d \<longleftrightarrow>
     acc_seeded a \<and> (acc_lastLoss a, acc_lastRetrans a, acc_lastRecv a) = prev \<and> haveLastCum d \<and>
     lastUnrecov d = unrecoverable a \<and> lastTotal d = expected a \<and> unrecoverable a \<le> expected a"

lemma unrecovered_le: "tick_unrecovered prev cur \<le> tick_expected prev cur"
  by (cases prev; cases cur) simp

lemma acc_add_reset:
  assumes "follows a prev d" "went_back prev (l, r, v)"
  obtains a1 where "acc_add l r v a = (a1, False)" "follows a1 (l, r, v) d"
    "unrecoverable a1 = unrecoverable a" "expected a1 = expected a"
proof (rule that)
  let ?a = "a\<lparr>acc_lastLoss := l, acc_lastRetrans := r, acc_lastRecv := v\<rparr>"
  show "acc_add l r v a = (?a, False)" "follows ?a (l, r, v) d" "unrecoverable ?a = unrecoverable a"
    "expected ?a = expected a"
    using assms by (auto simp: acc_add_def follows_def Let_def)
qed

lemma acc_add_delta:
  assumes "follows a prev d" "\<not> went_back prev (l, r, v)"
    and "unat (expected a) + tick_expected prev (l, r, v) < 2 ^ 64"
  obtains a1 where "acc_add l r v a = (a1, True)" "acc_seeded a1"
    "(acc_lastLoss a1, acc_lastRetrans a1, acc_lastRecv a1) = (l, r, v)"
    "unat (unrecoverable a1) = unat (unrecoverable a) + tick_unrecovered prev (l, r, v)"
    "unat (expected a1) = unat (expected a) + tick_expected prev (l, r, v)"
proof -
  obtain l0 r0 v0 where prev: "prev = (l0, r0, v0)" by (cases prev)
  have a: "acc_seeded a" "acc_lastLoss a = l0" "acc_lastRetrans a = r0" "acc_lastRecv a = v0"
    "unrecoverable a \<le> expected a" and le: "l0 \<le> l" "r0 \<le> r" "v0 \<le> v"
    using assms(1,2) prev by (auto simp: follows_def not_less)
  have sub: "unat (l - l0) = unat l - unat l0" "unat (r - r0) = unat r - unat r0" "unat (v - v0) = unat v - unat v0"
    using le by (simp_all add: unat_sub)
  have e: "unat (expected a + ((l - l0) + (v - v0))) = unat (expected a) + tick_expected prev (l, r, v)"
    using assms(3) prev by (simp add: unat_word_ariths sub)
  let ?u = "if r - r0 < l - l0 then unrecoverable a + ((l - l0) - (r - r0)) else unrecoverable a"
  have u: "unat ?u = unat (unrecoverable a) + tick_unrecovered prev (l, r, v)"
  proof (cases "r - r0 < l - l0")
    case True
    then have "unat ((l - l0) - (r - r0)) = (unat l - unat l0) - (unat r - unat r0)"
      by (simp add: unat_sub less_imp_le sub)
    moreover have "unat (unrecoverable a) + tick_unrecovered prev (l, r, v) < 2 ^ 64"
      using assms(3) a(5) unrecovered_le [of prev "(l, r, v)"] by (simp add: word_le_nat_alt)
    ultimately show ?thesis using True prev by (simp add: unat_word_ariths)
  next
    case False
    then have "unat l - unat l0 \<le> unat r - unat r0" by (simp add: word_less_nat_alt sub)
    with False prev show ?thesis by simp
  qed
  show ?thesis
  proof (rule that)
    let ?a = "a\<lparr>acc_lastLoss := l, acc_lastRetrans := r, acc_lastRecv := v, unrecoverable := ?u,
      expected := expected a + ((l - l0) + (v - v0))\<rparr>"
    show "acc_add l r v a = (?a, True)" using le a by (auto simp: acc_add_def Let_def not_less)
    show "acc_seeded ?a" "(acc_lastLoss ?a, acc_lastRetrans ?a, acc_lastRecv ?a) = (l, r, v)" using a by simp_all
    show "unat (unrecoverable ?a) = unat (unrecoverable a) + tick_unrecovered prev (l, r, v)" using u by simp
    show "unat (expected ?a) = unat (expected a) + tick_expected prev (l, r, v)" using e by simp
  qed
qed

lemma u64_diff:
  assumes "unat x = unat y + n"
  shows "x - y = (of_nat n :: u64)"
proof -
  have "unat (x - y) = n" using assms by (simp add: unat_sub word_le_nat_alt)
  then show ?thesis by (metis u64_of_len_def u64_of_len_unat)
qed

text \<open>With such a baseline, a sample moves the ladder by exactly the packets of its tick.\<close>

lemma Sample_follows:
  assumes "follows a prev d" "unat (unrecoverable a1) = unat (unrecoverable a) + x"
    "unat (expected a1) = unat (expected a) + y" "x \<le> y"
    "acc_seeded a1" "(acc_lastLoss a1, acc_lastRetrans a1, acc_lastRecv a1) = cur"
    "Sample now (unrecoverable a1) (expected a1) t d = (d1, out, act)"
  obtains d2 where "recordSample now (of_nat x) (of_nat y) t d = (d2, out, act)"
    "d1 = rebase (unrecoverable a1) (expected a1) d2" "follows a1 cur d1"
proof -
  have le: "unrecoverable a \<le> unrecoverable a1" "expected a \<le> expected a1"
    using assms(2,3) by (simp_all add: word_le_nat_alt)
  have deltas: "unrecoverable a1 - unrecoverable a = of_nat x" "expected a1 - expected a = of_nat y"
    using assms(2,3) by (simp_all add: u64_diff)
  obtain d2 where rec: "recordSample now (of_nat x) (of_nat y) t d = (d2, out, act)"
    and d1: "d1 = rebase (unrecoverable a1) (expected a1) d2"
    using assms(1,7) le
    by (auto simp: Sample_def sample_deltas_def follows_def deltas not_less Let_def
        recordSample_rebase rebase_def [symmetric] split: prod.splits if_splits)
  have "haveLastCum d2"
    using rec assms(1)
    by (auto simp: follows_def recordSample_def touch_sample_def degrade_def recover_def Let_def
        split: if_splits option.splits prod.splits)
  moreover have "unrecoverable a1 \<le> expected a1"
    using assms(1-4) by (simp add: follows_def word_le_nat_alt)
  ultimately have "follows a1 cur d1" using assms(5,6) d1 by (simp add: follows_def)
  with rec d1 show ?thesis by (rule that)
qed

lemma degrade_run_exact:
  assumes "follows a prev d" "dm p = Some d"
    "unat (expected a) + total_expected (tick_samples prev (readings ticks)) < 2 ^ 64"
    and "degrade_run s p ticks (a, dm, m) = ((a', dm', m'), e)"
  shows "\<exists>d' u y. exact_run s p (map to_sample (tick_samples prev (readings ticks))) (d, m) = ((d', m'), e) \<and>
    dm' = dm(p \<mapsto> rebase u y d')"
  using assms
proof (induction ticks arbitrary: a prev d dm m e)
  case Nil
  then have "dm' = dm(p \<mapsto> rebase (lastUnrecov d) (lastTotal d) d)" "m' = m" "e = []"
    by (auto simp: rebase_def)
  then show ?case by (auto simp: readings_def)
next
  case (Cons tk ticks)
  obtain now st where tk: "tk = (now, st)" by (cases tk)
  obtain l r v where rd: "reading_of st = (l, r, v)" by (cases "reading_of st")
  then have st: "PktRecvLoss st = l" "PktRecvRetrans st = r" "PktRecv st = v" by (simp_all add: reading_of_def)
  have rds: "readings (tk # ticks) = (now, l, r, v) # readings ticks" by (simp add: readings_def tk rd)
  show ?case
  proof (cases "went_back prev (l, r, v)")
    case True
    from acc_add_reset [OF Cons.prems(1) True] obtain a1 where a1: "acc_add l r v a = (a1, False)"
      "follows a1 (l, r, v) d" "unrecoverable a1 = unrecoverable a" "expected a1 = expected a" by blast
    have "degrade_tick s p now st (a, dm, m) = ((a1, dm, m), [])" by (simp add: degrade_tick_def st a1(1))
    with Cons.prems(4) have "degrade_run s p ticks (a1, dm, m) = ((a', dm', m'), e)"
      by (auto simp: tk split: prod.splits)
    from Cons.IH [OF a1(2) Cons.prems(2) _ this] Cons.prems(3) True show ?thesis by (simp add: rds a1(4))
  next
    case False
    let ?x = "tick_unrecovered prev (l, r, v)" and ?y = "tick_expected prev (l, r, v)"
    have sum: "total_expected (tick_samples prev (readings (tk # ticks))) =
        ?y + total_expected (tick_samples (l, r, v) (readings ticks))"
      using False by (simp add: rds total_expected_def)
    have "unat (expected a) + ?y < 2 ^ 64" using Cons.prems(3) sum by linarith
    from acc_add_delta [OF Cons.prems(1) False this] obtain a1 where a1: "acc_add l r v a = (a1, True)"
      "acc_seeded a1" "(acc_lastLoss a1, acc_lastRetrans a1, acc_lastRecv a1) = (l, r, v)"
      "unat (unrecoverable a1) = unat (unrecoverable a) + ?x" "unat (expected a1) = unat (expected a) + ?y"
      by blast
    obtain d1 out act where smp: "Sample now (unrecoverable a1) (expected a1) (degrade_thresholds s) d = (d1, out, act)"
      using prod_cases3 by blast
    from Sample_follows [OF Cons.prems(1) a1(4,5) unrecovered_le a1(2,3) smp] obtain d2 where
      d2: "recordSample now (of_nat ?x) (of_nat ?y) (degrade_thresholds s) d = (d2, out, act)"
      "d1 = rebase (unrecoverable a1) (expected a1) d2" "follows a1 (l, r, v) d1" by blast
    obtain m1 e1 where fo: "follow_action s p now act m = (m1, e1)" by force
    obtain e2 where run: "degrade_run s p ticks (a1, dm(p \<mapsto> d1), m1) = ((a', dm', m'), e2)"
      "e = push_effects out @ e1 @ e2"
      using Cons.prems(2,4)
      by (auto simp: tk st degrade_tick_def a1(1) RecordSample_def GetOrCreate_def smp fo split: prod.splits)
    have bound: "unat (expected a1) + total_expected (tick_samples (l, r, v) (readings ticks)) < 2 ^ 64"
      using Cons.prems(3) sum a1(5) by simp
    from Cons.IH [OF d2(3) fun_upd_same bound run(1)] obtain d' u y where
      ih: "exact_run s p (map to_sample (tick_samples (l, r, v) (readings ticks))) (d1, m1) = ((d', m'), e2)"
      "dm' = (dm(p \<mapsto> d1))(p \<mapsto> rebase u y d')" by blast
    obtain d3 m3 e3 where r2:
      "exact_run s p (map to_sample (tick_samples (l, r, v) (readings ticks))) (d2, m1) = ((d3, m3), e3)"
      by (metis prod.collapse)
    have "d' = rebase (unrecoverable a1) (expected a1) d3" "m3 = m'" "e3 = e2"
      using ih(1) r2 d2(2) by (auto simp: exact_run_rebase Let_def)
    then show ?thesis
      using ih(2) r2 d2(1) False fo run(2)
      by (intro exI [of _ d3] exI [of _ u] exI [of _ y]) (simp add: rds to_sample_def)
  qed
qed

text \<open>
  The first reading of a connection only resets the baseline of the path: its accumulator is zero, so
  the ladder takes the counters for a new socket.
\<close>

lemma first_feed:
  assumes "acc_add l r v new_acc = (a1, fed)" "haveLastCum d \<longrightarrow> lastTotal d \<noteq> 0"
    "Sample now (unrecoverable a1) (expected a1) t d = (d1, out, act)"
  shows "fed \<and> act = ActionNone \<and> out = [] \<and> follows a1 (l, r, v) d1 \<and> expected a1 = 0 \<and>
    d1 = (rebase 0 0 d)\<lparr>haveLastCum := True\<rparr>"
  using assms
  by (auto simp: acc_add_def new_acc_def Sample_def sample_deltas_def follows_def rebase_def Let_def word_gt_0
      split: if_splits)

section \<open>Closing for loss\<close>

text \<open>
  The samples that the alarm tier of one connection has seen, the newest first: the unrecovered loss
  of every tick that has one, with its time.
\<close>

definition tick_figure :: "int \<Rightarrow> srt_stats \<Rightarrow> conn_stats \<Rightarrow> (f64 \<times> int) list" where
  "tick_figure now st c =
     (case snd (recv_Sample (ByteRecv st) (PktRecv st) (PktRecvLoss st) now (cs_sampler c)) of
        None \<Rightarrow> []
      | Some snap \<Rightarrow> (case tick_loss st snap c of None \<Rightarrow> [] | Some u \<Rightarrow> [(u, now)]))"

fun stats_run ::
  "srt_server \<Rightarrow> string \<Rightarrow> (int \<times> srt_stats) list \<Rightarrow> conn_stats \<times> lat_manager \<Rightarrow> (f64 \<times> int) list \<Rightarrow>
   (f64 \<times> int) list \<times> srt_eff list" where
  "stats_run s p [] cm h = (h, [])"
| "stats_run s p ((now, st) # ticks) (c, m) h =
     (let (cm', e, go) = stats_tick s p now st (c, m);
          h' = tick_figure now st c @ h
      in if go then let (h'', e') = stats_run s p ticks cm' h' in (h'', e @ e') else (h', e))"

definition trackers_at :: "srt_server \<Rightarrow> (f64 \<times> int) list \<Rightarrow> conn_stats \<Rightarrow> bool" where
  "trackers_at s h c \<longleftrightarrow>
     (srv_LossAlarmEnable s \<or> srv_LossDisconnectEnable s \<longrightarrow> cs_lossTracker c = tracker_of (srv_LossAlarmThresholdPct s) h) \<and>
     (srv_LossRecycleEnable s \<longrightarrow> cs_recycleTracker c = tracker_of (srv_LossRecycleThresholdPct s) h)"

text \<open>Loss above the threshold of a tier for at least its time, up to the last sample.\<close>

definition sustained_over :: "f64 \<Rightarrow> int \<Rightarrow> (f64 \<times> int) list \<Rightarrow> bool" where
  "sustained_over th after h \<longleftrightarrow>
     (\<exists>run rest. h = run @ rest \<and> run \<noteq> [] \<and> (\<forall>x \<in> set run. th < fst x) \<and>
        after \<le> snd (hd run) - snd (last run))"

lemma tracker_disconnect:
  assumes "tracker_Update u th en after now (tracker_of th h) = (t', d)"
  shows "t' = tracker_of th ((u, now) # h)"
    "ShouldDisconnect d \<Longrightarrow> en \<and> sustained_over th after ((u, now) # h)"
proof -
  show "t' = tracker_of th ((u, now) # h)" using assms unfolding tracker_Update_exact by simp
  assume "ShouldDisconnect d"
  then obtain x where x: "over_since th ((u, now) # h) = Some x" "en" "after \<le> now - x"
    using assms unfolding tracker_Update_exact
    by (cases "over_since th ((u, now) # h)") (auto split: option.splits if_splits)
  from over_since_run [OF x(1)] obtain run rest loss where
    r: "(u, now) # h = run @ rest" "run \<noteq> []" "\<forall>s \<in> set run. th < fst s" "last run = (loss, x)" by blast
  then have "hd run = (u, now)" by (cases run) auto
  with r x show "en \<and> sustained_over th after ((u, now) # h)"
    unfolding sustained_over_def by (intro conjI exI [of _ run] exI [of _ rest]) auto
qed

definition add_figure :: "int \<Rightarrow> f64 option \<Rightarrow> (f64 \<times> int) list \<Rightarrow> (f64 \<times> int) list" where
  "add_figure now pct h = (case pct of None \<Rightarrow> h | Some u \<Rightarrow> (u, now) # h)"

lemma alarm_tier_tracks:
  assumes "srv_LossAlarmEnable s \<or> srv_LossDisconnectEnable s \<longrightarrow> t = tracker_of (srv_LossAlarmThresholdPct s) h"
    "alarm_tier s p now pct snap t = (t', e, d)"
  shows "srv_LossAlarmEnable s \<or> srv_LossDisconnectEnable s \<longrightarrow>
      t' = tracker_of (srv_LossAlarmThresholdPct s) (add_figure now pct h)"
    "d \<longrightarrow> srv_LossDisconnectEnable s \<and>
      sustained_over (srv_LossAlarmThresholdPct s) (duration_of_seconds (srv_LossDisconnectSec s)) (add_figure now pct h)"
proof -
  have "t' = tracker_of (srv_LossAlarmThresholdPct s) ((u, now) # h) \<and>
      (d \<longrightarrow> srv_LossDisconnectEnable s \<and> sustained_over (srv_LossAlarmThresholdPct s)
        (duration_of_seconds (srv_LossDisconnectSec s)) ((u, now) # h))"
    if pct: "pct = Some u" "srv_LossAlarmEnable s \<or> srv_LossDisconnectEnable s" for u
  proof -
    obtain dec where "tracker_Update u (srv_LossAlarmThresholdPct s) (srv_LossDisconnectEnable s)
        (duration_of_seconds (srv_LossDisconnectSec s)) now (tracker_of (srv_LossAlarmThresholdPct s) h) = (t', dec)"
      "d = ShouldDisconnect dec"
      using assms pct by (auto simp: alarm_tier_def split: prod.splits)
    from tracker_disconnect [OF this(1)] this(2) show ?thesis by blast
  qed
  with assms show "srv_LossAlarmEnable s \<or> srv_LossDisconnectEnable s \<longrightarrow>
      t' = tracker_of (srv_LossAlarmThresholdPct s) (add_figure now pct h)"
    "d \<longrightarrow> srv_LossDisconnectEnable s \<and>
      sustained_over (srv_LossAlarmThresholdPct s) (duration_of_seconds (srv_LossDisconnectSec s)) (add_figure now pct h)"
    by (cases pct; auto simp: alarm_tier_def add_figure_def split: if_splits)+
qed

lemma recycle_tier_tracks:
  assumes "srv_LossRecycleEnable s \<longrightarrow> t = tracker_of (srv_LossRecycleThresholdPct s) h"
    "recycle_tier s now pct t = (t', d)"
  shows "srv_LossRecycleEnable s \<longrightarrow> t' = tracker_of (srv_LossRecycleThresholdPct s) (add_figure now pct h)"
    "d \<longrightarrow> srv_LossRecycleEnable s \<and>
      sustained_over (srv_LossRecycleThresholdPct s) (duration_of_seconds (srv_LossRecycleSec s)) (add_figure now pct h)"
proof -
  have "t' = tracker_of (srv_LossRecycleThresholdPct s) ((u, now) # h) \<and>
      (d \<longrightarrow> sustained_over (srv_LossRecycleThresholdPct s)
        (duration_of_seconds (srv_LossRecycleSec s)) ((u, now) # h))"
    if pct: "pct = Some u" "srv_LossRecycleEnable s" for u
  proof -
    obtain dec where "tracker_Update u (srv_LossRecycleThresholdPct s) True
        (duration_of_seconds (srv_LossRecycleSec s)) now (tracker_of (srv_LossRecycleThresholdPct s) h) = (t', dec)"
      "d = ShouldDisconnect dec"
      using assms pct by (auto simp: recycle_tier_def split: prod.splits)
    from tracker_disconnect [OF this(1)] this(2) show ?thesis by blast
  qed
  with assms show "srv_LossRecycleEnable s \<longrightarrow> t' = tracker_of (srv_LossRecycleThresholdPct s) (add_figure now pct h)"
    "d \<longrightarrow> srv_LossRecycleEnable s \<and>
      sustained_over (srv_LossRecycleThresholdPct s) (duration_of_seconds (srv_LossRecycleSec s)) (add_figure now pct h)"
    by (cases pct; auto simp: recycle_tier_def add_figure_def split: if_splits)+
qed

text \<open>The causes of a close in one tick, and the trackers after it.\<close>

lemma stats_tick_tiers:
  assumes "trackers_at s h c" "stats_tick s p now st (c, m) = ((c', m'), e, go)" "h' = tick_figure now st c @ h"
  shows "go \<Longrightarrow> trackers_at s h' c' \<and> (\<forall>q k. CloseConn q k \<notin> set e)"
    "CloseConn q LossDisconnect \<in> set e \<Longrightarrow> srv_LossDisconnectEnable s \<and>
       sustained_over (srv_LossAlarmThresholdPct s) (duration_of_seconds (srv_LossDisconnectSec s)) h'"
    "CloseConn q LossRecycle \<in> set e \<Longrightarrow> srv_LossRecycleEnable s \<and>
       sustained_over (srv_LossRecycleThresholdPct s) (duration_of_seconds (srv_LossRecycleSec s)) h'"
proof -
  have "(go \<longrightarrow> trackers_at s h' c' \<and> (\<forall>q k. CloseConn q k \<notin> set e)) \<and>
    (CloseConn q LossDisconnect \<in> set e \<longrightarrow> srv_LossDisconnectEnable s \<and>
       sustained_over (srv_LossAlarmThresholdPct s) (duration_of_seconds (srv_LossDisconnectSec s)) h') \<and>
    (CloseConn q LossRecycle \<in> set e \<longrightarrow> srv_LossRecycleEnable s \<and>
       sustained_over (srv_LossRecycleThresholdPct s) (duration_of_seconds (srv_LossRecycleSec s)) h')"
  proof (cases "snd (recv_Sample (ByteRecv st) (PktRecv st) (PktRecvLoss st) now (cs_sampler c))")
    case None
    with assms show ?thesis
      by (auto simp: stats_tick_def tick_figure_def trackers_at_def split: prod.splits)
  next
    case (Some snap)
    let ?pct = "tick_loss st snap c"
    obtain smp where smp: "recv_Sample (ByteRecv st) (PktRecv st) (PktRecvLoss st) now (cs_sampler c) = (smp, Some snap)"
      using Some by (metis prod.collapse)
    obtain m1 raised where m1: "tune_latency s p ?pct snap m = (m1, raised)" by force
    obtain t1 e1 d where al: "alarm_tier s p now ?pct snap (cs_lossTracker c) = (t1, e1, d)"
      using prod_cases3 by blast
    obtain t2 r where rc: "recycle_tier s now ?pct (cs_recycleTracker c) = (t2, r)" by force
    have h': "h' = add_figure now ?pct h"
      using assms(3) Some by (auto simp: tick_figure_def add_figure_def split: option.splits)
    note tr = assms(1) [unfolded trackers_at_def]
    note t1 = alarm_tier_tracks [OF conjunct1 [OF tr] al, folded h']
      and t2 = recycle_tier_tracks [OF conjunct2 [OF tr] rc, folded h']
    have silent: "CloseConn q' k \<notin> set e1" "CloseConn q' k \<notin> set (sample_report s p ?pct snap)" for q' k
      using tier_effects [OF al] by fastforce+
    consider "d" "\<not> go" "e = e1 @ [CloseConn p LossDisconnect]"
      | "r" "\<not> go" "e = e1 @ [CloseConn p LossRecycle]"
      | "\<not> go" "e = e1 @ sample_report s p ?pct snap @ [CloseConn p LatencyRaised]"
      | "cs_lossTracker c' = t1" "cs_recycleTracker c' = t2" "e = e1 @ sample_report s p ?pct snap"
      using assms(2) by (auto simp: stats_tick_def smp m1 al rc Let_def split: if_splits)
    then show ?thesis using t1 t2 silent by cases (simp_all add: trackers_at_def)
  qed
  then show "go \<Longrightarrow> trackers_at s h' c' \<and> (\<forall>q k. CloseConn q k \<notin> set e)"
    "CloseConn q LossDisconnect \<in> set e \<Longrightarrow> srv_LossDisconnectEnable s \<and>
       sustained_over (srv_LossAlarmThresholdPct s) (duration_of_seconds (srv_LossDisconnectSec s)) h'"
    "CloseConn q LossRecycle \<in> set e \<Longrightarrow> srv_LossRecycleEnable s \<and>
       sustained_over (srv_LossRecycleThresholdPct s) (duration_of_seconds (srv_LossRecycleSec s)) h'" by blast+
qed

lemma stats_run_closes:
  assumes "trackers_at s h c" "stats_run s p ticks (c, m) h = (h', e)"
  shows "(CloseConn q LossDisconnect \<in> set e \<longrightarrow> srv_LossDisconnectEnable s \<and>
       sustained_over (srv_LossAlarmThresholdPct s) (duration_of_seconds (srv_LossDisconnectSec s)) h') \<and>
    (CloseConn q LossRecycle \<in> set e \<longrightarrow> srv_LossRecycleEnable s \<and>
       sustained_over (srv_LossRecycleThresholdPct s) (duration_of_seconds (srv_LossRecycleSec s)) h')"
  using assms
proof (induction ticks arbitrary: c m h e)
  case (Cons x ticks)
  obtain now st where x: "x = (now, st)" by force
  obtain c' m' e1 go where tick: "stats_tick s p now st (c, m) = ((c', m'), e1, go)"
    by (metis prod.collapse)
  note tiers = stats_tick_tiers [OF Cons.prems(1) tick refl]
  obtain h2 e2 where rest: "stats_run s p ticks (c', m') (tick_figure now st c @ h) = (h2, e2)" by force
  have run: "stats_run s p (x # ticks) (c, m) h =
      (if go then (h2, e1 @ e2) else (tick_figure now st c @ h, e1))"
    by (simp add: x tick rest)
  show ?case
  proof (cases go)
    case True
    with run Cons.prems(2) have "h' = h2" "e = e1 @ e2" by auto
    moreover have "CloseConn q k \<notin> set e1" for k using tiers(1) True by blast
    ultimately show ?thesis using Cons.IH [of "tick_figure now st c @ h" c' m' e2] tiers(1) True rest by auto
  next
    case False
    with run Cons.prems(2) have "h' = tick_figure now st c @ h" "e = e1" by auto
    then show ?thesis using tiers(2,3) by blast
  qed
qed simp

lemma trackers_at_start: "trackers_at s [] (start_stats now st)"
  by (simp add: trackers_at_def start_stats_def tracker_of_Nil)

section \<open>Properties\<close>

definition sample_server :: srt_server where
  "sample_server =
     \<lparr>srv_Latency = 500 * time_Millisecond, srv_ReceiverBufferSize = 0, srv_FlowControlWindow = 0,
      srv_LatencyAutoTune = True, srv_LatencyMin = 300 * time_Millisecond, srv_LatencyMax = 3000 * time_Millisecond,
      srv_LatencyStep = 100 * time_Millisecond, srv_LatencyRaiseStep = 200 * time_Millisecond,
      srv_LatencyRaisePct = 1, srv_LatencyLowerPct = 1 / 2,
      srv_LossAlarmReporter = False, srv_LossAlarmEnable = False, srv_LossAlarmThresholdPct = 1,
      srv_LossSampleReporter = False, srv_LossDisconnectEnable = True, srv_LossDisconnectSec = 60,
      srv_LossRecycleEnable = False, srv_LossRecycleThresholdPct = 1, srv_LossRecycleSec = 3600,
      srv_DegradeEnable = False, srv_DegradeRaisePct = 0, srv_DegradeLowerPct = 0, srv_DegradeRestartPct = 0,
      srv_DegradeObservationSec = 60, srv_DegradeRaiseLatencyStep = 200 * time_Millisecond,
      srv_DegradeLowerLatencyStep = 100 * time_Millisecond, srv_DegradeLatencyMin = 300 * time_Millisecond,
      srv_DegradeLatencyMax = 3000 * time_Millisecond\<rparr>"

definition counters :: "u64 \<Rightarrow> u64 \<Rightarrow> srt_stats" where
  "counters received lost =
     \<lparr>ByteRecv = received, PktRecv = received, PktRecvLoss = lost, PktRecvRetrans = 0, PktRecvDrop = 0,
      PktRecvDuplicate = 0\<rparr>"

text \<open>C13.
  Whatever the order of handshakes, publishers and ticks of an SRT server with a valid latency range,
  the latency of every path stays in the range, every handshake is given a latency of the range, and a
  publisher is disconnected to apply a latency only when the latency of its path has just gone up,
  and not beyond the end of the range.
\<close>
theorem srt_latency_in_range:
  assumes "srt_lat_ok s" "latency_config s = Some cfg"
    and "run_steps (srt_step s) evs srt_start = (st, e)" "srt_step s ev st = (st', e')"
  shows "(lat_Min cfg \<le> latency_of cfg p (lats st) \<and> latency_of cfg p (lats st) \<le> lat_Max cfg) \<and>
    (SetLatency p l \<in> set e' \<longrightarrow> lat_Min cfg \<le> l \<and> l \<le> lat_Max cfg) \<and>
    (CloseConn p LatencyRaised \<in> set e' \<longrightarrow>
      latency_of cfg p (lats st) < latency_of cfg p (lats st') \<and> latency_of cfg p (lats st') \<le> lat_Max cfg)"
proof -
  have ok: "lats_ok s (lats st)"
    using srt_lats.run_inv [OF _ assms(3)] assms(1) lats_ok_start by blast
  from lats_ok_range [OF assms(1) ok assms(2)] srt_step_ok [OF assms(1) ok assms(4)] assms(2)
  show ?thesis by (auto simp: lat_effects_ok_def in_range_def)
qed

lemma sample_server_ok: "srt_lat_ok sample_server"
  by (auto simp: srt_lat_ok_def latency_config_def sample_server_def lat_config_ok_def in_range_def
      time_Millisecond_def)

lemma loss_half: "loss_share 1 2 = 50"
  by code_simp

lemmas tick_evals = Let_def stats_tick_def recv_Sample_def start_stats_def counters_def sample_server_def
  new_sampler_def new_tracker_def tick_loss_def unrecoverableLossPct_def loss_half
  tune_latency_def latency_config_def alarm_tier_def tracker_Update_def recycle_tier_def sample_report_def

lemma lossy_tick:
  "snd (srt_step sample_server (SrtStatsTick 1 (60 * time_Second) (counters 1 1))
     (fst (run_steps (srt_step sample_server) [SrtHandshake (Some ''cam''), SrtPublish 1 ''cam'' 0 (counters 0 0) 1] srt_start)))
   = [CloseConn ''cam'' LatencyRaised]"
  by (simp add: tick_evals srt_handshake_def srt_publish_def LatencyFor_def getOrCreateLocked_def lat_Record_def
      srtLatencyNextValue_def TakeRaiseCloseGap_def MarkRaiseClose_def push_effects_def srt_start_def
      duration_of_seconds_def time_Millisecond_def time_Second_def int64_eq)

theorem srt_latency_in_range_witness:
  "\<exists>cfg (st :: srt_state) (st' :: srt_state). latency_config sample_server = Some cfg \<and>
     latency_of cfg ''cam'' (lats st) < latency_of cfg ''cam'' (lats st') \<and> latency_of cfg ''cam'' (lats st') \<le> 3000 * time_Millisecond"
proof -
  obtain cfg where cfg: "latency_config sample_server = Some cfg"
    by (simp add: latency_config_def sample_server_def)
  then have mx: "lat_Max cfg = 3000 * time_Millisecond" by (auto simp: latency_config_def sample_server_def)
  obtain st e where run: "run_steps (srt_step sample_server)
      [SrtHandshake (Some ''cam''), SrtPublish 1 ''cam'' 0 (counters 0 0) 1] srt_start = (st, e)" by force
  obtain st' e' where stp: "srt_step sample_server (SrtStatsTick 1 (60 * time_Second) (counters 1 1)) st = (st', e')"
    by force
  from lossy_tick [unfolded run fst_conv stp snd_conv] have "CloseConn ''cam'' LatencyRaised \<in> set e'" by simp
  with srt_latency_in_range [OF sample_server_ok cfg run stp, of "''cam''" 0] mx
  have "latency_of cfg ''cam'' (lats st) < latency_of cfg ''cam'' (lats st') \<and>
    latency_of cfg ''cam'' (lats st') \<le> 3000 * time_Millisecond" by simp
  with cfg show ?thesis by blast
qed

text \<open>C14.
  The loss that the sampling loop of an SRT publisher makes the degrade ladder act on is, tick by tick,
  exactly the number of packets lost and not retransmitted out of the packets expected in that tick:
  the accumulator and the counters of the path, each of which is only cumulative, cancel out. What the
  loop pushes to the executor, the connections it closes and the latencies it sets are those of a
  ladder that is given these numbers themselves, and so is the quality it arrives at; the other paths are
  not touched. The first reading of a connection and readings below their predecessor move nothing. The
  path has seen traffic before or is new, and the packets of the connection are fewer than $2^{64}$.
\<close>
theorem srt_degrade_feed_exact:
  assumes "haveLastCum (snd (GetOrCreate dm p)) \<longrightarrow> lastTotal (snd (GetOrCreate dm p)) \<noteq> 0"
    and "total_expected (tick_samples (reading_of st) (readings ticks)) < 2 ^ 64"
    and "degrade_run s p ((now, st) # ticks) (new_acc, dm, m) = ((a, dm', m'), e)"
    and "exact_run s p (map to_sample (tick_samples (reading_of st) (readings ticks)))
           ((rebase 0 0 (snd (GetOrCreate dm p)))\<lparr>haveLastCum := True\<rparr>, m) = ((d'', m''), e'')"
  shows "e = e'' \<and> m' = m'' \<and>
    (\<exists>d'. dm' = dm(p \<mapsto> d') \<and> ladder d' = ladder d'' \<and> target_state d' = target_state d'')"
proof -
  define d where "d = snd (GetOrCreate dm p)"
  note assms = assms [folded d_def]
  obtain l r v where rd: "reading_of st = (l, r, v)" by (cases "reading_of st")
  then have st: "PktRecvLoss st = l" "PktRecvRetrans st = r" "PktRecv st = v" by (simp_all add: reading_of_def)
  obtain a1 fed where a1: "acc_add l r v new_acc = (a1, fed)" by force
  obtain d1 out act where smp: "Sample now (unrecoverable a1) (expected a1) (degrade_thresholds s) d = (d1, out, act)"
    using prod_cases3 by blast
  note ff = first_feed [OF a1 assms(1) smp]
  have get: "GetOrCreate dm p = (dm1, d) \<Longrightarrow> dm1(p \<mapsto> x) = dm(p \<mapsto> x)" for dm1 x
    by (auto simp: GetOrCreate_def Let_def split: option.splits)
  have "degrade_tick s p now st (new_acc, dm, m) = ((a1, dm(p \<mapsto> d1), m), [])"
    using ff a1 smp get
    by (auto simp: degrade_tick_def st RecordSample_def follow_action_def push_effects_def d_def
        split: prod.splits option.splits)
  then have run: "degrade_run s p ticks (a1, dm(p \<mapsto> d1), m) = ((a, dm', m'), e)"
    using assms(3) by (auto split: prod.splits)
  have "unat (expected a1) + total_expected (tick_samples (l, r, v) (readings ticks)) < 2 ^ 64"
    using ff assms(2) rd by simp
  from degrade_run_exact [OF _ _ this run, of d1] ff obtain d' u y where
    "exact_run s p (map to_sample (tick_samples (l, r, v) (readings ticks))) (d1, m) = ((d', m'), e)"
    "dm' = dm(p \<mapsto> rebase u y d')" by auto
  then show ?thesis using assms(4) ff rd by (auto simp: rebase_def ladder_def target_state_def)
qed

definition degrade_server :: srt_server where
  "degrade_server = sample_server\<lparr>srv_LatencyAutoTune := False, srv_DegradeEnable := True, srv_DegradeRaisePct := 1\<rparr>"

definition bound_path :: degrade_state where
  "bound_path = (newState ''cam'')\<lparr>maxLayers := 2, layers := 2, bitratePercent := 100, wsConn := Some 7\<rparr>"

definition lossy_ticks :: "(int \<times> srt_stats) list" where
  "lossy_ticks = [(6 * time_Second, counters 128 128), (12 * time_Second, counters 0 64)]"

lemma lossy_ticks_exact:
  "snd (exact_run degrade_server ''cam'' (map to_sample (tick_samples (reading_of (counters 0 0)) (readings lossy_ticks)))
     ((rebase 0 0 bound_path)\<lparr>haveLastCum := True\<rparr>, \<lambda>_. None)) = [PushExecutor 7 (TargetStateMsg ''cam'' (codecFromPath ''cam'') 2 80)]"
  by code_simp

theorem srt_degrade_feed_exact_witness:
  "snd (degrade_run degrade_server ''cam'' ((0, counters 0 0) # lossy_ticks)
     (new_acc, [''cam'' \<mapsto> bound_path], \<lambda>_. None)) = [PushExecutor 7 (TargetStateMsg ''cam'' (codecFromPath ''cam'') 2 80)]"
proof -
  obtain a dm' m' e where f: "degrade_run degrade_server ''cam'' ((0, counters 0 0) # lossy_ticks)
      (new_acc, [''cam'' \<mapsto> bound_path], \<lambda>_. None) = ((a, dm', m'), e)"
    by (metis prod.collapse)
  obtain d'' m'' e'' where r: "exact_run degrade_server ''cam''
      (map to_sample (tick_samples (reading_of (counters 0 0)) (readings lossy_ticks)))
      ((rebase 0 0 (snd (GetOrCreate [''cam'' \<mapsto> bound_path] ''cam'')))\<lparr>haveLastCum := True\<rparr>, \<lambda>_. None) = ((d'', m''), e'')"
    by (metis prod.collapse)
  have "total_expected (tick_samples (reading_of (counters 0 0)) (readings lossy_ticks)) < 2 ^ 64"
    "\<not> haveLastCum (snd (GetOrCreate [''cam'' \<mapsto> bound_path] ''cam''))"
    by (simp_all add: total_expected_def lossy_ticks_def readings_def reading_of_def counters_def
        GetOrCreate_def bound_path_def newState_def)
  with srt_degrade_feed_exact [OF _ _ f r] have "e = e''" by blast
  with f r lossy_ticks_exact show ?thesis by (simp add: GetOrCreate_def)
qed

text \<open>C15.
  The server closes a publisher because of loss only when it is sustained: since its connection
  started, an unbroken run of samples up to the last one, over at least the configured time, all have
  an unrecovered loss above the threshold of the tier, and that tier is enabled.
\<close>
theorem srt_closes_only_sustained_loss:
  assumes "stats_run s p ticks (start_stats now st, m) [] = (h, e)"
  shows "(CloseConn q LossDisconnect \<in> set e \<longrightarrow> srv_LossDisconnectEnable s \<and>
      sustained_over (srv_LossAlarmThresholdPct s) (duration_of_seconds (srv_LossDisconnectSec s)) h) \<and>
    (CloseConn q LossRecycle \<in> set e \<longrightarrow> srv_LossRecycleEnable s \<and>
      sustained_over (srv_LossRecycleThresholdPct s) (duration_of_seconds (srv_LossRecycleSec s)) h)"
  by (rule stats_run_closes [OF trackers_at_start assms])

lemma lossy_minutes:
  "snd (stats_run (sample_server\<lparr>srv_LatencyAutoTune := False\<rparr>) ''cam''
     [(60 * time_Second, counters 1 1), (120 * time_Second, counters 2 2)] (start_stats 0 (counters 0 0), \<lambda>_. None) [])
   = [CloseConn ''cam'' LossDisconnect]"
  by (simp add: tick_evals duration_of_seconds_def time_Second_def int64_eq)

theorem srt_closes_only_sustained_loss_witness:
  "\<exists>h. sustained_over 1 (60 * time_Second) h"
proof -
  let ?s = "sample_server\<lparr>srv_LatencyAutoTune := False\<rparr>"
  obtain h e where r: "stats_run ?s ''cam''
      [(60 * time_Second, counters 1 1), (120 * time_Second, counters 2 2)]
      (start_stats 0 (counters 0 0), \<lambda>_. None) [] = (h, e)" by force
  have d: "duration_of_seconds (srv_LossDisconnectSec ?s) = 60 * time_Second" "srv_LossAlarmThresholdPct ?s = 1"
    by (simp_all add: sample_server_def duration_of_seconds_def time_Second_def int64_eq)
  from lossy_minutes [unfolded r snd_conv] have "CloseConn ''cam'' LossDisconnect \<in> set e" by simp
  with srt_closes_only_sustained_loss [OF r, of "''cam''"] d show ?thesis by metis
qed

text \<open>
  The range of the degrade protocol is not compared with the initial latency: when that is above the
  range, the raise that answers a loss lowers the latency, and nobody reconnects.
\<close>

lemma srt_raise_lowers:
  "(let s = sample_server\<lparr>srv_DegradeEnable := True, srv_Latency := 5000 * time_Millisecond\<rparr>;
        (m, e) = follow_action s ''cam'' 0 ActionRestart (\<lambda>_. None)
    in (map_option lat_current (m ''cam''), e)) = (Some (3000 * time_Millisecond), [])"
  by code_simp

end
