(* ===== verification/Srt_Publish.thy ===== *)
theory Srt_Publish
  imports Path_Manager Go_Strings
begin

text \<open>
  How an SRT connection becomes a publisher: the stream identifier (\<^verbatim>\<open>internal/servers/srt/streamid.go\<close>),
  the publish token (\<^verbatim>\<open>publish_codec.go\<close> and \<^verbatim>\<open>internal/protocols/publishtoken\<close>), the check of the video
  tracks (\<^verbatim>\<open>internal/protocols/mpegts/video_tracks.go\<close>) and the sequence of checks and requests in
  \<open>runPublish\<close> and \<open>runPublishReader\<close>. The decryption of a token up to its claims, the cipher of the
  socket and the demultiplexer's answer are parameters.
\<close>

section \<open>The stream identifier\<close>

datatype streamIDMode = streamIDModeRead | streamIDModePublish

record stream_id =
  sid_mode :: streamIDMode
  sid_path :: string
  sid_query :: string
  sid_user :: string
  sid_pass :: string

datatype sid_error = SidInvalidValue | SidUnsupportedMode string | SidBadSyntax

definition new_stream_id :: stream_id where
  "new_stream_id = \<lparr>sid_mode = streamIDModeRead, sid_path = [], sid_query = [], sid_user = [], sid_pass = []\<rparr>"

text \<open>One pair of the standard syntax, and all of them.\<close>

definition sid_pair :: "string \<Rightarrow> stream_id \<Rightarrow> sid_error + stream_id" where
  "sid_pair kv s =
     (let (key, v, found) = strings_Cut (CHR ''='') kv
      in if \<not> found then Inl SidInvalidValue
         else if key = ''u'' then Inr (s\<lparr>sid_user := v\<rparr>)
         else if key = ''r'' then Inr (s\<lparr>sid_path := v\<rparr>)
         else if key = ''s'' then Inr (s\<lparr>sid_pass := v\<rparr>)
         else if key = ''m'' then
           (if v = ''request'' then Inr (s\<lparr>sid_mode := streamIDModeRead\<rparr>)
            else if v = ''publish'' then Inr (s\<lparr>sid_mode := streamIDModePublish\<rparr>)
            else Inl (SidUnsupportedMode v))
         else Inr s)"

fun sid_pairs :: "string list \<Rightarrow> stream_id \<Rightarrow> sid_error + stream_id" where
  "sid_pairs [] s = Inr s"
| "sid_pairs (kv # kvs) s = (case sid_pair kv s of Inl e \<Rightarrow> Inl e | Inr s' \<Rightarrow> sid_pairs kvs s')"

definition sid_unmarshal :: "string \<Rightarrow> sid_error + stream_id" where
  "sid_unmarshal raw =
     (let s = new_stream_id in
      if has_prefix raw ''#!::'' then sid_pairs (split_at (CHR '','') (drop 4 raw)) s
      else
        let parts = split_at (CHR '':'') raw; n = length parts
        in if n < 2 \<or> 5 < n then Inl SidBadSyntax
           else
             case (if parts ! 0 = ''read'' then Some streamIDModeRead
                   else if parts ! 0 = ''publish'' then Some streamIDModePublish else None) of
               None \<Rightarrow> Inl SidBadSyntax
             | Some mode \<Rightarrow>
                 let s1 = s\<lparr>sid_mode := mode, sid_path := parts ! 1\<rparr>;
                     s2 = (if n = 4 \<or> n = 5 then s1\<lparr>sid_user := parts ! 2, sid_pass := parts ! 3\<rparr> else s1)
                 in Inr (if n = 3 then s2\<lparr>sid_query := parts ! 2\<rparr>
                         else if n = 5 then s2\<lparr>sid_query := parts ! 4\<rparr> else s2))"

text \<open>The forms that the documentation names are read as they are written.\<close>

definition colon_free :: "string \<Rightarrow> bool" where
  "colon_free s \<longleftrightarrow> CHR '':'' \<notin> set s"

lemma sid_unmarshal_short:
  assumes "2 \<le> length ps" "length ps \<le> 5" "\<forall>p \<in> set ps. colon_free p" "ps ! 0 = ''publish''"
  shows "sid_unmarshal (join_with (CHR '':'') ps) =
    Inr \<lparr>sid_mode = streamIDModePublish, sid_path = ps ! 1,
         sid_query = (if length ps = 3 then ps ! 2 else if length ps = 5 then ps ! 4 else []),
         sid_user = (if 4 \<le> length ps then ps ! 2 else []), sid_pass = (if 4 \<le> length ps then ps ! 3 else [])\<rparr>"
proof -
  have split: "split_at (CHR '':'') (join_with (CHR '':'') ps) = ps"
    using assms(1,3) by (intro split_join_with) (auto simp: colon_free_def)
  obtain qs where ps: "ps = ''publish'' # qs" "qs \<noteq> []" using assms(1,4) by (cases ps; cases "tl ps") auto
  then have "\<not> has_prefix (join_with (CHR '':'') ps) ''#!::''"
    by (simp add: join_with_cons has_prefix_def)
  then show ?thesis
    using assms(1,2,4) by (auto simp: sid_unmarshal_def split new_stream_id_def Let_def)
qed

section \<open>Publish tokens\<close>

record token_claims =
  cl_AppID :: string
  cl_Stream :: string
  cl_Codec :: string
  cl_EXP :: int

type_synonym unsealer = "string \<Rightarrow> string \<Rightarrow> token_claims option"

definition ExpectedPath :: "token_claims \<Rightarrow> string" where
  "ExpectedPath c =
     (let p = cl_AppID c @ ''/'' @ cl_Stream c in if cl_Codec c \<noteq> [] then p @ ''/'' @ cl_Codec c else p)"

definition PathMatches :: "token_claims \<Rightarrow> string \<Rightarrow> bool" where
  "PathMatches c pathName \<longleftrightarrow> ExpectedPath c = pathName"

text \<open>\<open>Decrypt\<close>; \<open>unseal key token\<close> are the claims that a token sealed with the key carries.\<close>

definition Decrypt :: "unsealer \<Rightarrow> string \<Rightarrow> string \<Rightarrow> int \<Rightarrow> token_claims option" where
  "Decrypt unseal authKey token nowUnix =
     (if authKey = [] then None
      else case unseal authKey token of
             None \<Rightarrow> None
           | Some c \<Rightarrow> if cl_EXP c < nowUnix then None else Some c)"

text \<open>\<^verbatim>\<open>strings.TrimSpace\<close>, for the white space of ASCII.\<close>

definition is_space :: "char \<Rightarrow> bool" where
  "is_space c \<longleftrightarrow> (let n = of_char c :: nat in n = 32 \<or> 9 \<le> n \<and> n \<le> 13)"

definition TrimSpace :: "string \<Rightarrow> string" where
  "TrimSpace s = rev (dropWhile is_space (rev (dropWhile is_space s)))"

fun token_field :: "string list \<Rightarrow> string" where
  "token_field [] = []"
| "token_field (kv # kvs) =
     (let (name, v, found) = strings_Cut (CHR ''='') kv
      in if found \<and> name = ''token'' then v else token_field kvs)"

definition publishTokenFromStreamID :: "stream_id \<Rightarrow> string" where
  "publishTokenFromStreamID s =
     (let q = TrimSpace (sid_query s)
      in if q = [] then []
         else if CHR ''='' \<notin> set q then q
         else token_field (split_at (CHR ''&'') q))"

datatype token_result = TokenOk | TokenUncheckable | TokenMissing | TokenFailure

definition checkPublishToken :: "unsealer \<Rightarrow> string \<Rightarrow> bool \<Rightarrow> int \<Rightarrow> stream_id \<Rightarrow> token_result" where
  "checkPublishToken unseal publishAuthKey publishTokenReq nowUnix s =
     (let token = publishTokenFromStreamID s
      in if token = [] then if publishTokenReq then TokenMissing else TokenOk
         else if publishAuthKey = [] then TokenUncheckable
         else case Decrypt unseal publishAuthKey token nowUnix of
                None \<Rightarrow> TokenFailure
              | Some c \<Rightarrow> if PathMatches c (sid_path s) then TokenOk else TokenFailure)"

section \<open>Video tracks\<close>

text \<open>A codec of the MPEG-TS library; of the other ones only \<open>IsVideo\<close> matters.\<close>

datatype ts_codec = TsH264 | TsH265 | TsOther bool

record ts_track =
  PID :: nat
  Codec :: ts_codec

fun ts_IsVideo :: "ts_codec \<Rightarrow> bool" where
  "ts_IsVideo TsH264 = True"
| "ts_IsVideo TsH265 = True"
| "ts_IsVideo (TsOther v) = v"

fun VideoCodecName :: "ts_codec \<Rightarrow> string" where
  "VideoCodecName TsH264 = ''h264''"
| "VideoCodecName TsH265 = ''hevc''"
| "VideoCodecName (TsOther v) = []"

definition MaxVideoLayers :: nat where "MaxVideoLayers = 4"
definition MaxHEVCVideoLayers :: nat where "MaxHEVCVideoLayers = 3"

datatype track_error = MixedCodecs nat | TooManyLayers nat | WrongCodec string

definition ValidateVideoTracks :: "ts_track list \<Rightarrow> track_error + ts_track list" where
  "ValidateVideoTracks tracks =
     (let videoTracks = filter (\<lambda>t. ts_IsVideo (Codec t)) tracks
      in if length videoTracks \<le> 1 then Inr videoTracks
         else
           let first = VideoCodecName (Codec (hd videoTracks))
           in case find (\<lambda>t. VideoCodecName (Codec t) \<noteq> first) videoTracks of
                Some t \<Rightarrow> Inl (MixedCodecs (PID t))
              | None \<Rightarrow>
                  let maxLayers = (if first = ''hevc'' then MaxHEVCVideoLayers else MaxVideoLayers)
                  in if maxLayers < length videoTracks then Inl (TooManyLayers (length videoTracks))
                     else Inr videoTracks)"

definition pathCodecFromName :: "string \<Rightarrow> string" where
  "pathCodecFromName p =
     (if suffix ''/h264'' p then ''h264'' else if suffix ''/hevc'' p then ''hevc'' else [])"

definition checkTracksMatchPathCodec :: "string \<Rightarrow> ts_track list \<Rightarrow> track_error option" where
  "checkTracksMatchPathCodec pathName videoTracks =
     (let wanted = pathCodecFromName pathName
      in if wanted = [] \<or> videoTracks = [] then None
         else
           let actual = VideoCodecName (Codec (hd videoTracks))
           in if actual \<noteq> wanted then Some (WrongCodec actual) else None)"

lemma ValidateVideoTracks_ok:
  assumes "ValidateVideoTracks tracks = Inr vs"
  shows "vs = filter (\<lambda>t. ts_IsVideo (Codec t)) tracks" "length vs \<le> 4"
    "t \<in> set vs \<Longrightarrow> VideoCodecName (Codec t) = VideoCodecName (Codec (hd vs))"
proof -
  have "vs = filter (\<lambda>t. ts_IsVideo (Codec t)) tracks \<and> length vs \<le> 4 \<and>
    (t \<in> set vs \<longrightarrow> VideoCodecName (Codec t) = VideoCodecName (Codec (hd vs)))"
  proof (cases "length (filter (\<lambda>t. ts_IsVideo (Codec t)) tracks) \<le> 1")
    case True
    with assms have "vs = filter (\<lambda>t. ts_IsVideo (Codec t)) tracks" "length vs \<le> 1"
      by (auto simp: ValidateVideoTracks_def)
    moreover from this(2) have "\<forall>x \<in> set vs. x = hd vs" by (cases vs) auto
    ultimately show ?thesis by (simp add: MaxVideoLayers_def)
  next
    case False
    with assms show ?thesis
      by (auto simp: ValidateVideoTracks_def MaxVideoLayers_def MaxHEVCVideoLayers_def find_None_iff Let_def
          split: option.splits if_splits)
  qed
  then show "vs = filter (\<lambda>t. ts_IsVideo (Codec t)) tracks" "length vs \<le> 4"
    "t \<in> set vs \<Longrightarrow> VideoCodecName (Codec t) = VideoCodecName (Codec (hd vs))" by blast+
qed

lemma ValidateVideoTracks_hevc:
  assumes "ValidateVideoTracks tracks = Inr vs" "t \<in> set vs" "VideoCodecName (Codec t) = ''hevc''"
  shows "length vs \<le> 3"
proof -
  have "VideoCodecName (Codec (hd vs)) = ''hevc''"
    using ValidateVideoTracks_ok(3) [OF assms(1,2)] assms(3) by simp
  with assms(1) show ?thesis
    by (auto simp: ValidateVideoTracks_def MaxHEVCVideoLayers_def Let_def split: option.splits if_splits)
qed

section \<open>The sequence of checks\<close>

text \<open>
  What the connection brings: its address, whether it is encrypted, and whether the socket accepts a
  passphrase (\<open>SetPassphrase\<close>).
\<close>

record srt_request =
  rq_StreamId :: string
  rq_IP :: ip
  rq_UUID :: nat
  rq_IsEncrypted :: bool
  rq_SetPassphrase :: "string \<Rightarrow> bool"

definition srtCheckPassphrase :: "srt_request \<Rightarrow> string \<Rightarrow> bool" where
  "srtCheckPassphrase rq passphrase =
     (if passphrase = [] then True else if \<not> rq_IsEncrypted rq then False else rq_SetPassphrase rq passphrase)"

record srt_publish_conf =
  spc_publishAuthKey :: string
  spc_publishTokenReq :: bool
  spc_unseal :: unsealer
  spc_SRTPublishPassphrase :: "path_conf \<Rightarrow> string"

datatype srt_refusal =
    RefusedStreamId sid_error | NotPublishing | RefusedToken token_result | RefusedPath pm_err | RefusedPassphrase

definition srt_find_request :: "srt_request \<Rightarrow> stream_id \<Rightarrow> access_request" where
  "srt_find_request rq s =
     \<lparr>ar_Name = sid_path s, ar_Query = sid_query s, ar_UserAgent = [], ar_Publish = True, ar_SkipAuth = False,
      ar_Proto = ProtocolSRT, ar_ID = Some (rq_UUID rq),
      ar_Credentials = \<lparr>cr_User = sid_user s, cr_Pass = sid_pass s, cr_Token = []\<rparr>, ar_IP = rq_IP rq,
      ar_CustomVerifyFunc = None\<rparr>"

text \<open>\<open>runInner\<close> and \<open>runPublish\<close> up to the acceptance of the socket.\<close>

definition srt_runPublish ::
  "srt_publish_conf \<Rightarrow> matcher \<Rightarrow> authenticator \<Rightarrow> int \<Rightarrow> srt_request \<Rightarrow> path_manager \<Rightarrow>
   srt_refusal + stream_id \<times> path_conf \<times> string" where
  "srt_runPublish k fs au nowUnix rq pm =
     (case sid_unmarshal (rq_StreamId rq) of
        Inl e \<Rightarrow> Inl (RefusedStreamId e)
      | Inr s \<Rightarrow>
          if sid_mode s \<noteq> streamIDModePublish then Inl NotPublishing
          else
            let tr = checkPublishToken (spc_unseal k) (spc_publishAuthKey k) (spc_publishTokenReq k) nowUnix s
            in if tr \<noteq> TokenOk \<and> tr \<noteq> TokenUncheckable then Inl (RefusedToken tr)
               else
                 case doFindPathConf fs au (srt_find_request rq s) pm of
                   ResFindPathConf (Inl e) \<Rightarrow> Inl (RefusedPath e)
                 | ResFindPathConf (Inr (c, user)) \<Rightarrow>
                     if srtCheckPassphrase rq (spc_SRTPublishPassphrase k c) then Inr (s, c, user)
                     else Inl RefusedPassphrase
                 | _ \<Rightarrow> Inl NotPublishing)"

text \<open>\<open>runPublishReader\<close>, from the tracks of the demultiplexer to the request for the path.\<close>

definition srt_add_request :: "stream_id \<Rightarrow> access_request" where
  "srt_add_request s =
     \<lparr>ar_Name = sid_path s, ar_Query = sid_query s, ar_UserAgent = [], ar_Publish = True, ar_SkipAuth = True,
      ar_Proto = ProtocolNone, ar_ID = None, ar_Credentials = \<lparr>cr_User = [], cr_Pass = [], cr_Token = []\<rparr>,
      ar_IP = [], ar_CustomVerifyFunc = None\<rparr>"

definition srt_runPublishReader ::
  "matcher \<Rightarrow> authenticator \<Rightarrow> stream_id \<Rightarrow> path_conf \<Rightarrow> ts_track list \<Rightarrow> path_manager \<Rightarrow>
   track_error + path_manager \<times> pm_eff list" where
  "srt_runPublishReader fs au s c tracks pm =
     (case ValidateVideoTracks tracks of
        Inl e \<Rightarrow> Inl e
      | Inr videoTracks \<Rightarrow>
          (case checkTracksMatchPathCodec (sid_path s) videoTracks of
             Some e \<Rightarrow> Inl e
           | None \<Rightarrow> Inr (pm_doAddPublisher fs au (srt_add_request s) (Some c) pm)))"

section \<open>What a publisher has passed\<close>

definition token_ok :: "srt_publish_conf \<Rightarrow> int \<Rightarrow> stream_id \<Rightarrow> bool" where
  "token_ok k nowUnix s \<longleftrightarrow>
     (let token = publishTokenFromStreamID s in
      (spc_publishTokenReq k \<longrightarrow> token \<noteq> []) \<and>
      (token \<noteq> [] \<and> spc_publishAuthKey k \<noteq> [] \<longrightarrow>
         (\<exists>c. spc_unseal k (spc_publishAuthKey k) token = Some c \<and> nowUnix \<le> cl_EXP c \<and> sid_path s = ExpectedPath c)))"

lemma checkPublishToken_ok:
  "checkPublishToken (spc_unseal k) (spc_publishAuthKey k) (spc_publishTokenReq k) nowUnix s \<in> {TokenOk, TokenUncheckable} \<longleftrightarrow>
     token_ok k nowUnix s"
  by (auto simp: checkPublishToken_def token_ok_def Decrypt_def PathMatches_def Let_def split: option.splits)

lemma srt_runPublish_ok:
  assumes "srt_runPublish k fs au nowUnix rq pm = Inr (s, c, user)"
  shows "sid_unmarshal (rq_StreamId rq) = Inr s" "sid_mode s = streamIDModePublish" "token_ok k nowUnix s"
    "\<exists>g. FindPathConf fs (pathConfs pm) (sid_path s) = Inr (c, g)"
    "au (ToAuthRequest (srt_find_request rq s)) = Inr user"
    "srtCheckPassphrase rq (spc_SRTPublishPassphrase k c)"
proof -
  obtain s' where sid: "sid_unmarshal (rq_StreamId rq) = Inr s'"
    using assms by (cases "sid_unmarshal (rq_StreamId rq)") (auto simp: srt_runPublish_def)
  have mode: "sid_mode s' = streamIDModePublish"
    and tok: "checkPublishToken (spc_unseal k) (spc_publishAuthKey k) (spc_publishTokenReq k) nowUnix s'
      \<in> {TokenOk, TokenUncheckable}"
    and rest: "s' = s" "doFindPathConf fs au (srt_find_request rq s') pm = ResFindPathConf (Inr (c, user))"
      "srtCheckPassphrase rq (spc_SRTPublishPassphrase k c)"
    using assms sid
    by (auto simp: srt_runPublish_def Let_def split: if_splits pm_eff.splits sum.splits)
  show "sid_unmarshal (rq_StreamId rq) = Inr s" "sid_mode s = streamIDModePublish" "token_ok k nowUnix s"
    "srtCheckPassphrase rq (spc_SRTPublishPassphrase k c)"
    using sid mode tok rest unfolding checkPublishToken_ok by simp_all
  have name: "ar_Name (srt_find_request rq s) = sid_path s" by (simp add: srt_find_request_def)
  show "\<exists>g. FindPathConf fs (pathConfs pm) (sid_path s) = Inr (c, g)"
    "au (ToAuthRequest (srt_find_request rq s)) = Inr user"
    using rest(1,2) by (auto simp: doFindPathConf_def name split: sum.splits)
qed

lemma publisher_conf:
  assumes "pm_doAddPublisher fs au req (Some c) pm = (pm', e)" "ResPublisherPath (Inr (pa, user)) \<in> set e"
  shows "\<exists>g. FindPathConf fs (pathConfs pm) (ar_Name req) = Inr (c, g)"
  using assms by (auto simp: pm_doAddPublisher_def split: sum.splits if_splits prod.splits)

text \<open>
  Without a slash in its parts a token is bound to one path: tokens for the same path agree in all
  three parts.
\<close>

lemma ExpectedPath_inject:
  assumes "ExpectedPath c = ExpectedPath c'"
    and "\<forall>x \<in> {cl_AppID c, cl_Stream c, cl_Codec c, cl_AppID c', cl_Stream c', cl_Codec c'}. CHR ''/'' \<notin> set x"
  shows "cl_AppID c = cl_AppID c' \<and> cl_Stream c = cl_Stream c' \<and> cl_Codec c = cl_Codec c'"
proof -
  have parts: "split_at (CHR ''/'') (ExpectedPath x) =
      (if cl_Codec x = [] then [cl_AppID x, cl_Stream x] else [cl_AppID x, cl_Stream x, cl_Codec x])"
    if "CHR ''/'' \<notin> set (cl_AppID x)" "CHR ''/'' \<notin> set (cl_Stream x)" "CHR ''/'' \<notin> set (cl_Codec x)" for x :: token_claims
    using that by (auto simp: ExpectedPath_def Let_def split_at_append)
  show ?thesis using parts [of c] parts [of c'] assms by (auto split: if_splits)
qed

section \<open>Properties\<close>

text \<open>C12.
  An SRT connection that gets a path as a publisher has passed every check, in the states of the
  manager at their times: its token, when it carries one and a key is configured, was sealed with the
  key, has not expired and names exactly this path, and there is one when tokens are required; the
  authenticator accepted its credentials for publishing on this path although the second request
  skips authentication; the passphrase of the path fits; the path may be published to and still has
  the configuration that was checked; its video tracks all have one codec and are at most four layers,
  three for HEVC; and on a path with a codec segment all its video has that codec.
\<close>
theorem srt_publish_gate:
  assumes "srt_runPublish k fs au nowUnix rq pm0 = Inr (s, c, user)"
    and "srt_runPublishReader fs au s c tracks pm1 = Inr (pm2, e)"
    and "ResPublisherPath (Inr (pa, u)) \<in> set e"
  shows "token_ok k nowUnix s \<and> au (ToAuthRequest (srt_find_request rq s)) = Inr user \<and>
    srtCheckPassphrase rq (spc_SRTPublishPassphrase k c) \<and> isStreamAllowedUnsafe (sid_path s) pm1 \<and>
    (\<exists>g0 g1. FindPathConf fs (pathConfs pm0) (sid_path s) = Inr (c, g0) \<and>
             FindPathConf fs (pathConfs pm1) (sid_path s) = Inr (c, g1)) \<and>
    (let vs = filter (\<lambda>t. ts_IsVideo (Codec t)) tracks in
       length vs \<le> 4 \<and>
       (\<forall>t \<in> set vs. VideoCodecName (Codec t) = VideoCodecName (Codec (hd vs)) \<and>
          (VideoCodecName (Codec t) = ''hevc'' \<longrightarrow> length vs \<le> 3))) \<and>
    (pathCodecFromName (sid_path s) \<noteq> [] \<longrightarrow>
       (\<forall>t \<in> set tracks. ts_IsVideo (Codec t) \<longrightarrow> VideoCodecName (Codec t) = pathCodecFromName (sid_path s)))"
proof -
  obtain vs where vs: "ValidateVideoTracks tracks = Inr vs" "checkTracksMatchPathCodec (sid_path s) vs = None"
    "pm_doAddPublisher fs au (srt_add_request s) (Some c) pm1 = (pm2, e)"
    using assms(2) by (auto simp: srt_runPublishReader_def split: sum.splits option.splits)
  have name: "ar_Name (srt_add_request s) = sid_path s" by (simp add: srt_add_request_def)
  have codec: "VideoCodecName (Codec t) = pathCodecFromName (sid_path s)"
    if "pathCodecFromName (sid_path s) \<noteq> []" "t \<in> set tracks" "ts_IsVideo (Codec t)" for t
  proof -
    have t: "t \<in> set vs" using that ValidateVideoTracks_ok(1) [OF vs(1)] by simp
    then have "VideoCodecName (Codec (hd vs)) = pathCodecFromName (sid_path s)"
      using vs(2) that(1) by (simp add: checkTracksMatchPathCodec_def Let_def split: if_splits)
    with ValidateVideoTracks_ok(3) [OF vs(1) t] show ?thesis by simp
  qed
  have layers: "let vs = filter (\<lambda>t. ts_IsVideo (Codec t)) tracks in
       length vs \<le> 4 \<and>
       (\<forall>t \<in> set vs. VideoCodecName (Codec t) = VideoCodecName (Codec (hd vs)) \<and>
          (VideoCodecName (Codec t) = ''hevc'' \<longrightarrow> length vs \<le> 3))"
    using ValidateVideoTracks_ok [OF vs(1)] ValidateVideoTracks_hevc [OF vs(1)]
    unfolding ValidateVideoTracks_ok(1) [OF vs(1)] Let_def by blast
  note find = srt_runPublish_ok [OF assms(1)]
  have "isStreamAllowedUnsafe (sid_path s) pm1" "\<exists>g. FindPathConf fs (pathConfs pm1) (sid_path s) = Inr (c, g)"
    using publisher_granted(1) [OF vs(3) assms(3)] publisher_conf [OF vs(3) assms(3)] by (simp_all add: name)
  with find(3-6) codec layers show ?thesis by simp
qed

definition cam_request :: srt_request where
  "cam_request =
     \<lparr>rq_StreamId = ''publish:live/cam/h264:token=abc'', rq_IP = [10, 0, 0, 1], rq_UUID = 7, rq_IsEncrypted = False,
      rq_SetPassphrase = (\<lambda>_. False)\<rparr>"

definition cam_keys :: srt_publish_conf where
  "cam_keys =
     \<lparr>spc_publishAuthKey = ''key'', spc_publishTokenReq = True,
      spc_unseal = (\<lambda>k t. if k = ''key'' \<and> t = ''abc''
        then Some \<lparr>cl_AppID = ''live'', cl_Stream = ''cam'', cl_Codec = ''h264'', cl_EXP = 100\<rparr> else None),
      spc_SRTPublishPassphrase = (\<lambda>_. [])\<rparr>"

definition cam_auth :: authenticator where
  "cam_auth r =
     (if au_Action r = AuthActionPublish \<and> au_Path r = ''live/cam/h264'' then Inr ''cam''
      else Inl \<lparr>Wrapped = AuthFailed, AskCredentials = False\<rparr>)"

definition cam_id :: stream_id where
  "cam_id = \<lparr>sid_mode = streamIDModePublish, sid_path = ''live/cam/h264'', sid_query = ''token=abc'', sid_user = [], sid_pass = []\<rparr>"

lemma cam_publishes:
  "srt_runPublish cam_keys prefix_match cam_auth 50 cam_request sample_manager =
     Inr (cam_id, sample_conf ''~^live'' (Some ''^live''), ''cam'')"
  "map_sum id (\<lambda>r. last (snd r)) (srt_runPublishReader prefix_match cam_auth cam_id
     (sample_conf ''~^live'' (Some ''^live'')) [\<lparr>PID = 256, Codec = TsH264\<rparr>, \<lparr>PID = 257, Codec = TsOther False\<rparr>] sample_manager)
   = Inr (ResPublisherPath (Inr (\<lparr>ref_id = 1, ref_name = ''live/cam/h264''\<rparr>, '''')))"
  by code_simp+

theorem srt_publish_gate_witness:
  "token_ok cam_keys 50 cam_id \<and> isStreamAllowedUnsafe ''live/cam/h264'' sample_manager"
proof -
  let ?ts = "[\<lparr>PID = 256, Codec = TsH264\<rparr>, \<lparr>PID = 257, Codec = TsOther False\<rparr>]"
  obtain pm2 e where r: "srt_runPublishReader prefix_match cam_auth cam_id (sample_conf ''~^live'' (Some ''^live''))
      ?ts sample_manager = Inr (pm2, e)" "last e = ResPublisherPath (Inr (\<lparr>ref_id = 1, ref_name = ''live/cam/h264''\<rparr>, ''''))"
    using cam_publishes(2)
    by (cases "srt_runPublishReader prefix_match cam_auth cam_id (sample_conf ''~^live'' (Some ''^live'')) ?ts sample_manager") auto
  from r(1) have "e \<noteq> []"
    by (auto simp: srt_runPublishReader_def pm_doAddPublisher_def split: sum.splits option.splits if_splits prod.splits)
  with r(2) have "ResPublisherPath (Inr (\<lparr>ref_id = 1, ref_name = ''live/cam/h264''\<rparr>, '''')) \<in> set e"
    by (metis last_in_set)
  from srt_publish_gate [OF cam_publishes(1) r(1) this] show ?thesis by (simp add: cam_id_def)
qed

end
