(* ===== verification/Reload_Machine.thy ===== *)
theory Reload_Machine
  imports Main
begin

text \<open>
  A process made of components that are built from a configuration and from each other, and that is
  reloaded in two passes: the components whose part of the configuration changed are closed, then
  the missing ones are built again in a fixed order. What a component has read of the configuration
  and the components it was given are recorded in its instance. The locale states what the lists of a
  process must satisfy for a reload to leave no component behind on old values.
\<close>

section \<open>Components and passes\<close>

text \<open>
  \<open>sp_needs\<close> is the condition under which a component is built when it is missing, \<open>sp_fields\<close> what is read
  of the configuration to decide on it and to build it, \<open>sp_refs\<close> the components passed to it.
\<close>

record ('c, 'v) spec =
  sp_needs :: "(string \<Rightarrow> 'v) \<Rightarrow> ('c \<Rightarrow> bool) \<Rightarrow> bool"
  sp_fields :: "string list"
  sp_refs :: "'c list"

record ('c, 'v) inst =
  in_id :: nat
  in_conf :: "(string \<times> 'v) list"
  in_refs :: "('c \<times> nat option) list"

record ('c, 'v) machine =
  mc_conf :: "string \<Rightarrow> 'v"
  m_inst :: "'c \<Rightarrow> ('c, 'v) inst option"
  m_next :: nat

definition live :: "('c, 'v) machine \<Rightarrow> 'c \<Rightarrow> bool" where
  "live s c \<longleftrightarrow> m_inst s c \<noteq> None"

definition id_of :: "('c, 'v) machine \<Rightarrow> 'c \<Rightarrow> nat option" where
  "id_of s c = map_option in_id (m_inst s c)"

definition build :: "('c \<Rightarrow> ('c, 'v) spec) \<Rightarrow> 'c \<Rightarrow> ('c, 'v) machine \<Rightarrow> ('c, 'v) machine" where
  "build spec c s =
     s\<lparr>m_inst := (m_inst s)(c \<mapsto>
         \<lparr>in_id = m_next s, in_conf = map (\<lambda>f. (f, mc_conf s f)) (sp_fields (spec c)),
          in_refs = map (\<lambda>d. (d, id_of s d)) (sp_refs (spec c))\<rparr>),
       m_next := Suc (m_next s)\<rparr>"

text \<open>
  The building pass: \<open>fails\<close> are the components whose \<open>Initialize\<close> returns an error, which ends the
  pass.
\<close>

fun create_all ::
  "('c \<Rightarrow> ('c, 'v) spec) \<Rightarrow> ('c \<Rightarrow> bool) \<Rightarrow> 'c list \<Rightarrow> ('c, 'v) machine \<Rightarrow> ('c \<times> ('c, 'v) machine) + ('c, 'v) machine" where
  "create_all spec fails [] s = Inr s"
| "create_all spec fails (c # cs) s =
     (if m_inst s c = None \<and> sp_needs (spec c) (mc_conf s) (live s) then
        (if fails c then Inl (c, s) else create_all spec fails cs (build spec c s))
      else create_all spec fails cs s)"

text \<open>
  The closing pass, for a new configuration: what is not closed is told the fields that are reloaded
  in place.
\<close>

definition reload_inst :: "string list \<Rightarrow> (string \<Rightarrow> 'v) \<Rightarrow> ('c, 'v) inst \<Rightarrow> ('c, 'v) inst" where
  "reload_inst fs n i = i\<lparr>in_conf := map (\<lambda>(f, v). (f, if f \<in> set fs then n f else v)) (in_conf i)\<rparr>"

definition close_changed ::
  "('c \<Rightarrow> (string \<Rightarrow> 'v) \<Rightarrow> (string \<Rightarrow> 'v) \<Rightarrow> bool) \<Rightarrow> ('c \<Rightarrow> string list) \<Rightarrow> (string \<Rightarrow> 'v) \<Rightarrow>
   ('c, 'v) machine \<Rightarrow> ('c, 'v) machine" where
  "close_changed closes reloads n s =
     s\<lparr>m_inst := (\<lambda>c. if closes c n (mc_conf s) then None else map_option (reload_inst (reloads c) n) (m_inst s c))\<rparr>"

definition reload ::
  "('c \<Rightarrow> ('c, 'v) spec) \<Rightarrow> ('c \<Rightarrow> (string \<Rightarrow> 'v) \<Rightarrow> (string \<Rightarrow> 'v) \<Rightarrow> bool) \<Rightarrow> ('c \<Rightarrow> string list) \<Rightarrow> 'c list \<Rightarrow>
   ('c \<Rightarrow> bool) \<Rightarrow> (string \<Rightarrow> 'v) \<Rightarrow> ('c, 'v) machine \<Rightarrow> ('c \<times> ('c, 'v) machine) + ('c, 'v) machine" where
  "reload spec closes reloads order fails n s =
     create_all spec fails order ((close_changed closes reloads n s)\<lparr>mc_conf := n\<rparr>)"

section \<open>The building pass\<close>

lemma build_simps [simp]:
  "mc_conf (build spec c s) = mc_conf s" "d \<noteq> c \<Longrightarrow> m_inst (build spec c s) d = m_inst s d"
  "live (build spec c s) d \<longleftrightarrow> d = c \<or> live s d" "d \<noteq> c \<Longrightarrow> id_of (build spec c s) d = id_of s d"
  by (auto simp: build_def live_def id_of_def)

lemma build_inst:
  "m_inst (build spec c s) c = Some \<lparr>in_id = m_next s, in_conf = map (\<lambda>f. (f, mc_conf s f)) (sp_fields (spec c)),
     in_refs = map (\<lambda>d. (d, id_of s d)) (sp_refs (spec c))\<rparr>"
  by (simp add: build_def)

text \<open>What exists is kept, and what is new is in the list.\<close>

lemma create_all_keeps:
  assumes "create_all spec fails cs s = Inr s'"
  shows "mc_conf s' = mc_conf s" "m_inst s c = Some i \<Longrightarrow> m_inst s' c = Some i"
    "c \<notin> set cs \<Longrightarrow> m_inst s' c = m_inst s c"
proof -
  have "mc_conf s' = mc_conf s \<and> (m_inst s c = Some i \<longrightarrow> m_inst s' c = Some i) \<and> (c \<notin> set cs \<longrightarrow> m_inst s' c = m_inst s c)"
    using assms
  proof (induction cs arbitrary: s)
    case (Cons d cs)
    show ?case
    proof (cases "m_inst s d = None \<and> sp_needs (spec d) (mc_conf s) (live s)")
      case True
      with Cons.prems have "create_all spec fails cs (build spec d s) = Inr s'" by (auto split: if_splits)
      from Cons.IH [OF this] True show ?thesis by (cases "c = d") auto
    next
      case False
      with Cons.prems Cons.IH show ?thesis by auto
    qed
  qed simp
  then show "mc_conf s' = mc_conf s" "m_inst s c = Some i \<Longrightarrow> m_inst s' c = Some i"
    "c \<notin> set cs \<Longrightarrow> m_inst s' c = m_inst s c" by blast+
qed

lemma create_all_append:
  "create_all spec fails (cs @ ds) s =
     (case create_all spec fails cs s of Inl e \<Rightarrow> Inl e | Inr s1 \<Rightarrow> create_all spec fails ds s1)"
  by (induction cs arbitrary: s) auto

lemma create_all_total: "\<exists>s'. create_all spec (\<lambda>_. False) cs s = Inr s'"
  by (induction cs arbitrary: s) simp_all

text \<open>The pass at the place of one component: the state in which it is looked at.\<close>

lemma create_all_at:
  assumes "create_all spec fails order s = Inr s'" "order = pre @ c # post"
  obtains s1 s2 where "create_all spec fails pre s = Inr s1" "create_all spec fails post s2 = Inr s'"
    "s2 = (if m_inst s1 c = None \<and> sp_needs (spec c) (mc_conf s1) (live s1) then build spec c s1 else s1)"
  using assms by (auto simp: create_all_append split: sum.splits if_splits)

section \<open>No component stays behind\<close>

text \<open>
  \<open>stale c\<close> are the fields of \<open>c\<close> that a reload does not look at, \<open>loose\<close> the references that it does
  not renew. \<open>enabled\<close> is the part of \<open>sp_needs\<close> that a running component still satisfies. An instance
  is fresh when, these apart, it has the values of the current configuration and the current
  components; a state is current when its instances are fresh and nothing that is needed is missing.
\<close>

definition fresh ::
  "('c \<Rightarrow> ('c, 'v) spec) \<Rightarrow> ('c \<Rightarrow> string list) \<Rightarrow> ('c \<times> 'c) set \<Rightarrow> ('c, 'v) machine \<Rightarrow> 'c \<Rightarrow> ('c, 'v) inst \<Rightarrow> bool" where
  "fresh spec stale loose s c i \<longleftrightarrow>
     map fst (in_conf i) = sp_fields (spec c) \<and>
     (\<forall>f v. (f, v) \<in> set (in_conf i) \<longrightarrow> f \<in> set (stale c) \<or> v = mc_conf s f) \<and>
     map fst (in_refs i) = sp_refs (spec c) \<and>
     (\<forall>d r. (d, r) \<in> set (in_refs i) \<longrightarrow> (c, d) \<in> loose \<or> r = id_of s d)"

definition current ::
  "('c \<Rightarrow> ('c, 'v) spec) \<Rightarrow> ('c \<Rightarrow> string list) \<Rightarrow> ('c \<times> 'c) set \<Rightarrow> ('c \<Rightarrow> (string \<Rightarrow> 'v) \<Rightarrow> bool) \<Rightarrow> ('c, 'v) machine \<Rightarrow> bool" where
  "current spec stale loose enabled s \<longleftrightarrow>
     (\<forall>c i. m_inst s c = Some i \<longrightarrow> fresh spec stale loose s c i \<and> enabled c (mc_conf s)) \<and>
     (\<forall>c. m_inst s c = None \<longrightarrow> \<not> sp_needs (spec c) (mc_conf s) (live s))"

locale reload_machine =
  fixes spec :: "'c \<Rightarrow> ('c, 'v) spec"
    and closes :: "'c \<Rightarrow> (string \<Rightarrow> 'v) \<Rightarrow> (string \<Rightarrow> 'v) \<Rightarrow> bool"
    and reloads :: "'c \<Rightarrow> string list"
    and order :: "'c list"
    and stale :: "'c \<Rightarrow> string list"
    and loose :: "('c \<times> 'c) set"
    and enabled :: "'c \<Rightarrow> (string \<Rightarrow> 'v) \<Rightarrow> bool"
  assumes all_ordered: "set order = UNIV" "distinct order"
    and closes_field: "f \<in> set (sp_fields (spec c)) \<Longrightarrow> f \<notin> set (stale c) \<Longrightarrow> f \<notin> set (reloads c) \<Longrightarrow>
      enabled c old \<Longrightarrow> \<not> closes c n old \<Longrightarrow> n f = old f"
    and closes_ref: "d \<in> set (sp_refs (spec c)) \<Longrightarrow> (c, d) \<notin> loose \<Longrightarrow> enabled c old \<Longrightarrow> closes d n old \<Longrightarrow> closes c n old"
    and needs_ref: "d \<in> set (sp_refs (spec c)) \<Longrightarrow> (c, d) \<notin> loose \<Longrightarrow> \<not> closes d n old \<Longrightarrow> l c \<Longrightarrow> l' c \<Longrightarrow>
      sp_needs (spec d) n l' \<Longrightarrow> sp_needs (spec d) old l"
    and refs_before: "order = pre @ c # post \<Longrightarrow> d \<in> set (sp_refs (spec c)) \<Longrightarrow> d \<in> set pre"
    and needs_later: "order = pre @ c # post \<Longrightarrow> sp_needs (spec c) n l' \<Longrightarrow> (\<forall>d. l d \<longrightarrow> l' d) \<Longrightarrow>
      (\<forall>d \<in> set pre. l' d = l d) \<Longrightarrow> sp_needs (spec c) n l"
    and needs_enabled: "sp_needs (spec c) n l \<Longrightarrow> enabled c n"
    and enabled_kept: "enabled c old \<Longrightarrow> \<not> closes c n old \<Longrightarrow> enabled c n"
begin

lemma place: obtains pre post where "order = pre @ c # post" "c \<notin> set pre" "c \<notin> set post"
  using all_ordered split_list [of c order] by (auto intro: that)

text \<open>After the pass nothing that is needed is missing.\<close>

lemma created_needed:
  assumes "create_all spec fails order s = Inr s'" "m_inst s' c = None"
  shows "\<not> sp_needs (spec c) (mc_conf s') (live s')"
proof
  assume need: "sp_needs (spec c) (mc_conf s') (live s')"
  obtain pre post where ord: "order = pre @ c # post" "c \<notin> set pre" "c \<notin> set post" by (rule place)
  from create_all_at [OF assms(1) ord(1)] obtain s1 s2 where st: "create_all spec fails pre s = Inr s1"
    "create_all spec fails post s2 = Inr s'"
    "s2 = (if m_inst s1 c = None \<and> sp_needs (spec c) (mc_conf s1) (live s1) then build spec c s1 else s1)" by blast
  have c2: "m_inst s2 c = None" using create_all_keeps(3) [OF st(2) ord(3)] assms(2) by simp
  then have eq: "s2 = s1" using st(3) by (auto simp: build_inst split: if_splits)
  have mono: "\<forall>d. live s1 d \<longrightarrow> live s' d"
    using create_all_keeps(2) [OF st(2)] eq by (auto simp: live_def)
  have pre: "live s' d = live s1 d" if "d \<in> set pre" for d
  proof -
    have "d \<notin> set post" using that ord(1) all_ordered(2) by auto
    from create_all_keeps(3) [OF st(2) this] eq show ?thesis by (simp add: live_def)
  qed
  have "mc_conf s' = mc_conf s1" using create_all_keeps(1) [OF st(2)] eq by simp
  with needs_later [OF ord(1) need mono] pre have "sp_needs (spec c) (mc_conf s1) (live s1)" by auto
  with st(3) c2 eq have "m_inst s1 c = m_inst (build spec c s1) c" by simp
  with c2 eq show False by (simp add: build_inst)
qed

text \<open>A component built in the pass has the configuration and the components of the end.\<close>

lemma created_fresh:
  assumes "create_all spec fails order s = Inr s'" "m_inst s c = None" "m_inst s' c = Some i"
  shows "fresh spec stale loose s' c i \<and> enabled c (mc_conf s')"
proof -
  obtain pre post where ord: "order = pre @ c # post" "c \<notin> set pre" "c \<notin> set post" by (rule place)
  from create_all_at [OF assms(1) ord(1)] obtain s1 s2 where st: "create_all spec fails pre s = Inr s1"
    "create_all spec fails post s2 = Inr s'"
    "s2 = (if m_inst s1 c = None \<and> sp_needs (spec c) (mc_conf s1) (live s1) then build spec c s1 else s1)" by blast
  have "m_inst s1 c = None" using create_all_keeps(3) [OF st(1) ord(2)] assms(2) by simp
  moreover have i2: "m_inst s2 c = Some i" using create_all_keeps(3) [OF st(2) ord(3)] assms(3) by simp
  ultimately have s2: "s2 = build spec c s1" "sp_needs (spec c) (mc_conf s1) (live s1)"
    using st(3) by (auto split: if_splits)
  have conf: "mc_conf s' = mc_conf s1" using create_all_keeps(1) [OF st(2)] s2(1) by simp
  have ids: "id_of s1 d = id_of s' d" if "d \<in> set (sp_refs (spec c))" for d
  proof -
    have d: "d \<in> set pre" using refs_before [OF ord(1) that] .
    then have "d \<notin> set post" "d \<noteq> c" using ord all_ordered(2) by auto
    from create_all_keeps(3) [OF st(2) this(1)] this(2) s2(1) show ?thesis by (simp add: id_of_def)
  qed
  have "i = \<lparr>in_id = m_next s1, in_conf = map (\<lambda>f. (f, mc_conf s1 f)) (sp_fields (spec c)),
     in_refs = map (\<lambda>d. (d, id_of s1 d)) (sp_refs (spec c))\<rparr>"
    using i2 s2(1) build_inst [of spec c s1] by simp
  then show ?thesis using conf ids s2(2) needs_enabled by (auto simp: fresh_def comp_def)
qed

lemma id_of_reloaded: "\<not> closes d n (mc_conf s) \<Longrightarrow> id_of (close_changed closes reloads n s) d = id_of s d"
  by (cases "m_inst s d") (simp_all add: id_of_def close_changed_def reload_inst_def)

text \<open>A component that survives was not touched by the change.\<close>

lemma kept_fresh:
  assumes "current spec stale loose enabled s" "reload spec closes reloads order fails n s = Inr s'"
    and "m_inst s c = Some i" "\<not> closes c n (mc_conf s)"
  shows "fresh spec stale loose s' c (reload_inst (reloads c) n i) \<and> enabled c (mc_conf s')"
proof -
  let ?s0 = "(close_changed closes reloads n s)\<lparr>mc_conf := n\<rparr>"
  have run: "create_all spec fails order ?s0 = Inr s'" using assms(2) by (simp add: reload_def)
  have conf: "mc_conf s' = n" using create_all_keeps(1) [OF run] by simp
  have fr: "fresh spec stale loose s c i" and en: "enabled c (mc_conf s)" using assms(1,3) by (auto simp: current_def)
  have keep: "m_inst ?s0 c = Some (reload_inst (reloads c) n i)" using assms(3,4) by (simp add: close_changed_def)
  have refs: "r = id_of s' d" if d: "(d, r) \<in> set (in_refs i)" "(c, d) \<notin> loose" for d r
  proof -
    have mem: "d \<in> set (sp_refs (spec c))" using d(1) fr unfolding fresh_def by (metis fst_conv image_eqI set_map)
    have nc: "\<not> closes d n (mc_conf s)" using closes_ref [OF mem d(2) en] assms(4) by blast
    have r: "r = id_of s d" using fr d by (auto simp: fresh_def)
    show ?thesis
    proof (cases "m_inst s d")
      case (Some j)
      with nc have "m_inst ?s0 d = Some (reload_inst (reloads d) n j)" by (simp add: close_changed_def)
      from create_all_keeps(2) [OF run this] Some r show ?thesis by (simp add: id_of_def reload_inst_def)
    next
      case None
      have "m_inst s' d = None"
      proof (rule ccontr)
        assume "m_inst s' d \<noteq> None"
        moreover have none0: "m_inst ?s0 d = None" using None by (simp add: close_changed_def)
        obtain pre post where ord: "order = pre @ d # post" "d \<notin> set pre" "d \<notin> set post" by (rule place)
        from create_all_at [OF run ord(1)] obtain s1 s2 where st: "create_all spec fails pre ?s0 = Inr s1"
          "create_all spec fails post s2 = Inr s'"
          "s2 = (if m_inst s1 d = None \<and> sp_needs (spec d) (mc_conf s1) (live s1) then build spec d s1 else s1)" by blast
        have "m_inst s1 d = None" using create_all_keeps(3) [OF st(1) ord(2)] none0 by simp
        ultimately have "sp_needs (spec d) (mc_conf s1) (live s1)"
          using st(3) create_all_keeps(3) [OF st(2) ord(3)] by (auto split: if_splits)
        moreover have "mc_conf s1 = n" using create_all_keeps(1) [OF st(1)] by simp
        moreover have "live s1 c" using create_all_keeps(2) [OF st(1) keep] by (simp add: live_def)
        moreover have "live s c" using assms(3) by (simp add: live_def)
        ultimately have "sp_needs (spec d) (mc_conf s) (live s)" using needs_ref [OF mem d(2) nc] by blast
        with assms(1) None show False by (auto simp: current_def)
      qed
      with r None show ?thesis by (simp add: id_of_def)
    qed
  qed
  have "v = n f" if fv: "(f, v) \<in> set (in_conf (reload_inst (reloads c) n i))" "f \<notin> set (stale c)" for f v
  proof -
    obtain v0 where v0: "(f, v0) \<in> set (in_conf i)" "v = (if f \<in> set (reloads c) then n f else v0)"
      using fv(1) by (auto simp: reload_inst_def)
    have mem: "f \<in> set (sp_fields (spec c))" using v0(1) fr unfolding fresh_def by (metis fst_conv image_eqI set_map)
    have "v0 = mc_conf s f" using fr v0(1) fv(2) by (auto simp: fresh_def)
    with closes_field [OF mem fv(2) _ en assms(4)] v0(2) show ?thesis by auto
  qed
  moreover have "map fst (in_conf (reload_inst (reloads c) n i)) = map fst (in_conf i)"
    "in_refs (reload_inst (reloads c) n i) = in_refs i"
    by (auto simp: reload_inst_def comp_def split: prod.splits)
  ultimately show ?thesis
    using fr refs conf enabled_kept [OF en assms(4)] by (auto simp: fresh_def)
qed

lemma reload_current:
  assumes "current spec stale loose enabled s" "reload spec closes reloads order fails n s = Inr s'"
  shows "current spec stale loose enabled s' \<and> mc_conf s' = n"
proof -
  let ?s0 = "(close_changed closes reloads n s)\<lparr>mc_conf := n\<rparr>"
  have run: "create_all spec fails order ?s0 = Inr s'" using assms(2) by (simp add: reload_def)
  have "fresh spec stale loose s' c i \<and> enabled c (mc_conf s')" if i: "m_inst s' c = Some i" for c i
  proof (cases "m_inst ?s0 c")
    case None
    then show ?thesis using created_fresh [OF run _ i] by simp
  next
    case (Some j)
    then obtain i0 where "m_inst s c = Some i0" "\<not> closes c n (mc_conf s)" "j = reload_inst (reloads c) n i0"
      by (auto simp: close_changed_def split: if_splits)
    with kept_fresh [OF assms] create_all_keeps(2) [OF run Some] i show ?thesis by simp
  qed
  then show ?thesis
    using created_needed [OF run] create_all_keeps(1) [OF run] by (auto simp: current_def)
qed

lemma start_current:
  assumes "create_all spec fails order \<lparr>mc_conf = n, m_inst = (\<lambda>_. None), m_next = 0\<rparr> = Inr s'"
  shows "current spec stale loose enabled s' \<and> mc_conf s' = n"
  using created_fresh [OF assms] created_needed [OF assms] create_all_keeps(1) [OF assms]
  by (auto simp: current_def)

end

end
