(* ===== verification/Core_Reload.thy ===== *)
theory Core_Reload
  imports Reload_Machine
begin

text \<open>
  \<^verbatim>\<open>internal/core/core.go\<close>: the resources of a node and the reload of its configuration. \<open>createResources\<close>
  is the building pass over one specification per resource (what it needs, the fields of the
  configuration it reads, the resources passed to it), \<open>closeResources\<close> the closing pass over one
  condition per resource. The configuration is a function from field names to values; a value that
  the code compares with \<^verbatim>\<open>DeepEqual\<close> is compared by equality. Left out: the ingest manager, which is
  only created at the start, the callbacks of the control client, and a database of the recording
  manager or the administration that cannot be opened.
\<close>

section \<open>Configuration\<close>

record path_rec =
  pr_Name :: string
  pr_RecordDeleteAfter :: int
  pr_RecordMinFreeSpace :: nat
  pr_rest :: nat

datatype conf_value = VNil | VBool bool | VNum int | VStr string | VOpaque nat | VPaths "path_rec list"

type_synonym core_conf = "string \<Rightarrow> conf_value"

abbreviation on :: "core_conf \<Rightarrow> string \<Rightarrow> bool" where
  "on c f \<equiv> c f = VBool True"

fun paths_of :: "conf_value \<Rightarrow> path_rec list" where
  "paths_of (VPaths ps) = ps"
| "paths_of _ = []"

definition atLeastOneRecordDeleteAfter :: "path_rec list \<Rightarrow> bool" where
  "atLeastOneRecordDeleteAfter ps \<longleftrightarrow> (\<exists>e \<in> set ps. pr_RecordDeleteAfter e \<noteq> 0)"

definition atLeastOneRecordMinFreeSpace :: "path_rec list \<Rightarrow> bool" where
  "atLeastOneRecordMinFreeSpace ps \<longleftrightarrow> (\<exists>e \<in> set ps. pr_RecordMinFreeSpace e \<noteq> 0)"

definition cleaner_wanted :: "core_conf \<Rightarrow> bool" where
  "cleaner_wanted c \<longleftrightarrow>
     atLeastOneRecordDeleteAfter (paths_of (c ''Paths'')) \<or> atLeastOneRecordMinFreeSpace (paths_of (c ''Paths''))"

text \<open>The servers without and with TLS, by the encryption setting.\<close>

definition plain_wanted :: "conf_value \<Rightarrow> bool" where
  "plain_wanted e \<longleftrightarrow> e = VStr ''no'' \<or> e = VStr ''optional''"

definition tls_wanted :: "conf_value \<Rightarrow> bool" where
  "tls_wanted e \<longleftrightarrow> e = VStr ''strict'' \<or> e = VStr ''optional''"

section \<open>createResources\<close>

datatype component =
    CLogger | CSelfStats | CAuthManager | CMetrics | CDegradeManager | CPPROF | CRecordCleaner |
    CPlaybackServer | CPathManager | CRTSPServer | CRTSPSServer | CRTMPServer | CRTMPSServer |
    CHLSServer | CRecMgr | CWebRTCServer | CMmxControl | CHealthLog | CPublishWhitelist |
    CRecordingSync | CRecordDeletionRunner | CTrafficUsage | CSRTServer | CMoQServer | CAPI |
    CAdminStore | CAdminSrv

definition logger_spec :: "(component, conf_value) spec" where
  "logger_spec =
     \<lparr>sp_needs = (\<lambda>c live. True),
      sp_fields = [''LogLevel'', ''LogDestinations'', ''LogStructured'', ''LogFile'', ''SysLogPrefix''],
      sp_refs = []\<rparr>"

definition selfStats_spec :: "(component, conf_value) spec" where
  "selfStats_spec =
     \<lparr>sp_needs = (\<lambda>c live. True),
      sp_fields = [],
      sp_refs = []\<rparr>"

definition authManager_spec :: "(component, conf_value) spec" where
  "authManager_spec =
     \<lparr>sp_needs = (\<lambda>c live. True),
      sp_fields = [''AuthMethod'', ''AuthInternalUsers'', ''AuthHTTPAddress'', ''AuthHTTPFingerprint'',
                ''AuthHTTPExclude'', ''AuthJWTJWKS'', ''AuthJWTJWKSFingerprint'', ''AuthJWTClaimKey'',
                ''AuthJWTExclude'', ''AuthJWTInHTTPQuery'', ''AuthJWTIssuer'', ''AuthJWTAudience'',
                ''ReadTimeout''],
      sp_refs = []\<rparr>"

definition metrics_spec :: "(component, conf_value) spec" where
  "metrics_spec =
     \<lparr>sp_needs = (\<lambda>c live. on c ''Metrics''),
      sp_fields = [''Metrics'', ''MetricsAddress'', ''DumpPackets'', ''MetricsEncryption'',
                ''MetricsServerKey'', ''MetricsServerCert'', ''MetricsAllowOrigins'',
                ''MetricsTrustedProxies'', ''ReadTimeout'', ''WriteTimeout''],
      sp_refs = [CAuthManager]\<rparr>"

definition degradeManager_spec :: "(component, conf_value) spec" where
  "degradeManager_spec =
     \<lparr>sp_needs = (\<lambda>c live. on c ''WebRTC''),
      sp_fields = [''WebRTC''],
      sp_refs = []\<rparr>"

definition pprof_spec :: "(component, conf_value) spec" where
  "pprof_spec =
     \<lparr>sp_needs = (\<lambda>c live. on c ''PPROF''),
      sp_fields = [''PPROF'', ''PPROFAddress'', ''DumpPackets'', ''PPROFEncryption'', ''PPROFServerKey'',
                ''PPROFServerCert'', ''PPROFAllowOrigins'', ''PPROFTrustedProxies'', ''ReadTimeout'',
                ''WriteTimeout''],
      sp_refs = [CAuthManager]\<rparr>"

definition recordCleaner_spec :: "(component, conf_value) spec" where
  "recordCleaner_spec =
     \<lparr>sp_needs = (\<lambda>c live. cleaner_wanted c),
      sp_fields = [''Paths''],
      sp_refs = []\<rparr>"

definition playbackServer_spec :: "(component, conf_value) spec" where
  "playbackServer_spec =
     \<lparr>sp_needs = (\<lambda>c live. on c ''Playback''),
      sp_fields = [''Playback'', ''PlaybackAddress'', ''DumpPackets'', ''PlaybackEncryption'',
                ''PlaybackServerKey'', ''PlaybackServerCert'', ''PlaybackAllowOrigins'',
                ''PlaybackTrustedProxies'', ''ReadTimeout'', ''WriteTimeout'', ''Paths''],
      sp_refs = [CAuthManager]\<rparr>"

definition pathManager_spec :: "(component, conf_value) spec" where
  "pathManager_spec =
     \<lparr>sp_needs = (\<lambda>c live. True),
      sp_fields = [''UDPMaxPayloadSize'', ''RTSPEncryption'', ''LogLevel'', ''DumpPackets'', ''RTSPAddress'',
                ''ReadTimeout'', ''WriteTimeout'', ''WriteQueueSize'', ''UDPReadBufferSize'',
                ''TencentWHIPEnable'', ''TencentWHIPEndpoint'', ''TencentWHIPDomain'', ''TencentWHIPApp'',
                ''TencentWHIPSecretKey'', ''TencentWHIPTokenDays'', ''ForwardMmxEnable'', ''Paths''],
      sp_refs = [CAuthManager, CMetrics]\<rparr>"

definition rtspServer_spec :: "(component, conf_value) spec" where
  "rtspServer_spec =
     \<lparr>sp_needs = (\<lambda>c live. on c ''RTSP'' \<and> plain_wanted (c ''RTSPEncryption'')),
      sp_fields = [''RTSP'', ''RTSPEncryption'', ''UDPReadBufferSize'', ''RTSPUDPReadBufferSize'',
                ''RTSPAddress'', ''RTSPAuthMethods'', ''DumpPackets'', ''ReadTimeout'', ''WriteTimeout'',
                ''WriteQueueSize'', ''RTSPTransports'', ''RTPAddress'', ''RTCPAddress'',
                ''MulticastIPRange'', ''MulticastRTPPort'', ''MulticastRTCPPort'', ''RTSPTrustedProxies'',
                ''RunOnConnect'', ''RunOnConnectRestart'', ''RunOnDisconnect''],
      sp_refs = [CMetrics, CPathManager]\<rparr>"

definition rtspsServer_spec :: "(component, conf_value) spec" where
  "rtspsServer_spec =
     \<lparr>sp_needs = (\<lambda>c live. on c ''RTSP'' \<and> tls_wanted (c ''RTSPEncryption'')),
      sp_fields = [''RTSP'', ''RTSPEncryption'', ''UDPReadBufferSize'', ''RTSPUDPReadBufferSize'',
                ''RTSPSAddress'', ''RTSPAuthMethods'', ''DumpPackets'', ''ReadTimeout'', ''WriteTimeout'',
                ''WriteQueueSize'', ''RTSPTransports'', ''SRTPAddress'', ''SRTCPAddress'',
                ''MulticastIPRange'', ''MulticastSRTPPort'', ''MulticastSRTCPPort'', ''RTSPServerCert'',
                ''RTSPServerKey'', ''RTSPAddress'', ''RTSPTrustedProxies'', ''RunOnConnect'',
                ''RunOnConnectRestart'', ''RunOnDisconnect''],
      sp_refs = [CMetrics, CPathManager]\<rparr>"

definition rtmpServer_spec :: "(component, conf_value) spec" where
  "rtmpServer_spec =
     \<lparr>sp_needs = (\<lambda>c live. on c ''RTMP'' \<and> plain_wanted (c ''RTMPEncryption'')),
      sp_fields = [''RTMP'', ''RTMPEncryption'', ''RTMPAddress'', ''DumpPackets'', ''ReadTimeout'',
                ''WriteTimeout'', ''RTSPAddress'', ''RTMPTrustedProxies'', ''RunOnConnect'',
                ''RunOnConnectRestart'', ''RunOnDisconnect''],
      sp_refs = [CMetrics, CPathManager]\<rparr>"

definition rtmpsServer_spec :: "(component, conf_value) spec" where
  "rtmpsServer_spec =
     \<lparr>sp_needs = (\<lambda>c live. on c ''RTMP'' \<and> tls_wanted (c ''RTMPEncryption'')),
      sp_fields = [''RTMP'', ''RTMPEncryption'', ''RTMPSAddress'', ''ReadTimeout'', ''WriteTimeout'',
                ''RTMPServerCert'', ''RTMPServerKey'', ''DumpPackets'', ''RTSPAddress'',
                ''RTMPTrustedProxies'', ''RunOnConnect'', ''RunOnConnectRestart'', ''RunOnDisconnect''],
      sp_refs = [CMetrics, CPathManager]\<rparr>"

definition hlsServer_spec :: "(component, conf_value) spec" where
  "hlsServer_spec =
     \<lparr>sp_needs = (\<lambda>c live. on c ''HLS''),
      sp_fields = [''HLS'', ''HLSAddress'', ''DumpPackets'', ''HLSEncryption'', ''HLSServerKey'',
                ''HLSServerCert'', ''HLSAllowOrigins'', ''HLSTrustedProxies'', ''HLSAlwaysRemux'',
                ''HLSVariant'', ''HLSSegmentCount'', ''HLSSegmentDuration'', ''HLSPartDuration'',
                ''HLSSegmentMaxSize'', ''HLSDirectory'', ''HLSCDNSecret'', ''ReadTimeout'',
                ''WriteTimeout'', ''HLSMuxerCloseAfter''],
      sp_refs = [CMetrics, CPathManager]\<rparr>"

definition recMgr_spec :: "(component, conf_value) spec" where
  "recMgr_spec =
     \<lparr>sp_needs = (\<lambda>c live. on c ''WebRTC'' \<and> c ''MMXNodeRole'' = VStr ''NODE_ROLE_RECORDER'' \<and> \<not> live CWebRTCServer),
      sp_fields = [''WebRTC'', ''MMXNodeRole''],
      sp_refs = [CPathManager]\<rparr>"

definition webRTCServer_spec :: "(component, conf_value) spec" where
  "webRTCServer_spec =
     \<lparr>sp_needs = (\<lambda>c live. on c ''WebRTC''),
      sp_fields = [''WebRTC'', ''MMXNodeRole'', ''SplitRecAuthMode'', ''NetStorageEnv'',
                ''NetStorageS3Bucket'', ''NetStorageS3Region'', ''NetStorageS3AccessKey'',
                ''NetStorageS3SecretKey'', ''NetStorageS3Domain'', ''NetStorageS3Endpoint'',
                ''NetStorageS3ACL'', ''NetStorageMinioEndpoint'', ''NetStorageMinioAccessKey'',
                ''NetStorageMinioSecretKey'', ''NetStorageMinioUseSSL'', ''NetStorageMinioDomain'',
                ''WebRTCAddress'', ''DumpPackets'', ''WebRTCEncryption'', ''WebRTCServerKey'',
                ''WebRTCServerCert'', ''WebRTCAllowOrigins'', ''WebRTCTrustedProxies'', ''ReadTimeout'',
                ''WriteTimeout'', ''UDPReadBufferSize'', ''WebRTCLocalUDPAddress'',
                ''WebRTCLocalTCPAddress'', ''WebRTCIPsFromInterfaces'', ''WebRTCIPsFromInterfacesList'',
                ''WebRTCAdditionalHosts'', ''WebRTCICEServers2'', ''WebRTCSTUNGatherTimeout'',
                ''WebRTCHandshakeTimeout'', ''WebRTCTrackGatherTimeout'', ''WebRTCInboundRTPBufferSize'',
                ''WebRTCABREnable'', ''WebRTCABRWSPath'', ''WebRTCABRSwitchCooldown'', ''DegradeEnable'',
                ''WebRTCDegradeEnable'', ''WebRTCDegradeWSPathSuffix'', ''DegradeRestartPct'',
                ''DegradeSampleSec'', ''RTPLossAlarmEnable'', ''RTPLossAlarmThresholdPct'',
                ''RTPLossRecycleEnable'', ''RTPLossRecycleThresholdPct'', ''RTPLossRecycleSec'',
                ''WebRTCWHIPAuthKey'', ''WebRTCForwardSecret'', ''MMXControl'', ''MMXControlURL'',
                ''MMXNodeSecret'', ''DegradeRaisePct'', ''DegradeLowerPct'', ''DegradeObservationSec''],
      sp_refs = [CMetrics, CPathManager, CRecMgr, CDegradeManager]\<rparr>"

definition mmxControl_spec :: "(component, conf_value) spec" where
  "mmxControl_spec =
     \<lparr>sp_needs = (\<lambda>c live. on c ''WebRTC'' \<and> on c ''MMXControl''),
      sp_fields = [''WebRTC'', ''MMXControl'', ''MMXControlURL'', ''MMXNodeSecret'', ''MMXNodeRole'',
                ''MMXNodeRegion'', ''MMXNodeCapacity'', ''MMXHeartbeatInterval'', ''MMXWebRTCBaseURL'',
                ''MMXPublishURL'', ''MMXABRNegotiationAddress''],
      sp_refs = []\<rparr>"

definition healthLog_spec :: "(component, conf_value) spec" where
  "healthLog_spec =
     \<lparr>sp_needs = (\<lambda>c live. on c ''MMXControl''),
      sp_fields = [''MMXControl'', ''MMXControlURL'', ''MMXNodeSecret''],
      sp_refs = []\<rparr>"

definition publishWhitelist_spec :: "(component, conf_value) spec" where
  "publishWhitelist_spec =
     \<lparr>sp_needs = (\<lambda>c live. on c ''MMXControl''),
      sp_fields = [''MMXControl'', ''MMXControlURL'', ''MMXNodeSecret''],
      sp_refs = []\<rparr>"

definition recordingSync_spec :: "(component, conf_value) spec" where
  "recordingSync_spec =
     \<lparr>sp_needs = (\<lambda>c live. on c ''WebRTC'' \<and> on c ''MMXRecordingSyncEnabled''),
      sp_fields = [''WebRTC'', ''MMXRecordingSyncEnabled'', ''MMXRecordingSyncURL'',
                ''MMXRecordingSyncBearerToken'', ''MMXRecordingSyncPollInterval''],
      sp_refs = []\<rparr>"

definition recordDeletionRunner_spec :: "(component, conf_value) spec" where
  "recordDeletionRunner_spec =
     \<lparr>sp_needs = (\<lambda>c live. on c ''MMXControl'' \<and> live CRecMgr),
      sp_fields = [''MMXControl'', ''MMXControlURL'', ''MMXNodeSecret'', ''NetStorageEnv'',
                ''NetStorageS3Bucket'', ''NetStorageS3Region'', ''NetStorageS3AccessKey'',
                ''NetStorageS3SecretKey'', ''NetStorageS3Domain'', ''NetStorageS3Endpoint'',
                ''NetStorageS3ACL'', ''NetStorageMinioEndpoint'', ''NetStorageMinioAccessKey'',
                ''NetStorageMinioSecretKey'', ''NetStorageMinioUseSSL'', ''NetStorageMinioDomain''],
      sp_refs = []\<rparr>"

definition trafficUsage_spec :: "(component, conf_value) spec" where
  "trafficUsage_spec =
     \<lparr>sp_needs = (\<lambda>c live. on c ''WebRTC'' \<and> on c ''MMXControl'' \<and> live CWebRTCServer),
      sp_fields = [''WebRTC'', ''MMXControl'', ''MMXControlURL'', ''MMXNodeSecret''],
      sp_refs = [CWebRTCServer]\<rparr>"

definition srtServer_spec :: "(component, conf_value) spec" where
  "srtServer_spec =
     \<lparr>sp_needs = (\<lambda>c live. on c ''SRT''),
      sp_fields = [''SRT'', ''SRTAddress'', ''RTSPAddress'', ''ReadTimeout'', ''WriteTimeout'',
                ''UDPMaxPayloadSize'', ''SRTLatency'', ''SRTReceiverBufferSize'', ''SRTFlowControlWindow'',
                ''SRTLatencyAutoTune'', ''SRTLatencyMin'', ''SRTLatencyMax'', ''SRTLatencyStep'',
                ''SRTLatencyRaiseStep'', ''SRTLatencyRaisePct'', ''SRTLatencyLowerPct'', ''RunOnConnect'',
                ''RunOnConnectRestart'', ''RunOnDisconnect'', ''WebRTCWHIPAuthKey'',
                ''SRTPublishTokenRequired'', ''SRTLossAlarmEnable'', ''SRTLossAlarmThresholdPct'',
                ''SRTLossDisconnectEnable'', ''SRTLossDisconnectSec'', ''SRTLossRecycleEnable'',
                ''SRTLossRecycleThresholdPct'', ''SRTLossRecycleSec'', ''DegradeEnable'',
                ''SRTDegradeEnable'', ''DegradeRestartPct'', ''DegradeRaiseLatencyStep'',
                ''DegradeLowerLatencyStep'', ''DegradeLatencyMin'', ''DegradeLatencyMax'', ''MMXControl'',
                ''MMXControlURL'', ''MMXNodeSecret'', ''DegradeRaisePct'', ''DegradeLowerPct'',
                ''DegradeObservationSec''],
      sp_refs = [CMetrics, CPathManager, CDegradeManager]\<rparr>"

definition moqServer_spec :: "(component, conf_value) spec" where
  "moqServer_spec =
     \<lparr>sp_needs = (\<lambda>c live. on c ''MoQ''),
      sp_fields = [''MoQ'', ''MoQHTTP2Address'', ''MoQHTTP3Address'', ''MoQServerKey'', ''MoQServerCert'',
                ''MoQAllowOrigins'', ''MoQTrustedProxies'', ''UDPReadBufferSize'', ''ReadTimeout'',
                ''WriteTimeout''],
      sp_refs = [CPathManager, CMetrics]\<rparr>"

definition api_spec :: "(component, conf_value) spec" where
  "api_spec =
     \<lparr>sp_needs = (\<lambda>c live. on c ''API''),
      sp_fields = [''API'', ''APIAddress'', ''DumpPackets'', ''APIEncryption'', ''APIServerKey'',
                ''APIServerCert'', ''APIAllowOrigins'', ''APITrustedProxies'', ''ReadTimeout'',
                ''WriteTimeout'', ''AdminAddress''],
      sp_refs = [CAuthManager, CPathManager, CRTSPServer, CRTSPSServer, CRTMPServer, CRTMPSServer, CHLSServer,
                CWebRTCServer, CSRTServer, CMoQServer]\<rparr>"

definition adminStore_spec :: "(component, conf_value) spec" where
  "adminStore_spec =
     \<lparr>sp_needs = (\<lambda>c live. c ''AdminAddress'' \<noteq> VStr [] \<and> \<not> live CAdminSrv),
      sp_fields = [''AdminName''],
      sp_refs = []\<rparr>"

definition adminSrv_spec :: "(component, conf_value) spec" where
  "adminSrv_spec =
     \<lparr>sp_needs = (\<lambda>c live. c ''AdminAddress'' \<noteq> VStr []),
      sp_fields = [''AdminAddress'', ''WebRTCAddress'', ''APIAddress'', ''AdminName'', ''TXSecretKeyBack'',
                ''PlayURIRateLimit'', ''PlaySignatureTTL''],
      sp_refs = [CAdminStore, CAPI]\<rparr>"

fun core_spec :: "component \<Rightarrow> (component, conf_value) spec" where
  "core_spec CLogger = logger_spec"
| "core_spec CSelfStats = selfStats_spec"
| "core_spec CAuthManager = authManager_spec"
| "core_spec CMetrics = metrics_spec"
| "core_spec CDegradeManager = degradeManager_spec"
| "core_spec CPPROF = pprof_spec"
| "core_spec CRecordCleaner = recordCleaner_spec"
| "core_spec CPlaybackServer = playbackServer_spec"
| "core_spec CPathManager = pathManager_spec"
| "core_spec CRTSPServer = rtspServer_spec"
| "core_spec CRTSPSServer = rtspsServer_spec"
| "core_spec CRTMPServer = rtmpServer_spec"
| "core_spec CRTMPSServer = rtmpsServer_spec"
| "core_spec CHLSServer = hlsServer_spec"
| "core_spec CRecMgr = recMgr_spec"
| "core_spec CWebRTCServer = webRTCServer_spec"
| "core_spec CMmxControl = mmxControl_spec"
| "core_spec CHealthLog = healthLog_spec"
| "core_spec CPublishWhitelist = publishWhitelist_spec"
| "core_spec CRecordingSync = recordingSync_spec"
| "core_spec CRecordDeletionRunner = recordDeletionRunner_spec"
| "core_spec CTrafficUsage = trafficUsage_spec"
| "core_spec CSRTServer = srtServer_spec"
| "core_spec CMoQServer = moqServer_spec"
| "core_spec CAPI = api_spec"
| "core_spec CAdminStore = adminStore_spec"
| "core_spec CAdminSrv = adminSrv_spec"

text \<open>The order of \<open>createResources\<close>.\<close>

definition core_order :: "component list" where
  "core_order =
     [CLogger, CSelfStats, CAuthManager, CMetrics, CDegradeManager, CPPROF, CRecordCleaner,
      CPlaybackServer, CPathManager, CRTSPServer, CRTSPSServer, CRTMPServer, CRTMPSServer, CHLSServer,
      CRecMgr, CWebRTCServer, CMmxControl, CHealthLog, CPublishWhitelist, CRecordingSync,
      CRecordDeletionRunner, CTrafficUsage, CSRTServer, CMoQServer, CAPI, CAdminStore, CAdminSrv]"

section \<open>closeResources\<close>

text \<open>
  Comparisons of fields. Two pointers to separately loaded configurations are equal only when both
  are nil.
\<close>

definition differ :: "string list \<Rightarrow> core_conf \<Rightarrow> core_conf \<Rightarrow> bool" where
  "differ fs n c \<longleftrightarrow> (\<exists>f \<in> set fs. n f \<noteq> c f)"

definition ptr_differ :: "string \<Rightarrow> core_conf \<Rightarrow> core_conf \<Rightarrow> bool" where
  "ptr_differ f n c \<longleftrightarrow> n f \<noteq> VNil \<or> c f \<noteq> VNil"

definition cmpLogger :: "string list" where
  "cmpLogger =
     [''LogLevel'', ''LogDestinations'', ''LogFile'', ''SysLogPrefix'', ''LogStructured'']"

definition closeLogger :: "core_conf \<Rightarrow> core_conf \<Rightarrow> bool" where
  "closeLogger n c \<longleftrightarrow> differ cmpLogger n c"

definition cmpAuthManager :: "string list" where
  "cmpAuthManager =
     [''AuthMethod'', ''AuthHTTPAddress'', ''AuthHTTPFingerprint'', ''AuthHTTPExclude'',
      ''AuthJWTJWKS'', ''AuthJWTJWKSFingerprint'', ''AuthJWTClaimKey'', ''AuthJWTExclude'',
      ''AuthJWTInHTTPQuery'', ''AuthJWTIssuer'', ''AuthJWTAudience'', ''ReadTimeout'']"

definition closeAuthManager :: "core_conf \<Rightarrow> core_conf \<Rightarrow> bool" where
  "closeAuthManager n c \<longleftrightarrow> differ cmpAuthManager n c"

definition cmpMetrics :: "string list" where
  "cmpMetrics =
     [''Metrics'', ''MetricsAddress'', ''MetricsEncryption'', ''MetricsServerKey'',
      ''MetricsServerCert'', ''MetricsAllowOrigins'', ''MetricsTrustedProxies'', ''ReadTimeout'',
      ''WriteTimeout'', ''DumpPackets'']"

definition closeMetrics :: "core_conf \<Rightarrow> core_conf \<Rightarrow> bool" where
  "closeMetrics n c \<longleftrightarrow> differ cmpMetrics n c \<or>
     closeAuthManager n c \<or> closeLogger n c"

definition cmpDegradeManager :: "string list" where
  "cmpDegradeManager =
     [''WebRTC'', ''WebRTCDegradeWSPathSuffix'']"

definition closeDegradeManager :: "core_conf \<Rightarrow> core_conf \<Rightarrow> bool" where
  "closeDegradeManager n c \<longleftrightarrow> differ cmpDegradeManager n c \<or>
     closeLogger n c"

definition cmpPPROF :: "string list" where
  "cmpPPROF =
     [''PPROF'', ''PPROFAddress'', ''PPROFEncryption'', ''PPROFServerKey'', ''PPROFServerCert'',
      ''PPROFAllowOrigins'', ''PPROFTrustedProxies'', ''ReadTimeout'', ''WriteTimeout'',
      ''DumpPackets'']"

definition closePPROF :: "core_conf \<Rightarrow> core_conf \<Rightarrow> bool" where
  "closePPROF n c \<longleftrightarrow> differ cmpPPROF n c \<or>
     closeAuthManager n c \<or> closeLogger n c"

definition closeRecorderCleaner :: "core_conf \<Rightarrow> core_conf \<Rightarrow> bool" where
  "closeRecorderCleaner n c \<longleftrightarrow> cleaner_wanted n \<noteq> cleaner_wanted c \<or> closeLogger n c"

definition cmpPlaybackServer :: "string list" where
  "cmpPlaybackServer =
     [''Playback'', ''PlaybackAddress'', ''PlaybackEncryption'', ''PlaybackServerKey'',
      ''PlaybackServerCert'', ''PlaybackAllowOrigins'', ''PlaybackTrustedProxies'', ''ReadTimeout'',
      ''WriteTimeout'', ''DumpPackets'']"

definition closePlaybackServer :: "core_conf \<Rightarrow> core_conf \<Rightarrow> bool" where
  "closePlaybackServer n c \<longleftrightarrow> differ cmpPlaybackServer n c \<or>
     closeAuthManager n c \<or> closeLogger n c"

definition cmpPathManager :: "string list" where
  "cmpPathManager =
     [''LogLevel'', ''DumpPackets'', ''RTSPAddress'', ''ReadTimeout'', ''WriteTimeout'',
      ''WriteQueueSize'', ''UDPReadBufferSize'', ''UDPMaxPayloadSize'', ''RTSPEncryption'']"

definition closePathManager :: "core_conf \<Rightarrow> core_conf \<Rightarrow> bool" where
  "closePathManager n c \<longleftrightarrow> differ cmpPathManager n c \<or>
     closeMetrics n c \<or> closeAuthManager n c \<or> closeLogger n c"

definition cmpRTSPServer :: "string list" where
  "cmpRTSPServer =
     [''RTSP'', ''RTSPEncryption'', ''RTSPAddress'', ''RTSPAuthMethods'', ''DumpPackets'',
      ''UDPReadBufferSize'', ''ReadTimeout'', ''WriteTimeout'', ''WriteQueueSize'', ''RTPAddress'',
      ''RTCPAddress'', ''MulticastIPRange'', ''MulticastRTPPort'', ''MulticastRTCPPort'',
      ''RTSPTransports'', ''RTSPTrustedProxies'', ''RunOnConnect'', ''RunOnConnectRestart'',
      ''RunOnDisconnect'']"

definition closeRTSPServer :: "core_conf \<Rightarrow> core_conf \<Rightarrow> bool" where
  "closeRTSPServer n c \<longleftrightarrow> differ cmpRTSPServer n c \<or>
     ptr_differ ''RTSPUDPReadBufferSize'' n c \<or>
     closeMetrics n c \<or> closePathManager n c \<or> closeLogger n c"

definition cmpRTSPSServer :: "string list" where
  "cmpRTSPSServer =
     [''RTSP'', ''RTSPEncryption'', ''RTSPSAddress'', ''RTSPAuthMethods'', ''DumpPackets'',
      ''UDPReadBufferSize'', ''ReadTimeout'', ''WriteTimeout'', ''WriteQueueSize'',
      ''RTSPServerCert'', ''RTSPServerKey'', ''RTSPAddress'', ''RTSPTransports'',
      ''RTSPTrustedProxies'', ''RunOnConnect'', ''RunOnConnectRestart'', ''RunOnDisconnect'']"

definition closeRTSPSServer :: "core_conf \<Rightarrow> core_conf \<Rightarrow> bool" where
  "closeRTSPSServer n c \<longleftrightarrow> differ cmpRTSPSServer n c \<or>
     ptr_differ ''RTSPUDPReadBufferSize'' n c \<or>
     closeMetrics n c \<or> closePathManager n c \<or> closeLogger n c"

definition cmpRTMPServer :: "string list" where
  "cmpRTMPServer =
     [''RTMP'', ''RTMPEncryption'', ''RTMPAddress'', ''DumpPackets'', ''ReadTimeout'',
      ''WriteTimeout'', ''RTSPAddress'', ''RTMPTrustedProxies'', ''RunOnConnect'',
      ''RunOnConnectRestart'', ''RunOnDisconnect'']"

definition closeRTMPServer :: "core_conf \<Rightarrow> core_conf \<Rightarrow> bool" where
  "closeRTMPServer n c \<longleftrightarrow> differ cmpRTMPServer n c \<or>
     closeMetrics n c \<or> closePathManager n c \<or> closeLogger n c"

definition cmpRTMPSServer :: "string list" where
  "cmpRTMPSServer =
     [''RTMP'', ''RTMPEncryption'', ''RTMPSAddress'', ''DumpPackets'', ''ReadTimeout'',
      ''WriteTimeout'', ''RTMPServerCert'', ''RTMPServerKey'', ''RTSPAddress'',
      ''RTMPTrustedProxies'', ''RunOnConnect'', ''RunOnConnectRestart'', ''RunOnDisconnect'']"

definition closeRTMPSServer :: "core_conf \<Rightarrow> core_conf \<Rightarrow> bool" where
  "closeRTMPSServer n c \<longleftrightarrow> differ cmpRTMPSServer n c \<or>
     closeMetrics n c \<or> closePathManager n c \<or> closeLogger n c"

definition cmpHLSServer :: "string list" where
  "cmpHLSServer =
     [''HLS'', ''HLSAddress'', ''HLSEncryption'', ''HLSServerKey'', ''HLSServerCert'',
      ''HLSAllowOrigins'', ''HLSTrustedProxies'', ''HLSAlwaysRemux'', ''HLSVariant'',
      ''HLSSegmentCount'', ''HLSSegmentDuration'', ''HLSPartDuration'', ''HLSSegmentMaxSize'',
      ''HLSDirectory'', ''ReadTimeout'', ''WriteTimeout'', ''HLSMuxerCloseAfter'', ''HLSCDNSecret'',
      ''DumpPackets'']"

definition closeHLSServer :: "core_conf \<Rightarrow> core_conf \<Rightarrow> bool" where
  "closeHLSServer n c \<longleftrightarrow> differ cmpHLSServer n c \<or>
     closePathManager n c \<or> closeMetrics n c \<or> closeLogger n c"

definition cmpWebRTCServer :: "string list" where
  "cmpWebRTCServer =
     [''WebRTC'', ''WebRTCAddress'', ''WebRTCEncryption'', ''WebRTCServerKey'',
      ''WebRTCServerCert'', ''WebRTCAllowOrigins'', ''WebRTCTrustedProxies'', ''ReadTimeout'',
      ''WriteTimeout'', ''UDPReadBufferSize'', ''WebRTCLocalUDPAddress'', ''WebRTCLocalTCPAddress'',
      ''WebRTCIPsFromInterfaces'', ''WebRTCIPsFromInterfacesList'', ''WebRTCAdditionalHosts'',
      ''WebRTCICEServers2'', ''WebRTCSTUNGatherTimeout'', ''WebRTCHandshakeTimeout'',
      ''WebRTCTrackGatherTimeout'', ''SplitRecAuthMode'', ''MMXNodeRole'', ''NetStorageEnv'',
      ''NetStorageS3Bucket'', ''NetStorageS3Region'', ''NetStorageS3AccessKey'',
      ''NetStorageS3SecretKey'', ''NetStorageS3Domain'', ''NetStorageS3Endpoint'',
      ''NetStorageS3ACL'', ''NetStorageMinioEndpoint'', ''NetStorageMinioAccessKey'',
      ''NetStorageMinioSecretKey'', ''NetStorageMinioUseSSL'', ''NetStorageMinioDomain'',
      ''WebRTCDegradeEnable'', ''WebRTCDegradeWSPathSuffix'', ''WebRTCDegradeInstantLossPct'',
      ''WebRTCDegradeAvgLossPct'', ''WebRTCRecoverInstantLossPct'', ''WebRTCRecoverAvgLossPct'',
      ''WebRTCDegradeObservationSec'', ''DegradeEnable'', ''DegradeRaisePct'', ''DegradeLowerPct'',
      ''DegradeRestartPct'', ''DegradeSampleSec'', ''DegradeObservationSec'',
      ''DegradeNackTimeoutMs'', ''WebRTCWHIPAuthKey'', ''WebRTCForwardSecret'',
      ''RTPLossAlarmEnable'', ''RTPLossAlarmThresholdPct'', ''RTPLossRecycleEnable'',
      ''RTPLossRecycleThresholdPct'', ''RTPLossRecycleSec'', ''DumpPackets'']"

definition closeWebRTCServer :: "core_conf \<Rightarrow> core_conf \<Rightarrow> bool" where
  "closeWebRTCServer n c \<longleftrightarrow> differ cmpWebRTCServer n c \<or>
     closeMetrics n c \<or> closeDegradeManager n c \<or> closePathManager n c \<or> closeLogger n c"

definition cmpSRTServer :: "string list" where
  "cmpSRTServer =
     [''SRT'', ''SRTAddress'', ''RTSPAddress'', ''ReadTimeout'', ''WriteTimeout'',
      ''UDPMaxPayloadSize'', ''RunOnConnect'', ''RunOnConnectRestart'', ''RunOnDisconnect'',
      ''SRTLossAlarmEnable'', ''SRTLossAlarmThresholdPct'', ''SRTLossDisconnectEnable'',
      ''SRTLossDisconnectSec'', ''SRTLossRecycleEnable'', ''SRTLossRecycleThresholdPct'',
      ''SRTLossRecycleSec'', ''SRTDegradeEnable'', ''SRTDegradeInstantLossPct'',
      ''SRTDegradeAvgLossPct'', ''SRTRecoverInstantLossPct'', ''SRTRecoverAvgLossPct'',
      ''SRTDegradeObservationSec'', ''DegradeEnable'', ''DegradeRaisePct'', ''DegradeLowerPct'',
      ''DegradeRestartPct'', ''DegradeObservationSec'', ''DegradeRaiseLatencyStep'',
      ''DegradeLowerLatencyStep'', ''DegradeLatencyMin'', ''DegradeLatencyMax'']"

definition closeSRTServer :: "core_conf \<Rightarrow> core_conf \<Rightarrow> bool" where
  "closeSRTServer n c \<longleftrightarrow> differ cmpSRTServer n c \<or>
     closeMetrics n c \<or> closeDegradeManager n c \<or> closePathManager n c \<or> closeLogger n c"

definition cmpMoQServer :: "string list" where
  "cmpMoQServer =
     [''MoQ'', ''MoQHTTP2Address'', ''MoQHTTP3Address'', ''MoQServerKey'', ''MoQServerCert'',
      ''MoQAllowOrigins'', ''MoQTrustedProxies'', ''UDPReadBufferSize'', ''ReadTimeout'',
      ''WriteTimeout'']"

definition closeMoQServer :: "core_conf \<Rightarrow> core_conf \<Rightarrow> bool" where
  "closeMoQServer n c \<longleftrightarrow> differ cmpMoQServer n c \<or>
     closeMetrics n c \<or> closePathManager n c \<or> closeLogger n c"

definition cmpAPI :: "string list" where
  "cmpAPI =
     [''API'', ''APIAddress'', ''APIEncryption'', ''APIServerKey'', ''APIServerCert'',
      ''APIAllowOrigins'', ''APITrustedProxies'', ''ReadTimeout'', ''WriteTimeout'', ''DumpPackets'']"

definition closeAPI :: "core_conf \<Rightarrow> core_conf \<Rightarrow> bool" where
  "closeAPI n c \<longleftrightarrow> differ cmpAPI n c \<or>
     closeAuthManager n c \<or> closePathManager n c \<or> closeRTSPServer n c \<or> closeRTSPSServer n c \<or> closeRTMPServer n c \<or>
     closeRTMPSServer n c \<or> closeHLSServer n c \<or> closeWebRTCServer n c \<or> closeSRTServer n c \<or>
     closeMoQServer n c \<or> closeLogger n c"

definition cmpAdmin :: "string list" where
  "cmpAdmin =
     [''AdminAddress'', ''AdminName'', ''TXSecretKeyBack'', ''PlayURIRateLimit'',
      ''PlaySignatureTTL'', ''WebRTCAddress'', ''APIAddress'']"

definition closeAdmin :: "core_conf \<Rightarrow> core_conf \<Rightarrow> bool" where
  "closeAdmin n c \<longleftrightarrow> differ cmpAdmin n c"

definition closeAdminStore :: "core_conf \<Rightarrow> core_conf \<Rightarrow> bool" where
  "closeAdminStore n c \<longleftrightarrow> n ''AdminAddress'' = VStr [] \<or> differ [''AdminName''] n c"

text \<open>The condition in front of the closing of the recording manager.\<close>

definition closeRecMgr :: "core_conf \<Rightarrow> core_conf \<Rightarrow> bool" where
  "closeRecMgr n c \<longleftrightarrow> \<not> on n ''WebRTC'' \<or> closePathManager n c \<or> differ [''MMXNodeRole''] n c"

text \<open>
  The clients of the control server are closed at every reload; the sampler of the traffic goes with
  the WebRTC server.
\<close>

fun core_closes :: "component \<Rightarrow> core_conf \<Rightarrow> core_conf \<Rightarrow> bool" where
  "core_closes CLogger n c = closeLogger n c"
| "core_closes CSelfStats n c = False"
| "core_closes CAuthManager n c = closeAuthManager n c"
| "core_closes CMetrics n c = closeMetrics n c"
| "core_closes CDegradeManager n c = closeDegradeManager n c"
| "core_closes CPPROF n c = closePPROF n c"
| "core_closes CRecordCleaner n c = closeRecorderCleaner n c"
| "core_closes CPlaybackServer n c = closePlaybackServer n c"
| "core_closes CPathManager n c = closePathManager n c"
| "core_closes CRTSPServer n c = closeRTSPServer n c"
| "core_closes CRTSPSServer n c = closeRTSPSServer n c"
| "core_closes CRTMPServer n c = closeRTMPServer n c"
| "core_closes CRTMPSServer n c = closeRTMPSServer n c"
| "core_closes CHLSServer n c = closeHLSServer n c"
| "core_closes CRecMgr n c = closeRecMgr n c"
| "core_closes CWebRTCServer n c = closeWebRTCServer n c"
| "core_closes CMmxControl n c = True"
| "core_closes CHealthLog n c = True"
| "core_closes CPublishWhitelist n c = True"
| "core_closes CRecordingSync n c = True"
| "core_closes CRecordDeletionRunner n c = True"
| "core_closes CTrafficUsage n c = closeWebRTCServer n c"
| "core_closes CSRTServer n c = closeSRTServer n c"
| "core_closes CMoQServer n c = closeMoQServer n c"
| "core_closes CAPI n c = closeAPI n c"
| "core_closes CAdminStore n c = closeAdminStore n c"
| "core_closes CAdminSrv n c = closeAdmin n c"

text \<open>What is reloaded in place: the internal users and the paths.\<close>

fun core_reloads :: "component \<Rightarrow> string list" where
  "core_reloads CAuthManager = [''AuthInternalUsers'']"
| "core_reloads CRecordCleaner = [''Paths'']"
| "core_reloads CPlaybackServer = [''Paths'']"
| "core_reloads CPathManager = [''Paths'']"
| "core_reloads _ = []"

section \<open>The node\<close>

text \<open>
  The state of the node: its resources, and the whitelist that the path manager was given with
  \<open>SetAdminStore\<close> (which a newly created whitelist does). \<open>reloadConf\<close> fails when a resource cannot be
  initialized; \<open>run\<close> then ends and closes everything.
\<close>

record core_state =
  resources :: "(component, conf_value) machine"
  pm_adminStore :: "nat option"

definition core_start :: "(component \<Rightarrow> bool) \<Rightarrow> core_conf \<Rightarrow> core_state option" where
  "core_start fails c =
     (case create_all core_spec fails core_order \<lparr>mc_conf = c, m_inst = (\<lambda>_. None), m_next = 0\<rparr> of
        Inl _ \<Rightarrow> None
      | Inr m \<Rightarrow> Some \<lparr>resources = m, pm_adminStore = id_of m CPublishWhitelist\<rparr>)"

definition reloadConf :: "(component \<Rightarrow> bool) \<Rightarrow> core_conf \<Rightarrow> core_state \<Rightarrow> component + core_state" where
  "reloadConf fails n s =
     (case reload core_spec core_closes core_reloads core_order fails n (resources s) of
        Inl (c, _) \<Rightarrow> Inl c
      | Inr m \<Rightarrow>
          Inr \<lparr>resources = m,
               pm_adminStore =
                 (case id_of m CPublishWhitelist of
                    Some i \<Rightarrow> Some i
                  | None \<Rightarrow> if closePathManager n (mc_conf (resources s)) then None else pm_adminStore s)\<rparr>)"

inductive core_reach :: "core_state \<Rightarrow> bool" where
  start: "core_start fails c = Some s \<Longrightarrow> core_reach s"
| reload: "core_reach s \<Longrightarrow> reloadConf fails n s = Inr s' \<Longrightarrow> core_reach s'"

section \<open>What a reload reaches\<close>

text \<open>
  The fields that a resource reads but that its closing condition does not look at, the reference that
  is not renewed, and what a running resource still satisfies.
\<close>

fun core_stale :: "component \<Rightarrow> string list" where
  "core_stale CPathManager =
     [''TencentWHIPEnable'', ''TencentWHIPEndpoint'', ''TencentWHIPDomain'', ''TencentWHIPApp'',
      ''TencentWHIPSecretKey'', ''TencentWHIPTokenDays'', ''ForwardMmxEnable'']"
| "core_stale CRTSPSServer =
     [''SRTPAddress'', ''SRTCPAddress'', ''MulticastIPRange'', ''MulticastSRTPPort'',
      ''MulticastSRTCPPort'']"
| "core_stale CWebRTCServer =
     [''WebRTCInboundRTPBufferSize'', ''WebRTCABREnable'', ''WebRTCABRWSPath'',
      ''WebRTCABRSwitchCooldown'', ''MMXControl'', ''MMXControlURL'', ''MMXNodeSecret'']"
| "core_stale CTrafficUsage =
     [''MMXControl'', ''MMXControlURL'', ''MMXNodeSecret'']"
| "core_stale CSRTServer =
     [''SRTLatency'', ''SRTReceiverBufferSize'', ''SRTFlowControlWindow'', ''SRTLatencyAutoTune'',
      ''SRTLatencyMin'', ''SRTLatencyMax'', ''SRTLatencyStep'', ''SRTLatencyRaiseStep'',
      ''SRTLatencyRaisePct'', ''SRTLatencyLowerPct'', ''WebRTCWHIPAuthKey'', ''SRTPublishTokenRequired'',
      ''MMXControl'', ''MMXControlURL'', ''MMXNodeSecret'']"
| "core_stale CAPI =
     [''AdminAddress'']"
| "core_stale _ = []"

definition core_loose :: "(component \<times> component) set" where
  "core_loose = {(CAdminSrv, CAPI)}"

fun core_enabled :: "component \<Rightarrow> core_conf \<Rightarrow> bool" where
  "core_enabled CRecMgr c = on c ''WebRTC''"
| "core_enabled CWebRTCServer c = on c ''WebRTC''"
| "core_enabled CTrafficUsage c = on c ''WebRTC''"
| "core_enabled CAdminStore c = (c ''AdminAddress'' \<noteq> VStr [])"
| "core_enabled CAdminSrv c = (c ''AdminAddress'' \<noteq> VStr [])"
| "core_enabled _ c = True"

lemmas close_defs =
  closeLogger_def closeAuthManager_def closeMetrics_def closeDegradeManager_def closePPROF_def
  closeRecorderCleaner_def closePlaybackServer_def closePathManager_def closeRTSPServer_def
  closeRTSPSServer_def closeRTMPServer_def closeRTMPSServer_def closeHLSServer_def closeWebRTCServer_def
  closeSRTServer_def closeMoQServer_def closeAPI_def closeAdmin_def closeAdminStore_def closeRecMgr_def

lemmas spec_defs =
  logger_spec_def selfStats_spec_def authManager_spec_def metrics_spec_def degradeManager_spec_def
  pprof_spec_def recordCleaner_spec_def playbackServer_spec_def pathManager_spec_def rtspServer_spec_def
  rtspsServer_spec_def rtmpServer_spec_def rtmpsServer_spec_def hlsServer_spec_def recMgr_spec_def
  webRTCServer_spec_def mmxControl_spec_def healthLog_spec_def publishWhitelist_spec_def
  recordingSync_spec_def recordDeletionRunner_spec_def trafficUsage_spec_def srtServer_spec_def
  moqServer_spec_def api_spec_def adminStore_spec_def adminSrv_spec_def

declare core_spec.simps [simp del]

lemma differ_not: "\<not> differ fs n c \<longleftrightarrow> (\<forall>f \<in> set fs. n f = c f)"
  by (simp add: differ_def)

lemma order_UNIV: "set core_order = UNIV" "distinct core_order"
proof -
  have "c \<in> set core_order" for c by (cases c) (simp_all add: core_order_def)
  then show "set core_order = UNIV" by auto
  show "distinct core_order" by (simp add: core_order_def)
qed

lemma before_takeWhile: "distinct (pre @ c # post) \<Longrightarrow> takeWhile (\<lambda>x. x \<noteq> c) (pre @ c # post) = pre"
  by (induction pre) auto

lemma order_prefix: "core_order = pre @ c # post \<Longrightarrow> pre = takeWhile (\<lambda>x. x \<noteq> c) core_order"
  using before_takeWhile [of pre c post] order_UNIV(2) by simp

text \<open>The parts of the specifications.\<close>

lemma core_refs:
  "sp_refs (core_spec CLogger) = []"
  "sp_refs (core_spec CSelfStats) = []"
  "sp_refs (core_spec CAuthManager) = []"
  "sp_refs (core_spec CMetrics) = [CAuthManager]"
  "sp_refs (core_spec CDegradeManager) = []"
  "sp_refs (core_spec CPPROF) = [CAuthManager]"
  "sp_refs (core_spec CRecordCleaner) = []"
  "sp_refs (core_spec CPlaybackServer) = [CAuthManager]"
  "sp_refs (core_spec CPathManager) = [CAuthManager, CMetrics]"
  "sp_refs (core_spec CRTSPServer) = [CMetrics, CPathManager]"
  "sp_refs (core_spec CRTSPSServer) = [CMetrics, CPathManager]"
  "sp_refs (core_spec CRTMPServer) = [CMetrics, CPathManager]"
  "sp_refs (core_spec CRTMPSServer) = [CMetrics, CPathManager]"
  "sp_refs (core_spec CHLSServer) = [CMetrics, CPathManager]"
  "sp_refs (core_spec CRecMgr) = [CPathManager]"
  "sp_refs (core_spec CWebRTCServer) = [CMetrics, CPathManager, CRecMgr, CDegradeManager]"
  "sp_refs (core_spec CMmxControl) = []"
  "sp_refs (core_spec CHealthLog) = []"
  "sp_refs (core_spec CPublishWhitelist) = []"
  "sp_refs (core_spec CRecordingSync) = []"
  "sp_refs (core_spec CRecordDeletionRunner) = []"
  "sp_refs (core_spec CTrafficUsage) = [CWebRTCServer]"
  "sp_refs (core_spec CSRTServer) = [CMetrics, CPathManager, CDegradeManager]"
  "sp_refs (core_spec CMoQServer) = [CPathManager, CMetrics]"
  "sp_refs (core_spec CAPI) = [CAuthManager, CPathManager, CRTSPServer, CRTSPSServer, CRTMPServer, CRTMPSServer, CHLSServer,
    CWebRTCServer, CSRTServer, CMoQServer]"
  "sp_refs (core_spec CAdminStore) = []"
  "sp_refs (core_spec CAdminSrv) = [CAdminStore, CAPI]"
  by (simp_all only: core_spec.simps spec_defs spec.select_convs)

lemma core_needs:
  "sp_needs (core_spec CLogger) c l = (True)"
  "sp_needs (core_spec CSelfStats) c l = (True)"
  "sp_needs (core_spec CAuthManager) c l = (True)"
  "sp_needs (core_spec CMetrics) c l = (on c ''Metrics'')"
  "sp_needs (core_spec CDegradeManager) c l = (on c ''WebRTC'')"
  "sp_needs (core_spec CPPROF) c l = (on c ''PPROF'')"
  "sp_needs (core_spec CRecordCleaner) c l = (cleaner_wanted c)"
  "sp_needs (core_spec CPlaybackServer) c l = (on c ''Playback'')"
  "sp_needs (core_spec CPathManager) c l = (True)"
  "sp_needs (core_spec CRTSPServer) c l = (on c ''RTSP'' \<and> plain_wanted (c ''RTSPEncryption''))"
  "sp_needs (core_spec CRTSPSServer) c l = (on c ''RTSP'' \<and> tls_wanted (c ''RTSPEncryption''))"
  "sp_needs (core_spec CRTMPServer) c l = (on c ''RTMP'' \<and> plain_wanted (c ''RTMPEncryption''))"
  "sp_needs (core_spec CRTMPSServer) c l = (on c ''RTMP'' \<and> tls_wanted (c ''RTMPEncryption''))"
  "sp_needs (core_spec CHLSServer) c l = (on c ''HLS'')"
  "sp_needs (core_spec CRecMgr) c l = (on c ''WebRTC'' \<and> c ''MMXNodeRole'' = VStr ''NODE_ROLE_RECORDER'' \<and> \<not> l CWebRTCServer)"
  "sp_needs (core_spec CWebRTCServer) c l = (on c ''WebRTC'')"
  "sp_needs (core_spec CMmxControl) c l = (on c ''WebRTC'' \<and> on c ''MMXControl'')"
  "sp_needs (core_spec CHealthLog) c l = (on c ''MMXControl'')"
  "sp_needs (core_spec CPublishWhitelist) c l = (on c ''MMXControl'')"
  "sp_needs (core_spec CRecordingSync) c l = (on c ''WebRTC'' \<and> on c ''MMXRecordingSyncEnabled'')"
  "sp_needs (core_spec CRecordDeletionRunner) c l = (on c ''MMXControl'' \<and> l CRecMgr)"
  "sp_needs (core_spec CTrafficUsage) c l = (on c ''WebRTC'' \<and> on c ''MMXControl'' \<and> l CWebRTCServer)"
  "sp_needs (core_spec CSRTServer) c l = (on c ''SRT'')"
  "sp_needs (core_spec CMoQServer) c l = (on c ''MoQ'')"
  "sp_needs (core_spec CAPI) c l = (on c ''API'')"
  "sp_needs (core_spec CAdminStore) c l = (c ''AdminAddress'' \<noteq> VStr [] \<and> \<not> l CAdminSrv)"
  "sp_needs (core_spec CAdminSrv) c l = (c ''AdminAddress'' \<noteq> VStr [])"
  by (simp_all only: core_spec.simps spec_defs spec.select_convs)

text \<open>What the closing conditions compare, resource by resource, and that it is all but the stale fields.\<close>

fun core_compared :: "component \<Rightarrow> string list" where
  "core_compared CLogger = cmpLogger"
| "core_compared CSelfStats = []"
| "core_compared CAuthManager = cmpAuthManager"
| "core_compared CMetrics = cmpMetrics"
| "core_compared CDegradeManager = cmpDegradeManager"
| "core_compared CPPROF = cmpPPROF"
| "core_compared CRecordCleaner = []"
| "core_compared CPlaybackServer = cmpPlaybackServer"
| "core_compared CPathManager = cmpPathManager"
| "core_compared CRTSPServer = ''RTSPUDPReadBufferSize'' # cmpRTSPServer"
| "core_compared CRTSPSServer = ''RTSPUDPReadBufferSize'' # cmpRTSPSServer"
| "core_compared CRTMPServer = cmpRTMPServer"
| "core_compared CRTMPSServer = cmpRTMPSServer"
| "core_compared CHLSServer = cmpHLSServer"
| "core_compared CRecMgr = [''MMXNodeRole'', ''WebRTC'']"
| "core_compared CWebRTCServer = cmpWebRTCServer"
| "core_compared CMmxControl = sp_fields (core_spec CMmxControl)"
| "core_compared CHealthLog = sp_fields (core_spec CHealthLog)"
| "core_compared CPublishWhitelist = sp_fields (core_spec CPublishWhitelist)"
| "core_compared CRecordingSync = sp_fields (core_spec CRecordingSync)"
| "core_compared CRecordDeletionRunner = sp_fields (core_spec CRecordDeletionRunner)"
| "core_compared CTrafficUsage = cmpWebRTCServer"
| "core_compared CSRTServer = cmpSRTServer"
| "core_compared CMoQServer = cmpMoQServer"
| "core_compared CAPI = cmpAPI"
| "core_compared CAdminStore = [''AdminName'']"
| "core_compared CAdminSrv = cmpAdmin"

lemma fields_compared:
  "list_all (\<lambda>c. list_all (\<lambda>f. f \<in> set (core_stale c) \<or> f \<in> set (core_reloads c) \<or> f \<in> set (core_compared c))
     (sp_fields (core_spec c))) core_order"
  by code_simp

lemma compared_same:
  assumes "core_enabled c old" "\<not> core_closes c n old" "f \<in> set (core_compared c)"
  shows "n f = old f"
  using assms by (cases c) (auto simp: close_defs differ_not ptr_differ_def)

text \<open>The laws of the reload machine, one by one.\<close>

lemma core_closes_field:
  assumes "f \<in> set (sp_fields (core_spec c))" "f \<notin> set (core_stale c)" "f \<notin> set (core_reloads c)"
    "core_enabled c old" "\<not> core_closes c n old"
  shows "n f = old f"
proof -
  have "c \<in> set core_order" using order_UNIV(1) by simp
  with fields_compared assms(1-3) have "f \<in> set (core_compared c)" by (auto simp: list_all_iff)
  with compared_same [OF assms(4,5)] show ?thesis by blast
qed

lemma core_refs_before:
  assumes "core_order = pre @ c # post" "d \<in> set (sp_refs (core_spec c))"
  shows "d \<in> set pre"
proof -
  have "d \<in> set (takeWhile (\<lambda>x. x \<noteq> c) core_order)"
    using assms(2) by (cases c) (auto simp: core_refs core_order_def)
  then show ?thesis using order_prefix [OF assms(1)] by simp
qed

lemma core_needs_later:
  assumes "core_order = pre @ c # post" "sp_needs (core_spec c) n l'" "\<forall>d. l d \<longrightarrow> l' d" "\<forall>d \<in> set pre. l' d = l d"
  shows "sp_needs (core_spec c) n l"
proof -
  have "l' d = l d" if "d \<in> set (takeWhile (\<lambda>x. x \<noteq> c) core_order)" for d
    using assms(4) that order_prefix [OF assms(1)] by simp
  then have "c = CRecordDeletionRunner \<Longrightarrow> l' CRecMgr = l CRecMgr" "c = CTrafficUsage \<Longrightarrow> l' CWebRTCServer = l CWebRTCServer"
    by (simp_all add: core_order_def)
  then show ?thesis using assms(2) spec [OF assms(3), of CWebRTCServer] spec [OF assms(3), of CAdminSrv]
    by (cases c) (simp_all add: core_needs)
qed

text \<open>The settings that switch a resource on are among the compared fields.\<close>

lemma differ_in: "n f \<noteq> c f \<Longrightarrow> f \<in> set fs \<Longrightarrow> differ fs n c"
  by (auto simp: differ_def)

lemma flags_compared:
  "''Metrics'' \<in> set cmpMetrics" "''WebRTC'' \<in> set cmpDegradeManager" "''WebRTC'' \<in> set cmpWebRTCServer"
  "''MMXNodeRole'' \<in> set cmpWebRTCServer" "''RTSP'' \<in> set cmpRTSPServer" "''RTSPEncryption'' \<in> set cmpRTSPServer"
  "''RTSP'' \<in> set cmpRTSPSServer" "''RTSPEncryption'' \<in> set cmpRTSPSServer"
  "''RTMP'' \<in> set cmpRTMPServer" "''RTMPEncryption'' \<in> set cmpRTMPServer"
  "''RTMP'' \<in> set cmpRTMPSServer" "''RTMPEncryption'' \<in> set cmpRTMPSServer"
  "''HLS'' \<in> set cmpHLSServer" "''SRT'' \<in> set cmpSRTServer" "''MoQ'' \<in> set cmpMoQServer"
  "''AdminAddress'' \<in> set cmpAdmin" "''AdminName'' \<in> set cmpAdmin"
  by code_simp+

lemmas flag_differs = flags_compared [THEN differ_in [rotated]]

lemma core_closes_ref:
  assumes "d \<in> set (sp_refs (core_spec c))" "(c, d) \<notin> core_loose" "core_enabled c old" "core_closes d n old"
  shows "core_closes c n old"
proof -
  have "on old ''WebRTC'' \<Longrightarrow> \<not> on n ''WebRTC'' \<Longrightarrow> differ cmpWebRTCServer n old"
    "old ''AdminAddress'' \<noteq> VStr [] \<Longrightarrow> n ''AdminAddress'' = VStr [] \<Longrightarrow> differ cmpAdmin n old"
    "differ [''MMXNodeRole''] n old \<Longrightarrow> differ cmpWebRTCServer n old"
    "differ [''AdminName''] n old \<Longrightarrow> differ cmpAdmin n old"
    using flag_differs [of n old] by (metis, metis, simp_all add: differ_def)
  then show ?thesis using assms by (cases c) (auto simp: core_refs close_defs core_loose_def)
qed

lemma flags_same:
  "\<not> differ cmpMetrics n old \<Longrightarrow> n ''Metrics'' = old ''Metrics''"
  "\<not> differ cmpDegradeManager n old \<Longrightarrow> n ''WebRTC'' = old ''WebRTC''"
  "\<not> differ cmpWebRTCServer n old \<Longrightarrow> n ''WebRTC'' = old ''WebRTC''"
  "\<not> differ cmpRTSPServer n old \<Longrightarrow> n ''RTSP'' = old ''RTSP''"
  "\<not> differ cmpRTSPServer n old \<Longrightarrow> n ''RTSPEncryption'' = old ''RTSPEncryption''"
  "\<not> differ cmpRTSPSServer n old \<Longrightarrow> n ''RTSP'' = old ''RTSP''"
  "\<not> differ cmpRTSPSServer n old \<Longrightarrow> n ''RTSPEncryption'' = old ''RTSPEncryption''"
  "\<not> differ cmpRTMPServer n old \<Longrightarrow> n ''RTMP'' = old ''RTMP''"
  "\<not> differ cmpRTMPServer n old \<Longrightarrow> n ''RTMPEncryption'' = old ''RTMPEncryption''"
  "\<not> differ cmpRTMPSServer n old \<Longrightarrow> n ''RTMP'' = old ''RTMP''"
  "\<not> differ cmpRTMPSServer n old \<Longrightarrow> n ''RTMPEncryption'' = old ''RTMPEncryption''"
  "\<not> differ cmpHLSServer n old \<Longrightarrow> n ''HLS'' = old ''HLS''"
  "\<not> differ cmpSRTServer n old \<Longrightarrow> n ''SRT'' = old ''SRT''"
  "\<not> differ cmpMoQServer n old \<Longrightarrow> n ''MoQ'' = old ''MoQ''"
  "\<not> differ cmpAdmin n old \<Longrightarrow> n ''AdminAddress'' = old ''AdminAddress''"
  by (auto intro: ccontr flag_differs)

lemma core_needs_ref:
  assumes "d \<in> set (sp_refs (core_spec c))" "(c, d) \<notin> core_loose" "\<not> core_closes d n old" "l c" "l' c"
    "sp_needs (core_spec d) n l'"
  shows "sp_needs (core_spec d) old l"
proof (cases "d = CRecMgr \<or> d = CAdminStore")
  case True
  then have "c = CWebRTCServer \<and> d = CRecMgr \<or> c = CAdminSrv \<and> d = CAdminStore"
    using assms(1) by (cases c) (auto simp: core_refs)
  with assms(5,6) show ?thesis by (auto simp: core_needs)
next
  case False
  have "d \<in> {CAuthManager, CMetrics, CDegradeManager, CPathManager, CRTSPServer, CRTSPSServer, CRTMPServer,
      CRTMPSServer, CHLSServer, CWebRTCServer, CSRTServer, CMoQServer}"
    using assms(1,2) False by (cases c) (auto simp: core_refs core_loose_def)
  then show ?thesis using assms(3,6) by (auto simp: core_needs close_defs flags_same [of n old])
qed

lemma core_needs_enabled: "sp_needs (core_spec c) n l \<Longrightarrow> core_enabled c n"
  by (cases c) (simp_all add: core_needs)

lemma core_enabled_kept: "core_enabled c old \<Longrightarrow> \<not> core_closes c n old \<Longrightarrow> core_enabled c n"
  by (cases c) (auto simp: close_defs flags_same [of n old])

interpretation node: reload_machine core_spec core_closes core_reloads core_order core_stale core_loose core_enabled
proof (unfold_locales, goal_cases)
  case 1 show ?case by (rule order_UNIV(1))
next
  case 2 show ?case by (rule order_UNIV(2))
next
  case (3 f c old n) then show ?case by (rule core_closes_field)
next
  case (4 d c old n) then show ?case by (rule core_closes_ref)
next
  case (5 d c n old l l') then show ?case by (rule core_needs_ref)
next
  case (6 pre c post d) then show ?case by (rule core_refs_before)
next
  case (7 pre c post n l' l) then show ?case by (rule core_needs_later)
next
  case (8 c n l) then show ?case by (rule core_needs_enabled)
next
  case (9 c old n) then show ?case by (rule core_enabled_kept)
qed

abbreviation node_current :: "(component, conf_value) machine \<Rightarrow> bool" where
  "node_current \<equiv> current core_spec core_stale core_loose core_enabled"

text \<open>In every reachable state the resources are current, and the path manager asks the running whitelist.\<close>

lemma core_reach_current:
  "core_reach s \<Longrightarrow> node_current (resources s) \<and>
     (live (resources s) CPublishWhitelist \<longrightarrow> pm_adminStore s = id_of (resources s) CPublishWhitelist)"
proof (induction rule: core_reach.induct)
  case (start fails c s)
  then show ?case using node.start_current [of fails c] by (auto simp: core_start_def split: sum.splits)
next
  case (reload s fails n s')
  then obtain m where m: "Reload_Machine.reload core_spec core_closes core_reloads core_order fails n (resources s) = Inr m"
    "resources s' = m"
    "id_of m CPublishWhitelist \<noteq> None \<longrightarrow> pm_adminStore s' = id_of m CPublishWhitelist"
    by (auto simp: reloadConf_def split: sum.splits option.splits)
  from node.reload_current [OF _ m(1)] reload.IH m(2,3) show ?case by (auto simp: live_def id_of_def)
qed

section \<open>Properties\<close>

lemma reach_fresh:
  assumes "core_reach s" "m_inst (resources s) c = Some i"
  shows "fresh core_spec core_stale core_loose (resources s) c i"
  using core_reach_current [OF assms(1)] assms(2) by (simp add: current_def)

text \<open>C7.
  No resource is left behind by a reload. In every state the node reaches by starting and by reloading
  any sequence of configurations, each running resource works with the current value of every field it
  reads, except for the fields of \<open>core_stale\<close>, and refers to the running instance of every resource
  it was given, except for the administration server, which refers to an API server; nothing that the
  configuration asks for is missing; and the path manager asks the whitelist that is running.
\<close>
theorem core_reload_current:
  assumes "core_reach s"
  shows "(\<forall>c i f v. m_inst (resources s) c = Some i \<and> (f, v) \<in> set (in_conf i) \<and> f \<notin> set (core_stale c) \<longrightarrow>
      v = mc_conf (resources s) f) \<and>
    (\<forall>c i. m_inst (resources s) c = Some i \<longrightarrow> map fst (in_conf i) = sp_fields (core_spec c)) \<and>
    (\<forall>c i d r. m_inst (resources s) c = Some i \<and> (d, r) \<in> set (in_refs i) \<and> (c, d) \<noteq> (CAdminSrv, CAPI) \<longrightarrow>
      r = id_of (resources s) d) \<and>
    (\<forall>c. sp_needs (core_spec c) (mc_conf (resources s)) (live (resources s)) \<longrightarrow> live (resources s) c) \<and>
    (live (resources s) CPublishWhitelist \<longrightarrow> pm_adminStore s = id_of (resources s) CPublishWhitelist)"
proof (intro conjI)
  show "\<forall>c i f v. m_inst (resources s) c = Some i \<and> (f, v) \<in> set (in_conf i) \<and> f \<notin> set (core_stale c) \<longrightarrow>
      v = mc_conf (resources s) f" using reach_fresh [OF assms] by (fastforce simp: fresh_def)
  show "\<forall>c i. m_inst (resources s) c = Some i \<longrightarrow> map fst (in_conf i) = sp_fields (core_spec c)"
    using reach_fresh [OF assms] by (simp add: fresh_def)
  show "\<forall>c i d r. m_inst (resources s) c = Some i \<and> (d, r) \<in> set (in_refs i) \<and> (c, d) \<noteq> (CAdminSrv, CAPI) \<longrightarrow>
      r = id_of (resources s) d" using reach_fresh [OF assms] by (fastforce simp: fresh_def core_loose_def)
qed (use core_reach_current [OF assms] in \<open>auto simp: current_def live_def\<close>)

text \<open>A node with an SRT server and the control server, reloaded with another address for the SRT server.\<close>

definition srt_conf :: core_conf where
  "srt_conf = (\<lambda>_. VNil)(''SRT'' := VBool True, ''MMXControl'' := VBool True, ''SRTAddress'' := VStr '':8890'',
     ''AdminAddress'' := VStr [])"

lemma node_starts: obtains s where "core_start (\<lambda>_. False) c = Some s" "core_reach s" "mc_conf (resources s) = c"
proof -
  from create_all_total obtain m where m: "create_all core_spec (\<lambda>_. False) core_order
      \<lparr>mc_conf = c, m_inst = (\<lambda>_. None), m_next = 0\<rparr> = Inr m" by blast
  then have "core_start (\<lambda>_. False) c = Some \<lparr>resources = m, pm_adminStore = id_of m CPublishWhitelist\<rparr>"
    by (simp add: core_start_def)
  then show ?thesis using that core_reach.start create_all_keeps(1) [OF m] by fastforce
qed

lemma node_reloads: obtains s' where "reloadConf (\<lambda>_. False) n s = Inr s'" "mc_conf (resources s') = n"
proof -
  obtain m where m: "reload core_spec core_closes core_reloads core_order (\<lambda>_. False) n (resources s) = Inr m"
    using create_all_total unfolding reload_def by blast
  then have "mc_conf m = n" using create_all_keeps(1) unfolding reload_def by fastforce
  with m that show ?thesis by (fastforce simp: reloadConf_def)
qed

theorem core_reload_current_witness:
  "\<exists>s s' i. core_start (\<lambda>_. False) srt_conf = Some s \<and>
     reloadConf (\<lambda>_. False) (srt_conf(''SRTAddress'' := VStr '':9000'')) s = Inr s' \<and>
     m_inst (resources s') CSRTServer = Some i \<and> (\<forall>v. (''SRTAddress'', v) \<in> set (in_conf i) \<longrightarrow> v = VStr '':9000'') \<and>
     pm_adminStore s' = id_of (resources s') CPublishWhitelist \<and> live (resources s') CPublishWhitelist"
proof -
  let ?n = "srt_conf(''SRTAddress'' := VStr '':9000'')"
  obtain s where s: "core_start (\<lambda>_. False) srt_conf = Some s" "core_reach s" by (rule node_starts)
  obtain s' where s': "reloadConf (\<lambda>_. False) ?n s = Inr s'" "mc_conf (resources s') = ?n" by (rule node_reloads)
  have "core_reach s'" using core_reach.reload [OF s(2) s'(1)] .
  note cur = core_reload_current [OF this]
  have live: "live (resources s') CSRTServer" "live (resources s') CPublishWhitelist"
    using cur s'(2) by (simp_all add: core_needs srt_conf_def)
  then obtain i where i: "m_inst (resources s') CSRTServer = Some i" by (auto simp: live_def)
  have "''SRTAddress'' \<notin> set (core_stale CSRTServer)" by code_simp
  then have "\<forall>v. (''SRTAddress'', v) \<in> set (in_conf i) \<longrightarrow> v = VStr '':9000''"
    using conjunct1 [OF cur] i s'(2) by (metis fun_upd_same)
  with s s' i live cur show ?thesis by blast
qed

text \<open>
  The exceptions are real: the conditions that close a resource do not look at its stale fields.
  Unless the read buffer of the RTSP servers is set, whose pointers always differ.
\<close>

definition pm_chain :: "string list list" where
  "pm_chain = [cmpPathManager, cmpMetrics, cmpAuthManager, cmpLogger]"

fun core_chain :: "component \<Rightarrow> string list list" where
  "core_chain CPathManager = pm_chain"
| "core_chain CRTSPSServer = cmpRTSPSServer # pm_chain"
| "core_chain CWebRTCServer = cmpWebRTCServer # cmpDegradeManager # pm_chain"
| "core_chain CTrafficUsage = cmpWebRTCServer # cmpDegradeManager # pm_chain"
| "core_chain CSRTServer = cmpSRTServer # cmpDegradeManager # pm_chain"
| "core_chain CAPI = cmpAPI # cmpRTSPServer # cmpRTSPSServer # cmpRTMPServer # cmpRTMPSServer # cmpHLSServer #
     cmpWebRTCServer # cmpSRTServer # cmpMoQServer # cmpDegradeManager # pm_chain"
| "core_chain _ = []"

lemma stale_not_compared:
  "list_all (\<lambda>c. list_all (\<lambda>f. f \<noteq> ''RTSPUDPReadBufferSize'' \<and> list_all (\<lambda>fs. f \<notin> set fs) (core_chain c)) (core_stale c))
     core_order"
  by code_simp

lemma differ_upd: "f \<notin> set fs \<Longrightarrow> \<not> differ fs (old(f := v)) old"
  by (auto simp: differ_def)

lemma core_stale_kept:
  assumes "f \<in> set (core_stale c)" "old ''RTSPUDPReadBufferSize'' = VNil"
  shows "\<not> core_closes c (old(f := v)) old"
proof -
  have "c \<in> set core_order" using order_UNIV by simp
  with stale_not_compared assms(1) have f: "f \<noteq> ''RTSPUDPReadBufferSize''" "\<And>fs. fs \<in> set (core_chain c) \<Longrightarrow> f \<notin> set fs"
    by (auto simp: list_all_iff)
  have "\<not> differ fs (old(f := v)) old" if "fs \<in> set (core_chain c)" for fs using differ_upd f(2) that by blast
  moreover have "\<not> ptr_differ ''RTSPUDPReadBufferSize'' (old(f := v)) old" using f(1) assms(2) by (simp add: ptr_differ_def)
  ultimately show ?thesis using assms(1) by (cases c) (simp_all add: close_defs pm_chain_def)
qed

lemma map_of_reload_inst:
  assumes "f \<notin> set fs"
  shows "map_of (in_conf (reload_inst fs n i)) f = map_of (in_conf i) f"
proof -
  have "map_of (map (\<lambda>(g, v). (g, if g \<in> set fs then n g else v)) xs) f = map_of xs f" for xs
    using assms by (induction xs) auto
  then show ?thesis by (simp add: reload_inst_def)
qed

lemma stale_not_reloaded: "f \<in> set (core_stale c) \<Longrightarrow> f \<notin> set (core_reloads c)"
  by (cases c) auto

text \<open>C16.
  The stale fields are not reached by a reload: when the new configuration differs from the old one in
  such a field only, the resource that reads it keeps running with the value it had. Among the
  fields are the one that makes a publish token compulsory for SRT and the key of these tokens, so a
  reload that sets them changes nothing for the SRT server. (The read buffer size of the RTSP servers is
  required to be unset, since its pointers always differ and restart the RTSP servers and the API.)
\<close>
theorem core_reload_misses_stale:
  assumes "f \<in> set (core_stale c)" "m_inst (resources s) c = Some i"
    and "mc_conf (resources s) ''RTSPUDPReadBufferSize'' = VNil"
    and "reloadConf fails ((mc_conf (resources s))(f := v)) s = Inr s'"
  shows "\<exists>i'. m_inst (resources s') c = Some i' \<and> in_id i' = in_id i \<and> map_of (in_conf i') f = map_of (in_conf i) f"
proof -
  let ?n = "(mc_conf (resources s))(f := v)"
  from assms(4) have "create_all core_spec fails core_order
      ((close_changed core_closes core_reloads ?n (resources s))\<lparr>mc_conf := ?n\<rparr>) = Inr (resources s')"
    by (auto simp: reloadConf_def reload_def split: sum.splits)
  moreover have "m_inst ((close_changed core_closes core_reloads ?n (resources s))\<lparr>mc_conf := ?n\<rparr>) c =
      Some (reload_inst (core_reloads c) ?n i)"
    using core_stale_kept [of f c "mc_conf (resources s)"] assms(1-3) by (simp add: close_changed_def)
  ultimately have "m_inst (resources s') c = Some (reload_inst (core_reloads c) ?n i)" by (rule create_all_keeps(2))
  then show ?thesis using map_of_reload_inst stale_not_reloaded [OF assms(1)] by (auto simp: reload_inst_def)
qed

lemma token_stale: "''SRTPublishTokenRequired'' \<in> set (core_stale CSRTServer)"
  "''SRTPublishTokenRequired'' \<in> set (sp_fields (core_spec CSRTServer))"
  by code_simp+

theorem core_reload_misses_stale_witness:
  "\<exists>s s' i i'. core_start (\<lambda>_. False) srt_conf = Some s \<and>
     reloadConf (\<lambda>_. False) (srt_conf(''SRTPublishTokenRequired'' := VBool True)) s = Inr s' \<and>
     m_inst (resources s) CSRTServer = Some i \<and> m_inst (resources s') CSRTServer = Some i' \<and> in_id i' = in_id i \<and>
     map_of (in_conf i') ''SRTPublishTokenRequired'' = map_of (in_conf i) ''SRTPublishTokenRequired''"
proof -
  obtain s where s: "core_start (\<lambda>_. False) srt_conf = Some s" "core_reach s" "mc_conf (resources s) = srt_conf"
    by (rule node_starts)
  have "live (resources s) CSRTServer" using core_reach_current [OF s(2)] s(3)
    by (auto simp: current_def live_def core_needs srt_conf_def)
  then obtain i where i: "m_inst (resources s) CSRTServer = Some i" by (auto simp: live_def)
  obtain s' where s': "reloadConf (\<lambda>_. False) (srt_conf(''SRTPublishTokenRequired'' := VBool True)) s = Inr s'"
    by (rule node_reloads)
  have "srt_conf ''RTSPUDPReadBufferSize'' = VNil" by (simp add: srt_conf_def)
  with core_reload_misses_stale [OF token_stale(1) i, where fails = "\<lambda>_. False" and v = "VBool True"] s s' i show ?thesis by metis
qed

end
