(* ===== verification/Path_Validate.thy ===== *)
theory Path_Validate
  imports Path_Manager Auth_Manager
begin

text \<open>
  \<^verbatim>\<open>internal/conf/path.go\<close>, \<open>validate\<close>: the checks that a path configuration passes before it is used, with
  the fields it converts and fills, its effect on the other cameras of the configuration and on the
  internal users. An error is the text of its message without the values printed in it. The outside
  is a record of functions: the compilation of a regular expression, \<^verbatim>\<open>url.Parse\<close>, the URL parser of
  gortsplib, the files and the parser of MP4 files.
\<close>

section \<open>Data\<close>

record rpi_camera =
  cam_CamID :: nat
  cam_Secondary :: bool
  cam_Width :: nat
  cam_Height :: nat
  cam_Exposure :: string
  cam_AWB :: string
  cam_AWBGains :: "f64 list"
  cam_Denoise :: string
  cam_Metering :: string
  cam_FPS :: f64
  cam_AfMode :: string
  cam_AfRange :: string
  cam_AfSpeed :: string
  cam_Codec :: string
  cam_Profile :: "string option"
  cam_Level :: "string option"
  cam_HardwareH264Profile :: string
  cam_HardwareH264Level :: string
  cam_SoftwareH264Profile :: string
  cam_SoftwareH264Level :: string
  cam_JPEGQuality :: "nat option"
  cam_MJPEGQuality :: nat
  cam_PrimaryName :: string
  cam_SecondaryWidth :: nat
  cam_SecondaryHeight :: nat
  cam_SecondaryFPS :: f64
  cam_SecondaryMJPEGQuality :: nat

text \<open>
  The configuration of a path with the fields that only the validation reads. \<open>RPICamera\<close> and
  \<open>OtherSettings\<close> of \<open>path_conf\<close>, the printed form of the remaining fields, are not looked at here.
\<close>

record conf_path = path_conf +
  SRTReadPassphrase :: string
  SRTPublishPassphrase :: string
  DisablePublisherOverride :: "bool option"
  SourceProtocol :: "string option"
  RTSPTransport :: string
  SourceAnyPortEnable :: "bool option"
  RTSPAnyPort :: bool
  RTPSDP :: string
  WHEPVideoTrackCount :: int
  camera :: rpi_camera
  AlwaysAvailableTracks :: "string list"
  AlwaysAvailableFile :: string
  UseAbsoluteTimestamp :: bool
  PublishUser :: "string option"
  PublishPass :: "string option"
  PublishIPs :: "ip_network list option"
  ReadUser :: "string option"
  ReadPass :: "string option"
  ReadIPs :: "ip_network list option"
  RunOnInit :: string
  RunOnUnDemand :: string

record url_parts =
  url_Scheme :: string
  url_Host :: string
  url_User :: "(string \<times> string) option"

text \<open>The codecs of the tracks of an MP4 file.\<close>

datatype mp4_codec =
  CodecAV1 | CodecVP9 | CodecH265 | CodecH264 | CodecOpus | CodecMPEG4Audio | CodecLPCM | CodecOther string

text \<open>
  The outside: the contents of a file, and what the media library finds in an MP4 file, are functions of
  the record too.
\<close>

record conf_env =
  regexp_Compile :: "string \<Rightarrow> bool"
  url_Parse :: "string \<Rightarrow> url_parts option"
  base_ParseURL :: "string \<Rightarrow> bool"
  os_Open :: "string \<Rightarrow> string option"
  presentation_Unmarshal :: "string \<Rightarrow> mp4_codec list option"

text \<open>What \<open>validate\<close> reads of the rest of the configuration.\<close>

record path_globals =
  g_IngestThreadEnable :: bool
  g_ForwardMmxEnable :: bool
  g_WebRTCForwardSecret :: string
  g_Playback :: bool

type_synonym conf_error = string

text \<open>A sequence of checks: the error of the first condition that holds.\<close>

fun first_error :: "(bool \<times> conf_error) list \<Rightarrow> conf_error option" where
  "first_error [] = None"
| "first_error ((b, e) # cs) = (if b then Some e else first_error cs)"

section \<open>Strings\<close>

text \<open>\<^verbatim>\<open>strings.Contains\<close>\<close>

fun contains_sub :: "string \<Rightarrow> string \<Rightarrow> bool" where
  "contains_sub [] sub = (sub = [])"
| "contains_sub (c # cs) sub = (prefix sub (c # cs) \<or> contains_sub cs sub)"

lemma contains_sub_iff: "contains_sub s sub \<longleftrightarrow> sublist sub s"
  by (induction s) (auto simp: sublist_Cons_right)

text \<open>
  \<^verbatim>\<open>ReplaceAllString\<close> of the expressions \<^verbatim>\<open>:\$G[0-9]+\<close> (with \<open>pre\<close> a colon) and \<^verbatim>\<open>\$G[0-9]+\<close> (with \<open>pre\<close>
  empty).
\<close>

function replace_refs :: "string \<Rightarrow> string \<Rightarrow> string \<Rightarrow> string" where
  "replace_refs pre rep s =
     (case s of
        [] \<Rightarrow> []
      | c # cs \<Rightarrow>
          let start = pre @ ''$G''; rest = drop (length start) s
          in if prefix start s \<and> takeWhile is_digit rest \<noteq> []
             then rep @ replace_refs pre rep (dropWhile is_digit rest)
             else c # replace_refs pre rep cs)"
  by auto

termination
proof (relation "measure (\<lambda>(pre, rep, s). length s)")
  fix pre rep s c cs start and rest :: string
  assume "s = c # cs" "start = pre @ ''$G''" "rest = drop (length start) s"
  then have "length (dropWhile is_digit rest) \<le> length rest" "length rest < length s" "length (dropWhile is_digit rest) < length s"
    using length_dropWhile_le [of is_digit rest] by (auto intro: le_less_trans [OF length_dropWhile_le])
  then show "((pre, rep, dropWhile is_digit rest), pre, rep, s) \<in> measure (\<lambda>(pre, rep, s). length s)" by simp
qed auto

declare replace_refs.simps [simp del]

text \<open>Whether \<^verbatim>\<open>net.SplitHostPort\<close> succeeds.\<close>

definition splits_host_port :: "string \<Rightarrow> bool" where
  "splits_host_port hp =
     (if CHR '':'' \<notin> set hp then False
      else let i = length hp - Suc (length (takeWhile (\<lambda>c. c \<noteq> CHR '':'') (rev hp))) in
        if hd hp = CHR ''['' then
          (let e = length (takeWhile (\<lambda>c. c \<noteq> CHR '']'') hp)
           in CHR '']'' \<in> set hp \<and> e + 1 = i \<and> CHR ''['' \<notin> set (drop 1 hp) \<and> CHR '']'' \<notin> set (drop (e + 1) hp))
        else CHR '':'' \<notin> set (take i hp) \<and> CHR ''['' \<notin> set hp \<and> CHR '']'' \<notin> set hp)"

section \<open>Checks of single fields\<close>

definition checkSRTPassphrase :: "string \<Rightarrow> bool" where
  "checkSRTPassphrase p \<longleftrightarrow> \<not> (length p < 10 \<or> 79 < length p)"

definition checkRedirect :: "conf_env \<Rightarrow> string \<Rightarrow> bool" where
  "checkRedirect env v =
     (if prefix ''/'' v then IsValidPathName (drop 1 v) = None else base_ParseURL env v)"

definition validateURL :: "conf_env \<Rightarrow> string \<Rightarrow> conf_error + url_parts" where
  "validateURL env src =
     (case url_Parse env (replace_refs '''' ''abc'' (replace_refs '':'' '':1935'' src)) of
        None \<Rightarrow> Inl ''is not a valid URL''
      | Some u \<Rightarrow>
          if url_Scheme u = [] \<or> url_Host u = [] then Inl ''is not a valid URL''
          else case url_User u of
                 None \<Rightarrow> Inr u
               | Some (user, pass) \<Rightarrow>
                   if user \<noteq> [] \<and> pass = [] \<or> user = [] \<and> pass \<noteq> []
                   then Inl ''username and password must be both provided'' else Inr u)"

definition checkMP4MagicBytes :: "string \<Rightarrow> bool" where
  "checkMP4MagicBytes f \<longleftrightarrow> 8 \<le> length f \<and> take 4 (drop 4 f) = ''ftyp''"

definition checkAlwaysAvailableFile :: "conf_env \<Rightarrow> string \<Rightarrow> bool" where
  "checkAlwaysAvailableFile env fpath =
     (case os_Open env fpath of
        None \<Rightarrow> False
      | Some f \<Rightarrow>
          if \<not> checkMP4MagicBytes f then False
          else case presentation_Unmarshal env f of
                 None \<Rightarrow> False
               | Some codecs \<Rightarrow>
                   codecs \<noteq> [] \<and>
                   list_all (\<lambda>c. case c of CodecOther _ \<Rightarrow> False | _ \<Rightarrow> True) codecs)"

definition url_error :: "conf_env \<Rightarrow> string \<Rightarrow> conf_error option" where
  "url_error env src = (case validateURL env src of Inl e \<Rightarrow> Some e | Inr _ \<Rightarrow> None)"

definition port_error :: "conf_env \<Rightarrow> string \<Rightarrow> conf_error option" where
  "port_error env src =
     (case validateURL env src of
        Inl e \<Rightarrow> Some e
      | Inr u \<Rightarrow> if splits_host_port (url_Host u) then None else Some ''is missing the port'')"

definition starts_with :: "string list \<Rightarrow> string \<Rightarrow> bool" where
  "starts_with ps s \<longleftrightarrow> (\<exists>p \<in> set ps. prefix p s)"

section \<open>validate\<close>

text \<open>The name and its expression.\<close>

definition set_name :: "conf_env \<Rightarrow> string \<Rightarrow> conf_path \<Rightarrow> conf_error + conf_path" where
  "set_name env name p0 =
     (let p = p0\<lparr>Name := name\<rparr>
      in if name = ''all_others'' \<or> name = ''all'' then Inr (p\<lparr>Regexp := Some ''^(.*)$''\<rparr>)
         else if name = [] \<or> hd name \<noteq> CHR ''~'' then
           (if IsValidPathName name = None then Inr p else Inl ''invalid path name'')
         else if regexp_Compile env (tl name) then Inr (p\<lparr>Regexp := Some (tl name)\<rparr>)
         else Inl ''invalid regular expression'')"

definition common_checks :: "conf_path \<Rightarrow> (bool \<times> conf_error) list" where
  "common_checks p =
     [(SRTPublishPassphrase p \<noteq> [] \<and> Source p \<noteq> ''publisher'', ''srtPublishPassphase can only be used when source is publisher''),
      (Source p \<noteq> ''redirect'' \<and> SourceRedirect p \<noteq> [], ''sourceRedirect is useless when source is not redirect'')]"

definition ingest_disables :: "path_globals \<Rightarrow> conf_path \<Rightarrow> conf_path" where
  "ingest_disables g p =
     (if g_IngestThreadEnable g then p\<lparr>ForwardTencent := False, ForwardMmx := False\<rparr> else p)"

definition fill_token :: "string \<Rightarrow> mmx_target \<Rightarrow> mmx_target" where
  "fill_token secret t = (if TargetToken t = [] then t\<lparr>TargetToken := secret\<rparr> else t)"

definition fill_tokens :: "path_globals \<Rightarrow> conf_path \<Rightarrow> conf_path" where
  "fill_tokens g p =
     (if ForwardMmx p then
        p\<lparr>ForwardMmxToken := (if ForwardMmxToken p = [] then g_WebRTCForwardSecret g else ForwardMmxToken p),
          ForwardMmxTargets := map (fill_token (g_WebRTCForwardSecret g)) (ForwardMmxTargets p)\<rparr>
      else p)"

definition path_MmxTargets :: "conf_path \<Rightarrow> mmx_target list" where
  "path_MmxTargets p = MmxTargets (path_conf.truncate p)"

definition forward_checks :: "path_globals \<Rightarrow> conf_path \<Rightarrow> (bool \<times> conf_error) list" where
  "forward_checks g p =
     (if ForwardMmx p then
        [(\<not> g_ForwardMmxEnable g, ''forwardMmx requires the account-level forwardMmxEnable to be true''),
         (path_MmxTargets p = [], ''forwardMmxURL or forwardMmxTargets must be set when forwardMmx is true'')] @
        concat (map (\<lambda>t. [(TargetURL t = [], ''forwardMmx target: url must not be empty''),
                          (TargetToken t = [], ''forwardMmx target: no token: set MMX_FORWARD_SECRET in .env'')])
                 (path_MmxTargets p))
      else [])"

text \<open>The camera of a path: the fields replaced by deprecated ones, then the values allowed.\<close>

definition convert_camera :: "rpi_camera \<Rightarrow> rpi_camera" where
  "convert_camera c =
     c\<lparr>cam_HardwareH264Profile := (case cam_Profile c of Some v \<Rightarrow> v | None \<Rightarrow> cam_HardwareH264Profile c),
       cam_HardwareH264Level := (case cam_Level c of Some v \<Rightarrow> v | None \<Rightarrow> cam_HardwareH264Level c),
       cam_MJPEGQuality := (case cam_JPEGQuality c of Some v \<Rightarrow> v | None \<Rightarrow> cam_MJPEGQuality c)\<rparr>"

definition camera_checks :: "rpi_camera \<Rightarrow> (bool \<times> conf_error) list" where
  "camera_checks c =
     [(cam_Width c = 0, ''invalid rpiCameraWidth value''),
      (cam_Height c = 0, ''invalid rpiCameraHeight value''),
      (cam_Exposure c \<notin> set [''normal'', ''short'', ''long'', ''custom''], ''invalid rpiCameraExposure value''),
      (cam_AWB c \<notin> set [''auto'', ''incandescent'', ''tungsten'', ''fluorescent'', ''indoor'', ''daylight'', ''cloudy'', ''custom''],
       ''invalid rpiCameraAWB value''),
      (length (cam_AWBGains c) \<noteq> 2, ''invalid rpiCameraAWBGains value''),
      (cam_Denoise c \<notin> set [''off'', ''cdn_off'', ''cdn_fast'', ''cdn_hq''], ''invalid rpiCameraDenoise value''),
      (cam_Metering c \<notin> set [''centre'', ''spot'', ''matrix'', ''custom''], ''invalid rpiCameraMetering value''),
      (cam_AfMode c \<notin> set [''auto'', ''manual'', ''continuous''], ''invalid rpiCameraAfMode value''),
      (cam_AfRange c \<notin> set [''normal'', ''macro'', ''full''], ''invalid rpiCameraAfRange value''),
      (cam_AfSpeed c \<notin> set [''normal'', ''fast''], ''invalid rpiCameraAfSpeed value''),
      (cam_HardwareH264Profile c \<notin> set [''baseline'', ''main'', ''high''], ''invalid rpiCameraHardwareH264Profile value''),
      (cam_HardwareH264Level c \<notin> set [''4.0'', ''4.1'', ''4.2''], ''invalid rpiCameraHardwareH264Level value''),
      (cam_SoftwareH264Profile c \<notin> set [''baseline'', ''main'', ''high''], ''invalid rpiCameraSoftwareH264Profile value''),
      (cam_SoftwareH264Level c \<notin> set [''4.0'', ''4.1'', ''4.2''], ''invalid rpiCameraSoftwareH264Level value'')]"

text \<open>
  The primary stream of the camera of \<open>p\<close> among the other paths. The code ranges over a map and may find
  any of several; the validation then fails in every order, when it comes to one of them.
\<close>

definition is_primary_of :: "nat \<Rightarrow> conf_path \<Rightarrow> bool" where
  "is_primary_of cid q \<longleftrightarrow>
     Source q = ''rpiCamera'' \<and> cam_CamID (camera q) = cid \<and> \<not> cam_Secondary (camera q)"

definition other_primary :: "string \<Rightarrow> nat \<Rightarrow> (string \<times> conf_path) list \<Rightarrow> (string \<times> conf_path) option" where
  "other_primary name cid ps = List.find (\<lambda>(k, q). k \<noteq> name \<and> is_primary_of cid q) ps"

definition note_secondary :: "rpi_camera \<Rightarrow> conf_path \<Rightarrow> conf_path" where
  "note_secondary c q =
     q\<lparr>camera := (camera q)\<lparr>cam_SecondaryWidth := cam_Width c, cam_SecondaryHeight := cam_Height c,
         cam_SecondaryFPS := cam_FPS c, cam_SecondaryMJPEGQuality := cam_MJPEGQuality c\<rparr>\<rparr>"

text \<open>The branch of a camera: the path and the configuration with the primary stream updated.\<close>

definition validate_camera ::
  "string \<Rightarrow> (string \<times> conf_path) list \<Rightarrow> conf_path \<Rightarrow> conf_error + (conf_path \<times> (string \<times> conf_path) list)" where
  "validate_camera name ps p =
     (let c = convert_camera (camera p); p' = p\<lparr>camera := c\<rparr> in
      case first_error (camera_checks c) of
        Some e \<Rightarrow> Inl e
      | None \<Rightarrow>
          if \<not> cam_Secondary c then
            (if cam_Codec c \<notin> set [''auto'', ''hardwareH264'', ''softwareH264''] then
               Inl ''supported codecs for a primary RPI Camera stream are auto, hardwareH264, softwareH264''
             else if other_primary name (cam_CamID c) ps \<noteq> None then
               Inl ''rpiCamera with same camera ID is used as source in two paths''
             else Inr (p', ps))
          else if cam_Codec c \<notin> set [''auto'', ''mjpeg''] then
            Inl ''supported codecs for a secondary RPI Camera stream are auto, mjpeg''
          else case other_primary name (cam_CamID c) ps of
                 None \<Rightarrow> Inl ''cannot find a primary RPI Camera stream to associate with the secondary stream''
               | Some (primaryName, primary) \<Rightarrow>
                   if cam_SecondaryWidth (camera primary) \<noteq> 0 then
                     Inl ''a primary RPI Camera stream is associated with multiple secondary streams''
                   else Inr (p'\<lparr>camera := c\<lparr>cam_PrimaryName := primaryName\<rparr>\<rparr>,
                             AList.update primaryName (note_secondary c primary) ps))"

text \<open>The switch on the source.\<close>

definition no_error ::
  "conf_error option \<Rightarrow> 'a \<Rightarrow> conf_error + 'a" where
  "no_error e r = (case e of Some x \<Rightarrow> Inl x | None \<Rightarrow> Inr r)"

definition validate_source ::
  "conf_env \<Rightarrow> string \<Rightarrow> (string \<times> conf_path) list \<Rightarrow> conf_path \<Rightarrow> conf_error + (conf_path \<times> (string \<times> conf_path) list)" where
  "validate_source env name ps p =
     (let src = Source p in
      if src = ''publisher'' then
        no_error (if SRTPublishPassphrase p \<noteq> [] \<and> \<not> checkSRTPassphrase (SRTPublishPassphrase p)
                  then Some ''invalid srtPublishPassphrase'' else None)
          (p\<lparr>OverridePublisher := (case DisablePublisherOverride p of Some b \<Rightarrow> \<not> b | None \<Rightarrow> OverridePublisher p)\<rparr>, ps)
      else if starts_with [''rtsp://'', ''rtsps://'', ''rtsp+http://'', ''rtsps+http://'', ''rtsp+ws://'', ''rtsps+ws://''] src then
        no_error (url_error env src)
          (p\<lparr>RTSPTransport := (case SourceProtocol p of Some v \<Rightarrow> v | None \<Rightarrow> RTSPTransport p),
             RTSPAnyPort := (case SourceAnyPortEnable p of Some v \<Rightarrow> v | None \<Rightarrow> RTSPAnyPort p)\<rparr>, ps)
      else if starts_with [''rtmp://'', ''rtmps://''] src then no_error (url_error env src) (p, ps)
      else if starts_with [''http://'', ''https://''] src then no_error (url_error env src) (p, ps)
      else if starts_with [''udp://''] src then no_error (port_error env src) (p, ps)
      else if starts_with [''udp+mpegts://''] src then no_error (port_error env src) (p, ps)
      else if starts_with [''unix+mpegts://''] src then Inr (p, ps)
      else if starts_with [''udp+rtp://''] src then
        no_error (case port_error env src of
                    Some e \<Rightarrow> Some e
                  | None \<Rightarrow> if RTPSDP p = [] then Some ''rtpSDP was not provided'' else None) (p, ps)
      else if starts_with [''unix+rtp://''] src then
        no_error (if RTPSDP p = [] then Some ''rtpSDP was not provided'' else None) (p, ps)
      else if starts_with [''srt://''] src then no_error (url_error env src) (p, ps)
      else if starts_with [''whep://'', ''wheps://''] src then
        no_error (case url_error env src of
                    Some e \<Rightarrow> Some e
                  | None \<Rightarrow> if WHEPVideoTrackCount p < 0 \<or> 4 < WHEPVideoTrackCount p
                            then Some ''whepVideoTrackCount must be between 0 and 4'' else None) (p, ps)
      else if src = ''redirect'' then
        no_error (first_error [(SourceRedirect p = [], ''source redirect must be filled''),
                               (\<not> checkRedirect env (SourceRedirect p), ''not a valid redirect'')]) (p, ps)
      else if src = ''rpiCamera'' then validate_camera name ps p
      else Inl ''invalid source'')"

definition demand_checks :: "conf_env \<Rightarrow> conf_path \<Rightarrow> (bool \<times> conf_error) list" where
  "demand_checks env p =
     [(SourceOnDemand p \<and> Source p = ''publisher'', ''sourceOnDemand is useless when source is publisher''),
      (\<not> SourceOnDemand p \<and> Source p \<noteq> ''publisher'' \<and> Source p \<noteq> ''redirect'' \<and> Regexp p \<noteq> None,
       ''a path with a regular expression and a static source must have sourceOnDemand set to true''),
      (SRTReadPassphrase p \<noteq> [] \<and> \<not> checkSRTPassphrase (SRTReadPassphrase p), ''invalid readRTPassphrase''),
      (\<exists>v \<in> set_option (Fallback p). \<not> checkRedirect env v, ''not a valid redirect'')]"

definition available_checks :: "conf_env \<Rightarrow> conf_path \<Rightarrow> (bool \<times> conf_error) list" where
  "available_checks env p =
     (if AlwaysAvailable p then
        [(Regexp p \<noteq> None, ''alwaysAvailable cannot be used in a path with a regular expression''),
         (SourceOnDemand p, ''sourceOnDemand is not compatible with alwaysAvailable''),
         (RunOnDemand p \<noteq> [] \<or> RunOnUnDemand p \<noteq> [], ''runOnDemand and runOnUnDemand cannot be used with alwaysAvailable''),
         (AlwaysAvailableFile p \<noteq> [] \<and> AlwaysAvailableTracks p \<noteq> [],
          ''alwaysAvailableFile and alwaysAvailableTracks cannot be used together''),
         (AlwaysAvailableFile p \<noteq> [] \<and> \<not> checkAlwaysAvailableFile env (AlwaysAvailableFile p), ''invalid alwaysAvailableFile''),
         (AlwaysAvailableFile p = [] \<and> AlwaysAvailableTracks p = [], ''alwaysAvailableTracks must contain at least one track''),
         (UseAbsoluteTimestamp p, ''useAbsoluteTimestamp cannot be used with alwaysAvailable'')]
      else [])"

definition record_checks :: "path_globals \<Rightarrow> conf_path \<Rightarrow> (bool \<times> conf_error) list" where
  "record_checks g p =
     (let rp = RecordPath p in
      [(\<not> contains_sub rp ''%path'', ''recordPath must contain %path''),
       (\<not> contains_sub rp ''%s'' \<and> \<not> list_all (contains_sub rp) [''%Y'', ''%m'', ''%d'', ''%H'', ''%M'', ''%S''],
        ''recordPath must contain either %s or %Y %m %d %H %M %S''),
       (g_Playback g \<and> \<not> contains_sub rp ''%f'', ''recordPath must contain %f''),
       (24 * 3600 * time_Second < RecordSegmentDuration p, ''maximum segment duration is 1 day''),
       (RecordDeleteAfter p \<noteq> 0 \<and> RecordDeleteAfter p < RecordSegmentDuration p,
        ''recordDeleteAfter cannot be lower than recordSegmentDuration'')])"

definition hook_checks :: "conf_path \<Rightarrow> (bool \<times> conf_error) list" where
  "hook_checks p =
     [(RunOnInit p \<noteq> [] \<and> Regexp p \<noteq> None, ''a path with a regular expression does not support option runOnInit''),
      ((RunOnDemand p \<noteq> [] \<or> RunOnUnDemand p \<noteq> []) \<and> Source p \<noteq> ''publisher'',
       ''runOnDemand and runOnUnDemand can be used only when source is publisher'')]"

text \<open>The users that the deprecated credentials of a path stand for.\<close>

definition any_network :: ip_network where
  "any_network = \<lparr>net_IP = [0, 0, 0, 0], net_Mask = [0, 0, 0, 0]\<rparr>"

definition credential_user ::
  "auth_action \<Rightarrow> string \<Rightarrow> string option \<Rightarrow> string option \<Rightarrow> ip_network list option \<Rightarrow> internal_user" where
  "credential_user action name user pass ips =
     \<lparr>iu_User = (case user of Some u \<Rightarrow> if u = [] then ''any'' else u | None \<Rightarrow> ''any''),
      iu_Pass = (case pass of Some w \<Rightarrow> w | None \<Rightarrow> []),
      iu_IPs = (case ips of Some ns \<Rightarrow> if ns = [] then [any_network] else ns | None \<Rightarrow> [any_network]),
      iu_Permissions = [\<lparr>perm_Action = action,
        perm_Path = (if name = ''all_others'' \<or> name = ''all'' then ''~^.*$'' else name)\<rparr>]\<rparr>"

definition deprecated_users :: "string \<Rightarrow> conf_path \<Rightarrow> internal_user list" where
  "deprecated_users name p =
     [credential_user AuthActionPublish name (PublishUser p) (PublishPass p) (PublishIPs p),
      credential_user AuthActionRead name (ReadUser p) (ReadPass p) (ReadIPs p)]"

text \<open>
  The whole: the entry of \<open>name\<close> is replaced, and the users to be added are the second result. The
  checks behind the switch on the source come in the order of the code; none of them changes the path.
\<close>

definition path_validate ::
  "conf_env \<Rightarrow> path_globals \<Rightarrow> bool \<Rightarrow> string \<Rightarrow> (string \<times> conf_path) list \<Rightarrow> conf_path \<Rightarrow>
   conf_error + ((string \<times> conf_path) list \<times> internal_user list)" where
  "path_validate env g deprecatedMode name ps p0 =
     (case set_name env name p0 of
        Inl e \<Rightarrow> Inl e
      | Inr p1 \<Rightarrow>
          (case first_error (common_checks p1) of
             Some e \<Rightarrow> Inl e
           | None \<Rightarrow>
               let p2 = fill_tokens g (ingest_disables g p1) in
               (case first_error (forward_checks g p2) of
                  Some e \<Rightarrow> Inl e
                | None \<Rightarrow>
                    (case validate_source env name ps p2 of
                       Inl e \<Rightarrow> Inl e
                     | Inr (p3, ps') \<Rightarrow>
                         no_error (first_error (demand_checks env p3 @ available_checks env p3 @ record_checks g p3 @ hook_checks p3))
                           (AList.update name p3 ps', if deprecatedMode then deprecated_users name p3 else [])))))"

section \<open>What a validated path satisfies\<close>

text \<open>
  The configuration as paths and the path manager see it; \<open>render\<close> prints the camera settings and the
  remaining fields.
\<close>

type_synonym renderer = "conf_path \<Rightarrow> (string \<times> string) list \<times> (string \<times> string) list"

definition as_conf :: "renderer \<Rightarrow> conf_path \<Rightarrow> path_conf" where
  "as_conf render p = (path_conf.truncate p)\<lparr>RPICamera := fst (render p), OtherSettings := snd (render p)\<rparr>"

lemma as_conf_simps [simp]:
  "Name (as_conf r p) = Name p" "Regexp (as_conf r p) = Regexp p" "Source (as_conf r p) = Source p"
  "SourceOnDemand (as_conf r p) = SourceOnDemand p" "AlwaysAvailable (as_conf r p) = AlwaysAvailable p"
  "RunOnDemand (as_conf r p) = RunOnDemand p" "RecordPath (as_conf r p) = RecordPath p"
  "RecordSegmentDuration (as_conf r p) = RecordSegmentDuration p" "RecordDeleteAfter (as_conf r p) = RecordDeleteAfter p"
  by (simp_all add: as_conf_def path_conf.truncate_def)

lemma first_error_None: "first_error cs = None \<longleftrightarrow> (\<forall>(b, e) \<in> set cs. \<not> b)"
  by (induction cs rule: first_error.induct) auto

lemma first_error_append [simp]:
  "first_error (xs @ ys) = None \<longleftrightarrow> first_error xs = None \<and> first_error ys = None"
  by (auto simp: first_error_None)

lemma no_error_Inr [simp]: "no_error e r = Inr x \<longleftrightarrow> e = None \<and> x = r"
  by (cases e) (auto simp: no_error_def)

lemma starts_with_known: "starts_with ps s \<Longrightarrow> set ps \<subseteq> set static_source_prefixes \<Longrightarrow> known_static_source s"
  by (auto simp: starts_with_def known_static_source_def)

text \<open>What a path keeps while it is validated, and the fields of its camera that never change.\<close>

definition same_core :: "conf_path \<Rightarrow> conf_path \<Rightarrow> bool" where
  "same_core p q \<longleftrightarrow>
     Name q = Name p \<and> Regexp q = Regexp p \<and> Source q = Source p \<and> SourceOnDemand q = SourceOnDemand p \<and>
     AlwaysAvailable q = AlwaysAvailable p \<and> RunOnDemand q = RunOnDemand p \<and>
     PublishUser q = PublishUser p \<and> PublishPass q = PublishPass p \<and> PublishIPs q = PublishIPs p \<and>
     RecordPath q = RecordPath p \<and> RecordSegmentDuration q = RecordSegmentDuration p \<and> RecordDeleteAfter q = RecordDeleteAfter p \<and>
     cam_CamID (camera q) = cam_CamID (camera p) \<and> cam_Secondary (camera q) = cam_Secondary (camera p)"

lemma same_core_refl [simp]: "same_core p p"
  by (simp add: same_core_def)

lemma same_core_note [simp]: "same_core p (note_secondary c p)"
  by (simp add: same_core_def note_secondary_def)

lemma same_core_convert [simp]:
  "same_core p (p\<lparr>camera := convert_camera (camera p)\<rparr>)"
  "same_core p (p\<lparr>camera := (convert_camera (camera p))\<lparr>cam_PrimaryName := n\<rparr>\<rparr>)"
  by (simp_all add: same_core_def convert_camera_def)

lemma same_core_primary: "same_core p q \<Longrightarrow> is_primary_of cid q \<longleftrightarrow> is_primary_of cid p"
  by (simp add: same_core_def is_primary_of_def)

lemma conf_ok_core: "same_core p q \<Longrightarrow> conf_ok (as_conf r p) \<longleftrightarrow> conf_ok (as_conf r' q)"
  by (simp add: same_core_def conf_ok_def HasStaticSource_def)

text \<open>
  What the validation promises of recordings: a segment has its time in its name, lasts at most a day, and is not
  deleted while it can still be written to.
\<close>

definition record_ok :: "path_conf \<Rightarrow> bool" where
  "record_ok c \<longleftrightarrow>
     contains_sub (RecordPath c) ''%path'' \<and>
     (contains_sub (RecordPath c) ''%s'' \<or> list_all (contains_sub (RecordPath c)) [''%Y'', ''%m'', ''%d'', ''%H'', ''%M'', ''%S'']) \<and>
     RecordSegmentDuration c \<le> 24 * 3600 * time_Second \<and>
     (RecordDeleteAfter c = 0 \<or> RecordSegmentDuration c \<le> RecordDeleteAfter c)"

lemma record_ok_core: "same_core p q \<Longrightarrow> record_ok (as_conf r p) \<longleftrightarrow> record_ok (as_conf r' q)"
  by (simp add: same_core_def record_ok_def)

lemma record_checks_ok: "first_error (record_checks g p) = None \<Longrightarrow> record_ok (as_conf r p)"
  by (auto simp: record_checks_def record_ok_def Let_def split: if_splits)

text \<open>The branch of a camera.\<close>

lemma other_primary_Some:
  assumes "other_primary name cid ps = Some (k, q)" "distinct (map fst ps)"
  shows "k \<noteq> name" "map_of ps k = Some q" "is_primary_of cid q"
proof -
  from assms(1) have "(k, q) \<in> set ps" "k \<noteq> name \<and> is_primary_of cid q"
    by (auto simp: other_primary_def find_Some_iff in_set_conv_nth)
  with assms(2) show "k \<noteq> name" "map_of ps k = Some q" "is_primary_of cid q" by auto
qed

lemma other_primary_None:
  "other_primary name cid ps = None \<Longrightarrow> map_of ps k = Some q \<Longrightarrow> is_primary_of cid q \<Longrightarrow> k = name"
  by (auto simp: other_primary_def find_None_iff dest!: map_of_SomeD)

lemma validate_camera_Inr:
  assumes "validate_camera name ps p = Inr (p', ps')" "distinct (map fst ps)"
  obtains (primary) "\<not> cam_Secondary (camera p)" "same_core p p'" "ps' = ps"
      "cam_SecondaryWidth (camera p') = cam_SecondaryWidth (camera p)"
      "\<And>k q. map_of ps k = Some q \<Longrightarrow> is_primary_of (cam_CamID (camera p)) q \<Longrightarrow> k = name"
    | (secondary) k q where "cam_Secondary (camera p)" "same_core p p'" "k \<noteq> name" "map_of ps k = Some q"
      "is_primary_of (cam_CamID (camera p)) q" "cam_SecondaryWidth (camera q) = 0"
      "cam_PrimaryName (camera p') = k" "0 < cam_Width (camera p')"
      "ps' = AList.update k (note_secondary (convert_camera (camera p)) q) ps"
      "cam_Width (convert_camera (camera p)) = cam_Width (camera p')"
      "cam_SecondaryWidth (camera p') = cam_SecondaryWidth (camera p)"
proof -
  let ?c = "convert_camera (camera p)"
  have core: "cam_CamID ?c = cam_CamID (camera p)" "cam_Secondary ?c = cam_Secondary (camera p)" "cam_SecondaryWidth ?c = cam_SecondaryWidth (camera p)"
    by (simp_all add: convert_camera_def)
  have ok: "first_error (camera_checks ?c) = None"
    using assms(1) by (auto simp: validate_camera_def Let_def split: option.splits)
  then have width: "cam_Width ?c \<noteq> 0" by (auto simp: camera_checks_def split: if_splits)
  show ?thesis
  proof (cases "cam_Secondary (camera p)")
    case False
    with assms(1) ok core have "p' = p\<lparr>camera := ?c\<rparr>" "ps' = ps" "other_primary name (cam_CamID (camera p)) ps = None"
      by (auto simp: validate_camera_def Let_def simp del: not_None_eq split: if_splits)
    with False other_primary_None [of name _ ps] core show ?thesis by (intro primary) auto
  next
    case True
    with assms(1) ok core obtain k q where kq: "other_primary name (cam_CamID (camera p)) ps = Some (k, q)"
      "cam_SecondaryWidth (camera q) = 0" "p' = p\<lparr>camera := ?c\<lparr>cam_PrimaryName := k\<rparr>\<rparr>"
      "ps' = AList.update k (note_secondary ?c q) ps"
      by (auto simp: validate_camera_def Let_def split: if_splits option.splits)
    with True other_primary_Some [OF kq(1) assms(2)] width core show ?thesis by (intro secondary) auto
  qed
qed

text \<open>The switch on the source.\<close>

lemma validate_source_camera:
  "Source p = ''rpiCamera'' \<Longrightarrow> validate_source env name ps p = validate_camera name ps p"
  by (simp add: validate_source_def starts_with_def Let_def)

lemma validate_source_other:
  assumes "validate_source env name ps p = Inr (p', ps')" "Source p \<noteq> ''rpiCamera''"
  shows "same_core p p'" "ps' = ps" "camera p' = camera p" "HasStaticSource (as_conf r p) \<Longrightarrow> known_static_source (Source p)"
proof -
  have "same_core p p' \<and> ps' = ps \<and> camera p' = camera p \<and> (Source p = ''publisher'' \<or> Source p = ''redirect'' \<or> known_static_source (Source p))"
    using assms
    by (auto simp: validate_source_def Let_def same_core_def static_source_prefixes_def
        split: if_splits intro: starts_with_known)
  then show "same_core p p'" "ps' = ps" "camera p' = camera p" "HasStaticSource (as_conf r p) \<Longrightarrow> known_static_source (Source p)"
    by (auto simp: HasStaticSource_def)
qed

lemma set_name_Inr:
  assumes "set_name env name p = Inr p1"
  shows "Name p1 = name" "Source p1 = Source p" "camera p1 = camera p"
    "PublishUser p1 = PublishUser p" "PublishPass p1 = PublishPass p" "PublishIPs p1 = PublishIPs p"
  using assms by (auto simp: set_name_def Let_def split: if_splits)

lemma fill_same_core: "same_core p (fill_tokens g (ingest_disables g p))"
  by (simp add: same_core_def fill_tokens_def ingest_disables_def)

lemma validate_source_Inr:
  assumes "validate_source env name ps p = Inr (p', ps')" "distinct (map fst ps)"
  shows "same_core p p'" "HasStaticSource (as_conf r p) \<Longrightarrow> known_static_source (Source p)"
proof -
  show "same_core p p'"
  proof (cases "Source p = ''rpiCamera''")
    case True
    with assms(1) have "validate_camera name ps p = Inr (p', ps')" by (simp add: validate_source_camera)
    then show ?thesis by (rule validate_camera_Inr [OF _ assms(2)]) auto
  qed (rule validate_source_other(1) [OF assms(1)])
  show "HasStaticSource (as_conf r p) \<Longrightarrow> known_static_source (Source p)"
    using validate_source_other(4) [OF assms(1)] by (cases "Source p = ''rpiCamera''") (simp_all add: known_static_source_def)
qed

text \<open>
  The stages of a successful validation: the path after its name, tokens and source were handled, and
  the checks it has passed.
\<close>

lemma path_validate_Inr:
  assumes "path_validate env g dm name ps p = Inr (ps2, us)"
  obtains p2 p3 ps' where "Name p2 = name" "Source p2 = Source p" "camera p2 = camera p"
    "validate_source env name ps p2 = Inr (p3, ps')" "ps2 = AList.update name p3 ps'"
    "us = (if dm then deprecated_users name p3 else [])"
    "first_error (demand_checks env p3) = None" "first_error (available_checks env p3) = None"
    "first_error (record_checks g p3) = None" "first_error (hook_checks p3) = None"
    "PublishUser p2 = PublishUser p" "PublishPass p2 = PublishPass p" "PublishIPs p2 = PublishIPs p"
proof -
  from assms obtain p1 where p1: "set_name env name p = Inr p1"
    by (auto simp: path_validate_def split: sum.splits)
  let ?p2 = "fill_tokens g (ingest_disables g p1)"
  from assms p1 obtain p3 ps' where "validate_source env name ps ?p2 = Inr (p3, ps')" "ps2 = AList.update name p3 ps'"
    "us = (if dm then deprecated_users name p3 else [])"
    "first_error (demand_checks env p3) = None" "first_error (available_checks env p3) = None"
    "first_error (record_checks g p3) = None" "first_error (hook_checks p3) = None"
    by (auto simp: path_validate_def Let_def split: option.splits sum.splits)
  moreover have "Name ?p2 = name" "Source ?p2 = Source p" "camera ?p2 = camera p"
    "PublishUser ?p2 = PublishUser p" "PublishPass ?p2 = PublishPass p" "PublishIPs ?p2 = PublishIPs p"
    using set_name_Inr [OF p1] by (simp_all add: fill_tokens_def ingest_disables_def)
  ultimately show ?thesis using that by blast
qed

lemma checks_conf_ok:
  assumes "first_error (demand_checks env p) = None" "first_error (available_checks env p) = None"
    "first_error (hook_checks p) = None" "HasStaticSource (as_conf r p) \<Longrightarrow> known_static_source (Source p)"
  shows "conf_ok (as_conf r p)"
proof -
  from assms(1-3) have "\<not> SourceOnDemand p \<and> Source p \<noteq> ''publisher'' \<and> Source p \<noteq> ''redirect'' \<longrightarrow> Regexp p = None"
    "AlwaysAvailable p \<longrightarrow> Regexp p = None \<and> \<not> SourceOnDemand p \<and> RunOnDemand p = []"
    "RunOnDemand p \<noteq> [] \<longrightarrow> Source p = ''publisher''"
    by (auto simp: demand_checks_def available_checks_def hook_checks_def split: if_splits)
  with assms(4) show ?thesis by (auto simp: conf_ok_def HasStaticSource_def)
qed

text \<open>
  One path of a configuration: it becomes acceptable to the path and the path manager, and the others keep what
  these depend on.
\<close>

definition kept :: "(string \<times> conf_path) list \<Rightarrow> (string \<times> conf_path) list \<Rightarrow> bool" where
  "kept ps qs \<longleftrightarrow> map fst qs = map fst ps \<and> (\<forall>k p. map_of ps k = Some p \<longrightarrow> (\<exists>q. map_of qs k = Some q \<and> same_core p q))"

lemma kept_refl [simp]: "kept ps ps"
  by (simp add: kept_def)

lemma update_keys: "k \<in> set (map fst ps) \<Longrightarrow> map fst (AList.update k v ps) = map fst ps"
  by (induction ps) auto

lemma kept_update:
  assumes "map_of ps k = Some p" "same_core p q"
  shows "kept ps (AList.update k q ps)"
proof -
  have "k \<in> set (map fst ps)" using assms(1) by (metis map_of_eq_None_iff option.distinct(1) set_map)
  from update_keys [OF this] assms show ?thesis by (auto simp: kept_def update_conv)
qed

lemma validate_source_kept:
  assumes "validate_source env name ps p = Inr (p', ps')" "distinct (map fst ps)"
  shows "kept ps ps'" "map_of ps' name = map_of ps name"
proof -
  have "kept ps ps' \<and> map_of ps' name = map_of ps name"
  proof (cases "Source p = ''rpiCamera''")
    case True
    with assms(1) have "validate_camera name ps p = Inr (p', ps')" by (simp add: validate_source_camera)
    then show ?thesis
      by (rule validate_camera_Inr [OF _ assms(2)]) (auto intro: kept_update simp: update_conv)
  next
    case False
    then show ?thesis using validate_source_other(2) [OF assms(1)] by simp
  qed
  then show "kept ps ps'" "map_of ps' name = map_of ps name" by simp_all
qed

lemma path_validate_ok:
  assumes "path_validate env g dm name ps p = Inr (ps2, us)" "distinct (map fst ps)" "map_of ps name = Some p"
  shows "map fst ps2 = map fst ps"
    "\<exists>q. map_of ps2 name = Some q \<and> Name q = name \<and> conf_ok (as_conf r q) \<and> record_ok (as_conf r q) \<and> Source q = Source p"
    "k \<noteq> name \<Longrightarrow> map_of ps k = Some p1 \<Longrightarrow> \<exists>q1. map_of ps2 k = Some q1 \<and> same_core p1 q1"
proof -
  obtain p2 p3 ps' where st: "Name p2 = name" "Source p2 = Source p"
    "validate_source env name ps p2 = Inr (p3, ps')" "ps2 = AList.update name p3 ps'"
    "first_error (demand_checks env p3) = None" "first_error (available_checks env p3) = None" "first_error (hook_checks p3) = None"
    "first_error (record_checks g p3) = None"
    using path_validate_Inr [OF assms(1)] by metis
  note src = validate_source_Inr [OF st(3) assms(2)] and kp = validate_source_kept [OF st(3) assms(2)]
  have "name \<in> set (map fst ps')" using assms(3) kp by (metis kept_def map_of_eq_None_iff option.distinct(1) set_map)
  from update_keys [OF this] show "map fst ps2 = map fst ps" using st(4) kp(1) by (simp add: kept_def)
  have "HasStaticSource (as_conf r p3) \<Longrightarrow> known_static_source (Source p3)"
    using src by (simp add: same_core_def HasStaticSource_def)
  from checks_conf_ok [OF st(5-7) this] record_checks_ok [OF st(8)] src(1) st(1,2,4)
  show "\<exists>q. map_of ps2 name = Some q \<and> Name q = name \<and> conf_ok (as_conf r q) \<and> record_ok (as_conf r q) \<and> Source q = Source p"
    by (intro exI [of _ p3]) (simp add: same_core_def update_conv)
  show "k \<noteq> name \<Longrightarrow> map_of ps k = Some p1 \<Longrightarrow> \<exists>q1. map_of ps2 k = Some q1 \<and> same_core p1 q1"
    using kp(1) st(4) by (auto simp: kept_def update_conv)
qed

text \<open>In the deprecated mode the users of the path are added.\<close>

lemma path_validate_users:
  assumes "path_validate env g True name ps p = Inr (ps2, us)" "distinct (map fst ps)"
  shows "credential_user AuthActionPublish name (PublishUser p) (PublishPass p) (PublishIPs p) \<in> set us"
proof -
  obtain p2 p3 ps' where "validate_source env name ps p2 = Inr (p3, ps')" "us = deprecated_users name p3"
    "PublishUser p2 = PublishUser p" "PublishPass p2 = PublishPass p" "PublishIPs p2 = PublishIPs p"
    using path_validate_Inr [OF assms(1)] by metis
  with validate_source_Inr(1) [OF _ assms(2)] show ?thesis by (fastforce simp: same_core_def deprecated_users_def)
qed

section \<open>Cameras\<close>

text \<open>What happens to the other paths: at most a secondary stream is noted.\<close>

definition noted :: "conf_path \<Rightarrow> conf_path \<Rightarrow> bool" where
  "noted p q \<longleftrightarrow> q = p \<or> (\<exists>c. 0 < cam_Width c \<and> q = note_secondary c p)"

lemma noted_refl [simp]: "noted p p"
  by (simp add: noted_def)

lemma notedD:
  assumes "noted p q"
  shows "same_core p q" "cam_PrimaryName (camera q) = cam_PrimaryName (camera p)"
    "0 < cam_SecondaryWidth (camera p) \<Longrightarrow> 0 < cam_SecondaryWidth (camera q)"
  using assms by (auto simp: noted_def note_secondary_def same_core_def)

text \<open>One step of the validation as the cameras see it.\<close>

definition cam_step :: "string \<Rightarrow> (string \<times> conf_path) list \<Rightarrow> (string \<times> conf_path) list \<Rightarrow> conf_path \<Rightarrow> conf_path \<Rightarrow> bool" where
  "cam_step name ps ps2 p q \<longleftrightarrow>
     map_of ps name = Some p \<and> map_of ps2 name = Some q \<and> Source q = Source p \<and>
     cam_CamID (camera q) = cam_CamID (camera p) \<and> cam_Secondary (camera q) = cam_Secondary (camera p) \<and>
     cam_SecondaryWidth (camera q) = cam_SecondaryWidth (camera p) \<and> map fst ps2 = map fst ps \<and>
     (\<forall>k p1. k \<noteq> name \<and> map_of ps k = Some p1 \<longrightarrow> (\<exists>q1. map_of ps2 k = Some q1 \<and> noted p1 q1)) \<and>
     (Source p = ''rpiCamera'' \<and> \<not> cam_Secondary (camera p) \<longrightarrow>
        (\<forall>k p1. map_of ps k = Some p1 \<and> is_primary_of (cam_CamID (camera p)) p1 \<longrightarrow> k = name)) \<and>
     (Source p = ''rpiCamera'' \<and> cam_Secondary (camera p) \<longrightarrow>
        (\<exists>p1 q1. cam_PrimaryName (camera q) \<noteq> name \<and> map_of ps (cam_PrimaryName (camera q)) = Some p1 \<and>
           is_primary_of (cam_CamID (camera p)) p1 \<and> cam_SecondaryWidth (camera p1) = 0 \<and>
           map_of ps2 (cam_PrimaryName (camera q)) = Some q1 \<and> 0 < cam_SecondaryWidth (camera q1)))"

lemma path_validate_cam_step:
  assumes "path_validate env g dm name ps p = Inr (ps2, us)" "distinct (map fst ps)" "map_of ps name = Some p"
  shows "\<exists>q. cam_step name ps ps2 p q"
proof -
  obtain p2 p3 ps' where st: "Source p2 = Source p" "camera p2 = camera p"
    "validate_source env name ps p2 = Inr (p3, ps')" "ps2 = AList.update name p3 ps'"
    using path_validate_Inr [OF assms(1)] by metis
  have core: "same_core p2 p3" using validate_source_Inr(1) [OF st(3) assms(2)] .
  have mine: "map_of ps2 name = Some p3" "map fst ps2 = map fst ps"
    using st(4) path_validate_ok(1) [OF assms] by (simp_all add: update_conv)
  have "cam_step name ps ps2 p p3"
  proof (cases "Source p = ''rpiCamera''")
    case False
    then have "ps' = ps" "camera p3 = camera p2" using validate_source_other(2,3) [OF st(3)] st(1) by simp_all
    with mine core st(1,2,4) False assms(3) show ?thesis by (auto simp: cam_step_def same_core_def update_conv)
  next
    case True
    with st(1,3) have cam: "validate_camera name ps p2 = Inr (p3, ps')" by (simp add: validate_source_camera)
    show ?thesis
    proof (rule validate_camera_Inr [OF cam assms(2)])
      assume "\<not> cam_Secondary (camera p2)" "ps' = ps" "cam_SecondaryWidth (camera p3) = cam_SecondaryWidth (camera p2)"
        and "\<And>k q. map_of ps k = Some q \<Longrightarrow> is_primary_of (cam_CamID (camera p2)) q \<Longrightarrow> k = name"
      with mine core st(1,2,4) assms(3) show ?thesis by (auto simp: cam_step_def same_core_def update_conv)
    next
      fix k q
      let ?q1 = "note_secondary (convert_camera (camera p2)) q"
      assume se: "cam_Secondary (camera p2)" "k \<noteq> name" "map_of ps k = Some q" "is_primary_of (cam_CamID (camera p2)) q"
        "cam_SecondaryWidth (camera q) = 0" "cam_PrimaryName (camera p3) = k" "0 < cam_Width (camera p3)"
        "ps' = AList.update k ?q1 ps" "cam_Width (convert_camera (camera p2)) = cam_Width (camera p3)"
        "cam_SecondaryWidth (camera p3) = cam_SecondaryWidth (camera p2)"
      have "noted q ?q1" unfolding noted_def using se(7,9) by (intro disjI2 exI [of _ "convert_camera (camera p2)"]) simp
      moreover have "0 < cam_SecondaryWidth (camera ?q1)" using se(7,9) by (simp add: note_secondary_def)
      ultimately show ?thesis using mine core st(1,2,4) se assms(3)
        by (auto simp: cam_step_def same_core_def update_conv)
    qed
  qed
  then show ?thesis ..
qed

text \<open>Going back: an entry after the step comes from one before it.\<close>

lemma cam_step_back:
  assumes "cam_step name ps ps2 p q" "k \<noteq> name" "map_of ps2 k = Some q1"
  obtains p1 where "map_of ps k = Some p1" "noted p1 q1"
proof -
  have "k \<in> fst ` set ps2" using assms(3) by (metis map_of_eq_None_iff option.distinct(1))
  then have "k \<in> fst ` set ps" using assms(1) by (metis cam_step_def set_map)
  then obtain p1 where "map_of ps k = Some p1" by (metis map_of_eq_None_iff not_None_eq)
  with assms that show ?thesis unfolding cam_step_def by fastforce
qed

lemma cam_step_primary:
  assumes "cam_step name ps ps2 p q" "map_of ps2 k = Some q1" "is_primary_of cid q1"
  obtains p1 where "map_of ps k = Some p1" "is_primary_of cid p1"
proof (cases "k = name")
  case True
  with assms that show ?thesis by (auto simp: cam_step_def is_primary_of_def)
next
  case False
  obtain p1 where "map_of ps k = Some p1" "noted p1 q1" by (rule cam_step_back [OF assms(1) False assms(2)])
  with assms(3) that show ?thesis using notedD(1) same_core_primary by blast
qed

text \<open>A primary stream that has a secondary one keeps it.\<close>

lemma cam_step_paired:
  assumes st: "cam_step name ps ps2 p q" and k: "map_of ps k = Some p2" "is_primary_of cid p2" "0 < cam_SecondaryWidth (camera p2)"
  obtains q2 where "map_of ps2 k = Some q2" "is_primary_of cid q2" "0 < cam_SecondaryWidth (camera q2)"
proof (cases "k = name")
  case True
  with st k that show ?thesis by (auto simp: cam_step_def is_primary_of_def)
next
  case False
  with st k(1) obtain q2 where "map_of ps2 k = Some q2" "noted p2 q2" unfolding cam_step_def by blast
  with k(2,3) that show ?thesis using notedD(1,3) same_core_primary by blast
qed

text \<open>
  The pairing of the streams of a camera, for the paths validated so far: no other path has a primary
  stream of the same camera, and a secondary stream has a primary stream of its own.
\<close>

definition camera_primary :: "conf_path \<Rightarrow> bool" where
  "camera_primary p \<longleftrightarrow> Source p = ''rpiCamera'' \<and> \<not> cam_Secondary (camera p)"

definition camera_secondary :: "conf_path \<Rightarrow> bool" where
  "camera_secondary p \<longleftrightarrow> Source p = ''rpiCamera'' \<and> cam_Secondary (camera p)"

definition cameras_paired :: "string set \<Rightarrow> (string \<times> conf_path) list \<Rightarrow> bool" where
  "cameras_paired D ps \<longleftrightarrow>
     (\<forall>k \<in> D. \<forall>p. map_of ps k = Some p \<and> camera_primary p \<longrightarrow>
        (\<forall>k' q. map_of ps k' = Some q \<and> is_primary_of (cam_CamID (camera p)) q \<longrightarrow> k' = k)) \<and>
     (\<forall>k \<in> D. \<forall>p. map_of ps k = Some p \<and> camera_secondary p \<longrightarrow>
        (\<exists>q. map_of ps (cam_PrimaryName (camera p)) = Some q \<and> is_primary_of (cam_CamID (camera p)) q \<and>
             0 < cam_SecondaryWidth (camera q))) \<and>
     (\<forall>k \<in> D. \<forall>k' \<in> D. \<forall>p p'. map_of ps k = Some p \<and> map_of ps k' = Some p' \<and> k \<noteq> k' \<and>
        camera_secondary p \<and> camera_secondary p' \<longrightarrow> cam_PrimaryName (camera p) \<noteq> cam_PrimaryName (camera p'))"

lemma cameras_paired_empty [simp]: "cameras_paired {} ps"
  by (simp add: cameras_paired_def)

lemma noted_roles:
  "noted p q \<Longrightarrow> camera_primary q \<longleftrightarrow> camera_primary p" "noted p q \<Longrightarrow> camera_secondary q \<longleftrightarrow> camera_secondary p"
  "noted p q \<Longrightarrow> cam_CamID (camera q) = cam_CamID (camera p)"
  using notedD(1) [of p q] by (auto simp: same_core_def camera_primary_def camera_secondary_def)

lemma cam_step_unique:
  assumes "cameras_paired D ps" "cam_step name ps ps2 p q" "k \<in> insert name D" "map_of ps2 k = Some q1" "camera_primary q1"
    "map_of ps2 k' = Some q2" "is_primary_of (cam_CamID (camera q1)) q2"
  shows "k' = k"
proof -
  obtain p2 where p2: "map_of ps k' = Some p2" "is_primary_of (cam_CamID (camera q1)) p2"
    by (rule cam_step_primary [OF assms(2,6,7)])
  show ?thesis
  proof (cases "k = name")
    case True
    with assms(2,4,5) p2 show ?thesis unfolding cam_step_def camera_primary_def by force
  next
    case False
    obtain p1 where p1: "map_of ps k = Some p1" "noted p1 q1" by (rule cam_step_back [OF assms(2) False assms(4)])
    with assms(1,3,5) False p2 noted_roles [OF p1(2)] show ?thesis unfolding cameras_paired_def by simp
  qed
qed

lemma cam_step_has_primary:
  assumes "cameras_paired D ps" "cam_step name ps ps2 p q" "k \<in> insert name D" "map_of ps2 k = Some q1" "camera_secondary q1"
  shows "\<exists>r. map_of ps2 (cam_PrimaryName (camera q1)) = Some r \<and> is_primary_of (cam_CamID (camera q1)) r \<and>
    0 < cam_SecondaryWidth (camera r)"
proof (cases "k = name")
  case True
  with assms(2,4,5) obtain p1 r where r: "cam_PrimaryName (camera q1) \<noteq> name"
    "map_of ps (cam_PrimaryName (camera q1)) = Some p1" "is_primary_of (cam_CamID (camera q1)) p1"
    "map_of ps2 (cam_PrimaryName (camera q1)) = Some r" "0 < cam_SecondaryWidth (camera r)"
    unfolding cam_step_def camera_secondary_def by auto
  with assms(2) have "noted p1 r" unfolding cam_step_def by force
  with r same_core_primary notedD(1) show ?thesis by blast
next
  case False
  obtain p1 where p1: "map_of ps k = Some p1" "noted p1 q1" by (rule cam_step_back [OF assms(2) False assms(4)])
  with assms(1,3,5) False noted_roles [OF p1(2)] notedD(2) [OF p1(2)] obtain p2 where
    p2: "map_of ps (cam_PrimaryName (camera q1)) = Some p2" "is_primary_of (cam_CamID (camera q1)) p2"
    "0 < cam_SecondaryWidth (camera p2)" unfolding cameras_paired_def by force
  show ?thesis by (rule cam_step_paired [OF assms(2) p2]) blast
qed

text \<open>The primary stream that a new secondary one takes had none before.\<close>

lemma cam_step_new_primary:
  assumes "cameras_paired D ps" "cam_step name ps ps2 p q" "camera_secondary q"
    "k \<in> D" "k \<noteq> name" "map_of ps2 k = Some q1" "camera_secondary q1"
  shows "cam_PrimaryName (camera q1) \<noteq> cam_PrimaryName (camera q)"
proof -
  obtain p1 where p1: "map_of ps k = Some p1" "noted p1 q1" by (rule cam_step_back [OF assms(2,5,6)])
  with assms(1,4,7) noted_roles [OF p1(2)] notedD(2) [OF p1(2)] have
    "\<exists>r. map_of ps (cam_PrimaryName (camera q1)) = Some r \<and> 0 < cam_SecondaryWidth (camera r)"
    unfolding cameras_paired_def by force
  moreover have "\<exists>r. map_of ps (cam_PrimaryName (camera q)) = Some r \<and> cam_SecondaryWidth (camera r) = 0"
    using assms(2,3) unfolding cam_step_def camera_secondary_def by auto
  ultimately show ?thesis by auto
qed

lemma cam_step_distinct:
  assumes "cameras_paired D ps" "cam_step name ps ps2 p q" "k \<in> insert name D" "k' \<in> insert name D" "k \<noteq> k'"
    "map_of ps2 k = Some q1" "map_of ps2 k' = Some q2" "camera_secondary q1" "camera_secondary q2"
  shows "cam_PrimaryName (camera q1) \<noteq> cam_PrimaryName (camera q2)"
proof -
  have mine: "map_of ps2 name = Some q" using assms(2) by (simp add: cam_step_def)
  consider "k = name" | "k' = name" | "k \<noteq> name" "k' \<noteq> name" by blast
  then show ?thesis
  proof cases
    case 1
    with mine assms show ?thesis using cam_step_new_primary [OF assms(1,2), of k' q2] by auto
  next
    case 2
    with mine assms show ?thesis using cam_step_new_primary [OF assms(1,2), of k q1] by auto
  next
    case 3
    obtain p1 where p1: "map_of ps k = Some p1" "noted p1 q1" by (rule cam_step_back [OF assms(2) 3(1) assms(6)])
    obtain p2 where p2: "map_of ps k' = Some p2" "noted p2 q2" by (rule cam_step_back [OF assms(2) 3(2) assms(7)])
    from assms(1,3-5,8,9) 3 p1(1) p2(1) noted_roles(2) [OF p1(2)] noted_roles(2) [OF p2(2)]
    have "cam_PrimaryName (camera p1) \<noteq> cam_PrimaryName (camera p2)" unfolding cameras_paired_def by blast
    then show ?thesis using notedD(2) [OF p1(2)] notedD(2) [OF p2(2)] by simp
  qed
qed

lemma cameras_paired_step:
  assumes "cameras_paired D ps" "path_validate env g dm name ps p = Inr (ps2, us)" "distinct (map fst ps)" "map_of ps name = Some p"
  shows "cameras_paired (insert name D) ps2"
proof -
  obtain q where st: "cam_step name ps ps2 p q" using path_validate_cam_step [OF assms(2-4)] ..
  show ?thesis unfolding cameras_paired_def
    by (intro conjI ballI allI impI; elim conjE)
      ((rule cam_step_unique [OF assms(1) st] cam_step_has_primary [OF assms(1) st] cam_step_distinct [OF assms(1) st];
        assumption)+)
qed

end
