(* ===== verification/Conf_Validate.thy ===== *)
theory Conf_Validate
  imports Path_Validate Srt_Publish
begin

text \<open>
  \<^verbatim>\<open>internal/conf/conf.go\<close>, \<open>Validate\<close>: the conversion of deprecated settings, the checks of the global
  settings in the order of the code, the construction of the paths from the defaults and the entries
  of the configuration, and their validation. Warnings are left out. The settings are grouped in
  records by the sections of the struct; only those that \<open>Validate\<close> reads or writes are here. Slices are
  never nil, as \<open>Load\<close> replaces nil slices by empty ones; \<open>SRTReceiverBufferSize\<close> is the size after its
  conversion to \<^verbatim>\<open>int\<close>.
\<close>

unbundle bit_operations_syntax

section \<open>Data\<close>

record conf_general =
  ReadBufferCount :: "int option"
  ReadTimeout :: int
  WriteTimeout :: int
  WriteQueueSize :: int
  UDPMaxPayloadSize :: int

record conf_auth =
  ExternalAuthenticationURL :: "string option"
  AuthMethod :: auth_method
  AuthInternalUsers :: "internal_user list"
  AuthHTTPAddress :: string
  AuthJWTJWKS :: string
  AuthJWTClaimKey :: string

text \<open>The sections of the API, the metrics, the profiler and the playback server have the same form.\<close>

record http_service =
  hs_Enabled :: bool
  hs_Address :: string
  hs_AllowOrigin :: "string option"
  hs_AllowOrigins :: "string list"

datatype encryption = EncryptionNo | EncryptionOptional | EncryptionStrict

datatype rtsp_transport = ProtocolUDP | ProtocolUDPMulticast | ProtocolTCP

datatype rtsp_auth = VerifyMethodBasic | VerifyMethodDigestMD5

record conf_rtsp =
  RTSPDisable :: "bool option"
  Protocols :: "rtsp_transport list option"
  Encryption :: "encryption option"
  AuthMethods :: "rtsp_auth list option"
  ServerCert :: "string option"
  ServerKey :: "string option"
  RTSP :: bool
  RTSPTransports :: "rtsp_transport list"
  RTSPEncryption :: encryption
  RTSPAuthMethods :: "rtsp_auth list"
  RTSPServerCert :: string
  RTSPServerKey :: string
  RTSPAddress :: string
  RTPAddress :: string
  RTCPAddress :: string
  MulticastIPRange :: string
  MulticastRTPPort :: int
  MulticastRTCPPort :: int
  RTSPSAddress :: string
  SRTPAddress :: string
  SRTCPAddress :: string
  MulticastSRTPPort :: int
  MulticastSRTCPPort :: int

record conf_rtmp =
  RTMPDisable :: "bool option"
  RTMP :: bool
  RTMPAddress :: string

record conf_hls =
  HLSDisable :: "bool option"
  HLSAllowOrigin :: "string option"
  HLS :: bool
  HLSAllowOrigins :: "string list"
  HLSAddress :: string
  HLSCDNSecret :: string

record ice_server =
  ice_URL :: string
  ice_Username :: string
  ice_Password :: string
  ice_ClientOnly :: bool

record conf_webrtc =
  WebRTCDisable :: "bool option"
  WebRTCICEUDPMuxAddress :: "string option"
  WebRTCICETCPMuxAddress :: "string option"
  WebRTCICEHostNAT1To1IPs :: "string list option"
  WebRTCICEServers :: "string list option"
  WebRTCAllowOrigin :: "string option"
  WebRTC :: bool
  WebRTCAddress :: string
  WebRTCLocalUDPAddress :: string
  WebRTCLocalTCPAddress :: string
  WebRTCAdditionalHosts :: "string list"
  WebRTCICEServers2 :: "ice_server list"
  WebRTCAllowOrigins :: "string list"
  WebRTCIPsFromInterfaces :: bool
  SplitRecAuthMode :: string
  WebRTCWHIPAuthKey :: string
  WebRTCDegradeEnable :: bool
  WebRTCRecoverInstantLossPct :: go_float
  WebRTCDegradeInstantLossPct :: go_float
  WebRTCRecoverAvgLossPct :: go_float
  WebRTCDegradeAvgLossPct :: go_float

record conf_srt =
  SRTLatency :: int
  SRTReceiverBufferSize :: int
  SRTFlowControlWindow :: int
  SRTLatencyAutoTune :: bool
  SRTLatencyMin :: int
  SRTLatencyMax :: int
  SRTLatencyStep :: int
  SRTLatencyRaiseStep :: int
  SRTLatencyLowerPct :: go_float
  SRTLatencyRaisePct :: go_float
  SRTDegradeEnable :: bool
  SRTRecoverInstantLossPct :: go_float
  SRTDegradeInstantLossPct :: go_float
  SRTRecoverAvgLossPct :: go_float
  SRTDegradeAvgLossPct :: go_float

record conf_degrade =
  DegradeEnable :: bool
  DegradeRaisePct :: go_float
  DegradeLowerPct :: go_float
  DegradeRestartPct :: go_float
  DegradeSampleSec :: int
  DegradeObservationSec :: int
  DegradeRaiseLatencyStep :: int
  DegradeLowerLatencyStep :: int
  DegradeLatencyMin :: int
  DegradeLatencyMax :: int
  DegradeNackTimeoutMs :: int

record conf_mmx =
  MMXControl :: bool
  MMXControlURL :: string
  MMXNodeRole :: string
  MMXNodeSecret :: string
  MMXNodeRegion :: string
  MMXNodeCapacity :: int
  MMXHeartbeatInterval :: int
  MMXWebRTCBaseURL :: string
  MMXRecordingSyncEnabled :: bool
  MMXRecordingSyncURL :: string
  MMXRecordingSyncBearerToken :: string
  MMXRecordingSyncPollInterval :: int

record conf_tencent =
  TencentWHIPEnable :: bool
  TencentWHIPEndpoint :: string
  TencentWHIPDomain :: string
  TencentWHIPApp :: string
  TencentWHIPSecretKey :: string
  TencentWHIPTokenDays :: int

record conf_moq =
  MoQHTTPS2Address :: "string option"
  MoQHTTPS3Address :: "string option"
  MoQHTTP2Address :: string
  MoQHTTP3Address :: string

record conf_record =
  dep_Record :: "bool option"
  dep_RecordPath :: "string option"
  dep_RecordFormat :: "string option"
  dep_RecordPartDuration :: "int option"
  dep_RecordSegmentDuration :: "int option"
  dep_RecordDeleteAfter :: "int option"

text \<open>
  An entry of the configuration file, all of whose values are optional: the deprecated credentials, and
  what \<open>copyStructFields\<close> does with the values of the other fields that are set. The fields that
  \<open>Validate\<close> fills cannot be set by an entry.
\<close>

record optional_path =
  op_PublishUser :: "string option"
  op_PublishPass :: "string option"
  op_PublishIPs :: "ip_network list option"
  op_ReadUser :: "string option"
  op_ReadPass :: "string option"
  op_ReadIPs :: "ip_network list option"
  op_values :: "conf_path \<Rightarrow> conf_path"

record conf =
  general :: conf_general
  authentication :: conf_auth
  api :: http_service
  metrics :: http_service
  pprof :: http_service
  playback :: http_service
  rtsp :: conf_rtsp
  rtmp :: conf_rtmp
  hls :: conf_hls
  webrtc :: conf_webrtc
  srt :: conf_srt
  degrade :: conf_degrade
  mmx :: conf_mmx
  tencent :: conf_tencent
  moq :: conf_moq
  deprecated_record :: conf_record
  IngestThreadEnable :: bool
  ForwardMmxEnable :: bool
  WebRTCForwardSecret :: string
  PathDefaults :: conf_path
  OptionalPaths :: "(string \<times> optional_path option) list"
  Paths :: "(string \<times> conf_path) list"

text \<open>A deprecated setting that is present replaces its successor.\<close>

definition replaced :: "'a option \<Rightarrow> 'a \<Rightarrow> 'a" where
  "replaced old new = (case old of Some v \<Rightarrow> v | None \<Rightarrow> new)"

lemma replaced_simps [simp]: "replaced None x = x" "replaced (Some v) x = v" "replaced a (replaced a x) = replaced a x"
  by (auto simp: replaced_def split: option.splits)

section \<open>The steps of Validate\<close>

text \<open>A conversion changes the configuration, a check may end the validation with an error.\<close>

datatype 'c vstep = Convert "'c \<Rightarrow> 'c" | Check "'c \<Rightarrow> (bool \<times> conf_error) list"

fun run_steps :: "'c vstep list \<Rightarrow> 'c \<Rightarrow> conf_error + 'c" where
  "run_steps [] c = Inr c"
| "run_steps (Convert f # ss) c = run_steps ss (f c)"
| "run_steps (Check g # ss) c = (case first_error (g c) of Some e \<Rightarrow> Inl e | None \<Rightarrow> run_steps ss c)"

definition conv_general :: "conf_general \<Rightarrow> conf_general" where
  "conv_general g = g\<lparr>WriteQueueSize := replaced (ReadBufferCount g) (WriteQueueSize g)\<rparr>"

definition check_general :: "conf \<Rightarrow> (bool \<times> conf_error) list" where
  "check_general c =
     (let g = general c in
      [(ReadTimeout g \<le> 0, ''readTimeout must be greater than zero''),
       (WriteTimeout g \<le> 0, ''writeTimeout must be greater than zero''),
       (WriteQueueSize g \<le> 0, ''writeQueueSize must be greater than zero''),
       (WriteQueueSize g AND (WriteQueueSize g - 1) \<noteq> 0, ''writeQueueSize must be a power of two''),
       (1472 < UDPMaxPayloadSize g, ''udpMaxPayloadSize must be less than 1472'')])"

definition conv_auth :: "conf_auth \<Rightarrow> conf_auth" where
  "conv_auth a =
     (case ExternalAuthenticationURL a of
        None \<Rightarrow> a
      | Some u \<Rightarrow> a\<lparr>AuthMethod := AuthMethodHTTP, AuthHTTPAddress := u\<rparr>)"

text \<open>The users that stand for the default, and those that replace it when paths have credentials.\<close>

definition localhost :: "ip_network list" where
  "localhost =
     [\<lparr>net_IP = [127, 0, 0, 1], net_Mask = [255, 255, 255, 255]\<rparr>,
      \<lparr>net_IP = replicate 15 0 @ [1], net_Mask = replicate 16 255\<rparr>]"

definition any_user :: "ip_network list \<Rightarrow> auth_action list \<Rightarrow> internal_user" where
  "any_user ips actions =
     \<lparr>iu_User = ''any'', iu_Pass = [], iu_IPs = ips,
      iu_Permissions = map (\<lambda>a. \<lparr>perm_Action = a, perm_Path = []\<rparr>) actions\<rparr>"

definition defaultAuthInternalUsers :: "internal_user list" where
  "defaultAuthInternalUsers =
     [any_user [] [AuthActionPublish, AuthActionRead, AuthActionPlayback],
      any_user localhost [AuthActionAPI, AuthActionMetrics, AuthActionPprof]]"

definition legacyAuthInternalUsers :: "internal_user list" where
  "legacyAuthInternalUsers =
     [any_user [] [AuthActionPlayback],
      any_user localhost [AuthActionAPI, AuthActionMetrics, AuthActionPprof]]"

definition has_credentials :: "optional_path \<Rightarrow> bool" where
  "has_credentials p \<longleftrightarrow>
     op_PublishUser p \<noteq> None \<or> op_PublishPass p \<noteq> None \<or> op_PublishIPs p \<noteq> None \<or>
     op_ReadUser p \<noteq> None \<or> op_ReadPass p \<noteq> None \<or> op_ReadIPs p \<noteq> None"

definition anyPathHasDeprecatedCredentials :: "conf_path \<Rightarrow> (string \<times> optional_path option) list \<Rightarrow> bool" where
  "anyPathHasDeprecatedCredentials d ps \<longleftrightarrow>
     PublishUser d \<noteq> None \<or> PublishPass d \<noteq> None \<or> PublishIPs d \<noteq> None \<or>
     ReadUser d \<noteq> None \<or> ReadPass d \<noteq> None \<or> ReadIPs d \<noteq> None \<or>
     list_ex (\<lambda>(n, pa). case pa of None \<Rightarrow> False | Some p \<Rightarrow> has_credentials p) ps"

abbreviation legacy :: "conf \<Rightarrow> bool" where
  "legacy c \<equiv> anyPathHasDeprecatedCredentials (PathDefaults c) (OptionalPaths c)"

definition check_legacy :: "conf \<Rightarrow> (bool \<times> conf_error) list" where
  "check_legacy c =
     [(legacy c \<and> AuthInternalUsers (authentication c) \<noteq> defaultAuthInternalUsers,
       ''authInternalUsers and legacy credentials cannot be used together'')]"

definition conv_legacy :: "bool \<Rightarrow> conf_auth \<Rightarrow> conf_auth" where
  "conv_legacy leg a = (if leg then a\<lparr>AuthInternalUsers := legacyAuthInternalUsers\<rparr> else a)"

definition http_url :: "string \<Rightarrow> bool" where
  "http_url s \<longleftrightarrow> prefix ''http://'' s \<or> prefix ''https://'' s"

definition check_auth_method :: "conf \<Rightarrow> (bool \<times> conf_error) list" where
  "check_auth_method c =
     (let a = authentication c in
      case AuthMethod a of
        AuthMethodInternal \<Rightarrow>
          concat (map (\<lambda>u. [(iu_User u = [], ''empty usernames are not supported''),
                            (iu_User u = ''any'' \<and> iu_Pass u \<noteq> [], ''using a password with any user is not supported'')])
                   (AuthInternalUsers a))
      | AuthMethodHTTP \<Rightarrow>
          [(AuthHTTPAddress a = [], ''authHTTPAddress is empty''),
           (AuthHTTPAddress a \<noteq> [] \<and> \<not> http_url (AuthHTTPAddress a), ''externalAuthenticationURL must be a HTTP URL'')]
      | AuthMethodJWT \<Rightarrow>
          [(AuthJWTJWKS a = [], ''authJWTJWKS is empty''),
           (AuthJWTJWKS a \<noteq> [] \<and> \<not> http_url (AuthJWTJWKS a), ''authJWTJWKS must be a HTTP URL''),
           (AuthJWTClaimKey a = [], ''authJWTClaimKey is empty'')])"

text \<open>The control API, the metrics, the profiler and the playback server.\<close>

definition conv_service :: "http_service \<Rightarrow> http_service" where
  "conv_service h = h\<lparr>hs_AllowOrigins := replaced (map_option (\<lambda>v. [v]) (hs_AllowOrigin h)) (hs_AllowOrigins h)\<rparr>"

definition check_service :: "conf_error \<Rightarrow> http_service \<Rightarrow> (bool \<times> conf_error) list" where
  "check_service e h = [(hs_Enabled h \<and> hs_Address h = [], e)]"

definition service_steps :: "conf vstep list" where
  "service_steps =
     [Convert (\<lambda>c. c\<lparr>api := conv_service (api c)\<rparr>),
      Check (\<lambda>c. check_service ''apiAddress must be set when API is enabled'' (api c)),
      Convert (\<lambda>c. c\<lparr>metrics := conv_service (metrics c)\<rparr>),
      Check (\<lambda>c. check_service ''metricsAddress must be set when metrics are enabled'' (metrics c)),
      Convert (\<lambda>c. c\<lparr>pprof := conv_service (pprof c)\<rparr>),
      Check (\<lambda>c. check_service ''pprofAddress must be set when pprof is enabled'' (pprof c)),
      Convert (\<lambda>c. c\<lparr>playback := conv_service (playback c)\<rparr>),
      Check (\<lambda>c. check_service ''playbackAddress must be set when playback is enabled'' (playback c))]"

definition conv_rtsp :: "conf_rtsp \<Rightarrow> conf_rtsp" where
  "conv_rtsp r =
     r\<lparr>RTSP := replaced (map_option Not (RTSPDisable r)) (RTSP r),
       RTSPTransports := replaced (Protocols r) (RTSPTransports r),
       RTSPEncryption := replaced (Encryption r) (RTSPEncryption r),
       RTSPAuthMethods := replaced (AuthMethods r) (RTSPAuthMethods r),
       RTSPServerCert := replaced (ServerCert r) (RTSPServerCert r),
       RTSPServerKey := replaced (ServerKey r) (RTSPServerKey r)\<rparr>"

definition IsHashed :: "string \<Rightarrow> bool" where
  "IsHashed d \<longleftrightarrow> IsSha256 d \<or> IsArgon2 d"

definition check_rtsp :: "conf \<Rightarrow> (bool \<times> conf_error) list" where
  "check_rtsp c =
     (let r = rtsp c; a = authentication c;
          plain = (RTSPEncryption r = EncryptionNo \<or> RTSPEncryption r = EncryptionOptional);
          tls = (RTSPEncryption r = EncryptionOptional \<or> RTSPEncryption r = EncryptionStrict);
          udp = ProtocolUDP \<in> set (RTSPTransports r); multicast = ProtocolUDPMulticast \<in> set (RTSPTransports r);
          digest = VerifyMethodDigestMD5 \<in> set (RTSPAuthMethods r)
      in if RTSP r then
        [(plain \<and> RTSPAddress r = [], ''rtspAddress must be set''),
         (plain \<and> udp \<and> RTPAddress r = [], ''rtpAddress must be set''),
         (plain \<and> udp \<and> RTCPAddress r = [], ''rtcpAddress must be set''),
         (plain \<and> multicast \<and> MulticastIPRange r = [], ''multicastIPRange must be set''),
         (plain \<and> multicast \<and> MulticastRTPPort r = 0, ''multicastRTPPort must be set''),
         (plain \<and> multicast \<and> MulticastRTCPPort r = 0, ''multicastRTCPPort must be set''),
         (tls \<and> RTSPSAddress r = [], ''rtspsAddress must be set''),
         (tls \<and> udp \<and> SRTPAddress r = [], ''srtpAddress must be set''),
         (tls \<and> udp \<and> SRTCPAddress r = [], ''srtcpAddress must be set''),
         (tls \<and> multicast \<and> MulticastIPRange r = [], ''multicastIPRange must be set''),
         (tls \<and> multicast \<and> MulticastSRTPPort r = 0, ''multicastSRTPPort must be set''),
         (tls \<and> multicast \<and> MulticastSRTCPPort r = 0, ''multicastSRTCPPort must be set''),
         (RTSPAuthMethods r = [], ''at least one rtspAuthMethods must be provided''),
         (digest \<and> AuthMethod a \<noteq> AuthMethodInternal, ''when RTSP digest is enabled, the only supported auth method is internal''),
         (digest \<and> (\<exists>u \<in> set (AuthInternalUsers a). IsHashed (iu_User u) \<or> IsHashed (iu_Pass u)),
          ''when RTSP digest is enabled, hashed credentials cannot be used'')]
      else [])"

definition conv_rtmp :: "conf_rtmp \<Rightarrow> conf_rtmp" where
  "conv_rtmp r = r\<lparr>RTMP := replaced (map_option Not (RTMPDisable r)) (RTMP r)\<rparr>"

definition check_rtmp :: "conf \<Rightarrow> (bool \<times> conf_error) list" where
  "check_rtmp c = [(RTMP (rtmp c) \<and> RTMPAddress (rtmp c) = [], ''rtmpAddress must be set when RTMP is enabled'')]"

definition conv_hls :: "conf_hls \<Rightarrow> conf_hls" where
  "conv_hls h =
     h\<lparr>HLS := replaced (map_option Not (HLSDisable h)) (HLS h),
       HLSAllowOrigins := replaced (map_option (\<lambda>v. [v]) (HLSAllowOrigin h)) (HLSAllowOrigins h)\<rparr>"

definition plain_credential_char :: "char \<Rightarrow> bool" where
  "plain_credential_char x \<longleftrightarrow>
     (let n = of_char x :: nat in 48 \<le> n \<and> n \<le> 57 \<or> 65 \<le> n \<and> n \<le> 90 \<or> 97 \<le> n \<and> n \<le> 122) \<or>
     x \<in> set ''!$()*+.;<=>[]^_-{}@#&''"

definition check_hls :: "conf \<Rightarrow> (bool \<times> conf_error) list" where
  "check_hls c =
     (let h = hls c in
      [(HLS h \<and> HLSAddress h = [], ''hlsAddress must be set when HLS is enabled''),
       (HLSCDNSecret h \<noteq> [] \<and> \<not> list_all plain_credential_char (HLSCDNSecret h), ''hlsCDNSecret contains unsupported characters'')])"

text \<open>A deprecated ICE server, \<^verbatim>\<open>scheme:user:pass:host:port\<close> or an address.\<close>

definition ice_server_of :: "string \<Rightarrow> ice_server" where
  "ice_server_of server =
     (case split_at (CHR '':'') server of
        [a, b, c, d, e] \<Rightarrow> \<lparr>ice_URL = a @ '':'' @ d @ '':'' @ e, ice_Username = b, ice_Password = c, ice_ClientOnly = False\<rparr>
      | _ \<Rightarrow> \<lparr>ice_URL = server, ice_Username = [], ice_Password = [], ice_ClientOnly = False\<rparr>)"

definition conv_webrtc :: "conf_webrtc \<Rightarrow> conf_webrtc" where
  "conv_webrtc w =
     w\<lparr>WebRTC := replaced (map_option Not (WebRTCDisable w)) (WebRTC w),
       WebRTCLocalUDPAddress := replaced (WebRTCICEUDPMuxAddress w) (WebRTCLocalUDPAddress w),
       WebRTCLocalTCPAddress := replaced (WebRTCICETCPMuxAddress w) (WebRTCLocalTCPAddress w),
       WebRTCAdditionalHosts := replaced (WebRTCICEHostNAT1To1IPs w) (WebRTCAdditionalHosts w),
       WebRTCICEServers2 := WebRTCICEServers2 w @
         (case WebRTCICEServers w of Some ss \<Rightarrow> map ice_server_of ss | None \<Rightarrow> []),
       WebRTCAllowOrigins := replaced (map_option (\<lambda>v. [v]) (WebRTCAllowOrigin w)) (WebRTCAllowOrigins w)\<rparr>"

definition check_webrtc :: "conf \<Rightarrow> (bool \<times> conf_error) list" where
  "check_webrtc c =
     (let w = webrtc c in
      if WebRTC w then
        (WebRTCAddress w = [], ''webrtcAddress must be set when WebRTC is enabled'') #
        map (\<lambda>s. (\<not> (prefix ''stun:'' (ice_URL s) \<or> prefix ''turn:'' (ice_URL s) \<or> prefix ''turns:'' (ice_URL s)),
                  ''invalid ICE server'')) (WebRTCICEServers2 w) @
        [(WebRTCLocalUDPAddress w = [] \<and> WebRTCLocalTCPAddress w = [] \<and> WebRTCICEServers2 w = [],
          ''at least one between webrtcLocalUDPAddress, webrtcLocalTCPAddress or webrtcICEServers2 must be filled'')]
      else [])"

definition conv_webrtc_ips :: "conf_webrtc \<Rightarrow> conf_webrtc" where
  "conv_webrtc_ips w =
     (if WebRTC w \<and> (WebRTCLocalUDPAddress w \<noteq> [] \<or> WebRTCLocalTCPAddress w \<noteq> []) \<and>
         \<not> WebRTCIPsFromInterfaces w \<and> WebRTCAdditionalHosts w = []
      then w\<lparr>WebRTCIPsFromInterfaces := True\<rparr> else w)"

definition check_webrtc_degrade :: "conf \<Rightarrow> (bool \<times> conf_error) list" where
  "check_webrtc_degrade c =
     (let w = webrtc c in
      [(SplitRecAuthMode w \<noteq> ''simple'' \<and> SplitRecAuthMode w \<noteq> ''advance'', ''splitRecAuthMode must be either simple or advance''),
       (WebRTCDegradeEnable w \<and> WebRTCWHIPAuthKey w = [], ''WHIP_AUTH_KEY must be set when webrtcDegradeEnable is true''),
       (WebRTCDegradeEnable w \<and> go_less (WebRTCDegradeInstantLossPct w) (WebRTCRecoverInstantLossPct w),
        ''webrtcRecoverInstantLossPct must be <= webrtcDegradeInstantLossPct''),
       (WebRTCDegradeEnable w \<and> go_less (WebRTCDegradeAvgLossPct w) (WebRTCRecoverAvgLossPct w),
        ''webrtcRecoverAvgLossPct must be <= webrtcDegradeAvgLossPct'')])"

definition srtMinPayloadSize :: int where "srtMinPayloadSize = 7 * 188"

definition check_srt :: "conf \<Rightarrow> (bool \<times> conf_error) list" where
  "check_srt c =
     (let s = srt c; w = webrtc c in
      [(SRTLatency s \<le> 0, ''srtLatency must be greater than zero''),
       (SRTFlowControlWindow s \<le> 0, ''srtFlowControlWindow must be greater than zero''),
       (SRTFlowControlWindow s < SRTReceiverBufferSize s sdiv srtMinPayloadSize,
        ''srtFlowControlWindow is too small for srtReceiverBufferSize''),
       (SRTLatencyAutoTune s \<and> SRTLatencyMin s \<le> 0, ''srtLatencyMin must be greater than zero''),
       (SRTLatencyAutoTune s \<and> SRTLatencyMax s < SRTLatencyMin s, ''srtLatencyMax must be >= srtLatencyMin''),
       (SRTLatencyAutoTune s \<and> SRTLatency s < SRTLatencyMin s, ''srtLatency must be >= srtLatencyMin''),
       (SRTLatencyAutoTune s \<and> SRTLatencyStep s \<le> 0, ''srtLatencyStep must be greater than zero''),
       (SRTLatencyAutoTune s \<and> SRTLatencyRaiseStep s \<le> 0, ''srtLatencyRaiseStep must be greater than zero''),
       (SRTLatencyAutoTune s \<and> go_le (SRTLatencyRaisePct s) (SRTLatencyLowerPct s), ''srtLatencyLowerPct must be < srtLatencyRaisePct''),
       (SRTDegradeEnable s \<and> WebRTCWHIPAuthKey w = [], ''WHIP_AUTH_KEY must be set when srtDegradeEnable is true''),
       (SRTDegradeEnable s \<and> \<not> WebRTC w, ''webrtc must be enabled when srtDegradeEnable is true''),
       (SRTDegradeEnable s \<and> go_less (SRTDegradeInstantLossPct s) (SRTRecoverInstantLossPct s),
        ''srtRecoverInstantLossPct must be <= srtDegradeInstantLossPct''),
       (SRTDegradeEnable s \<and> go_less (SRTDegradeAvgLossPct s) (SRTRecoverAvgLossPct s),
        ''srtRecoverAvgLossPct must be <= srtDegradeAvgLossPct'')])"

definition check_degrade :: "conf \<Rightarrow> (bool \<times> conf_error) list" where
  "check_degrade c =
     (let d = degrade c; w = webrtc c in
      if DegradeEnable d then
        [(WebRTCWHIPAuthKey w = [], ''WHIP_AUTH_KEY must be set when degradeEnable is true''),
         (\<not> WebRTC w, ''webrtc must be enabled when degradeEnable is true''),
         (go_le (DegradeRaisePct d) (DegradeLowerPct d), ''degradeRaisePct must be > degradeLowerPct''),
         (go_less (DegradeRestartPct d) (DegradeRaisePct d), ''degradeRestartPct must be >= degradeRaisePct''),
         (DegradeSampleSec d \<le> 0, ''degradeSampleSec must be greater than zero''),
         (DegradeObservationSec d \<le> 0, ''degradeObservationSec must be greater than zero''),
         (DegradeRaiseLatencyStep d \<le> 0, ''degradeRaiseLatencyStep must be greater than zero''),
         (DegradeLowerLatencyStep d \<le> 0, ''degradeLowerLatencyStep must be greater than zero''),
         (DegradeLatencyMin d \<le> 0, ''degradeLatencyMin must be greater than zero''),
         (DegradeLatencyMax d < DegradeLatencyMin d, ''degradeLatencyMax must be >= degradeLatencyMin''),
         (DegradeNackTimeoutMs d \<le> 0, ''degradeNackTimeoutMs must be greater than zero'')]
      else [])"

text \<open>Whether \<^verbatim>\<open>url.Parse\<close> gives a URL with a host and one of the schemes.\<close>

definition url_with :: "conf_env \<Rightarrow> string list \<Rightarrow> string \<Rightarrow> bool" where
  "url_with env schemes s =
     (case url_Parse env s of None \<Rightarrow> False | Some u \<Rightarrow> url_Scheme u \<in> set schemes \<and> url_Host u \<noteq> [])"

definition check_mmx :: "conf_env \<Rightarrow> conf \<Rightarrow> (bool \<times> conf_error) list" where
  "check_mmx env c =
     (let m = mmx c in
      (if MMXControl m then
        [(\<not> url_with env [''ws'', ''wss''] (MMXControlURL m), ''mmxControlURL must be a valid ws or wss URL''),
         (MMXNodeRole m \<notin> set [''NODE_ROLE_ORIGIN'', ''NODE_ROLE_EDGE'', ''NODE_ROLE_RECORDER''],
          ''mmxNodeRole must be NODE_ROLE_ORIGIN, NODE_ROLE_EDGE or NODE_ROLE_RECORDER''),
         (TrimSpace (MMXNodeSecret m) = [], ''MMX_NODE_SECRET must be set when mmxControl is true''),
         (TrimSpace (MMXNodeRegion m) = [], ''mmxNodeRegion is required''),
         (MMXNodeCapacity m \<le> 0, ''mmxNodeCapacity must be greater than zero''),
         (MMXHeartbeatInterval m \<le> 0, ''mmxHeartbeatInterval must be greater than zero''),
         (MMXNodeRole m = ''NODE_ROLE_EDGE'' \<and> TrimSpace (MMXWebRTCBaseURL m) = [], ''mmxWebRTCBaseURL is required for Edge nodes'')]
       else []) @
      (if MMXRecordingSyncEnabled m then
        [(\<not> url_with env [''http'', ''https''] (MMXRecordingSyncURL m), ''mmxRecordingSyncURL must be a valid http or https URL''),
         (length (TrimSpace (MMXRecordingSyncBearerToken m)) < 16, ''mmxRecordingSyncBearerToken must be at least 16 characters''),
         (MMXRecordingSyncPollInterval m \<le> 0, ''mmxRecordingSyncPollInterval must be greater than zero'')]
       else []))"

definition check_tencent :: "conf \<Rightarrow> (bool \<times> conf_error) list" where
  "check_tencent c =
     (let t = tencent c in
      if TencentWHIPEnable t then
        [(TencentWHIPEndpoint t = [], ''tencentWHIPEndpoint must be set''),
         (TencentWHIPDomain t = [], ''tencentWHIPDomain must be set''),
         (TencentWHIPApp t = [], ''tencentWHIPApp must be set''),
         (TencentWHIPSecretKey t = [], ''tencentWHIPSecretKey must be set''),
         (TencentWHIPTokenDays t \<le> 0, ''tencentWHIPTokenDays must be greater than zero'')]
      else [])"

definition conv_moq :: "conf_moq \<Rightarrow> conf_moq" where
  "conv_moq m =
     m\<lparr>MoQHTTP2Address := replaced (MoQHTTPS2Address m) (MoQHTTP2Address m),
       MoQHTTP3Address := replaced (MoQHTTPS3Address m) (MoQHTTP3Address m)\<rparr>"

definition conv_record :: "conf_record \<Rightarrow> conf_path \<Rightarrow> conf_path" where
  "conv_record r d =
     d\<lparr>Record := replaced (dep_Record r) (Record d),
       RecordPath := replaced (dep_RecordPath r) (RecordPath d),
       RecordFormat := replaced (dep_RecordFormat r) (RecordFormat d),
       RecordPartDuration := replaced (dep_RecordPartDuration r) (RecordPartDuration d),
       RecordSegmentDuration := replaced (dep_RecordSegmentDuration r) (RecordSegmentDuration d),
       RecordDeleteAfter := replaced (dep_RecordDeleteAfter r) (RecordDeleteAfter d)\<rparr>"

definition is_all_alias :: "string \<Rightarrow> bool" where
  "is_all_alias n \<longleftrightarrow> n = ''all'' \<or> n = ''all_others'' \<or> n = ''~^.*$''"

definition check_aliases :: "conf \<Rightarrow> (bool \<times> conf_error) list" where
  "check_aliases c =
     [(1 < length (filter is_all_alias (map fst (OptionalPaths c))), ''all_others, all and ~^.*$ are aliases'')]"

definition user_steps :: "conf vstep list" where
  "user_steps =
     [Convert (\<lambda>c. c\<lparr>general := conv_general (general c)\<rparr>), Check check_general,
      Convert (\<lambda>c. c\<lparr>authentication := conv_auth (authentication c)\<rparr>), Check check_legacy,
      Convert (\<lambda>c. c\<lparr>authentication := conv_legacy (legacy c) (authentication c)\<rparr>)]"

definition server_steps :: "conf_env \<Rightarrow> conf vstep list" where
  "server_steps env =
     Check check_auth_method # service_steps @
     [Convert (\<lambda>c. c\<lparr>rtsp := conv_rtsp (rtsp c)\<rparr>), Check check_rtsp,
      Convert (\<lambda>c. c\<lparr>rtmp := conv_rtmp (rtmp c)\<rparr>), Check check_rtmp,
      Convert (\<lambda>c. c\<lparr>hls := conv_hls (hls c)\<rparr>), Check check_hls,
      Convert (\<lambda>c. c\<lparr>webrtc := conv_webrtc (webrtc c)\<rparr>), Check check_webrtc,
      Convert (\<lambda>c. c\<lparr>webrtc := conv_webrtc_ips (webrtc c)\<rparr>), Check check_webrtc_degrade,
      Check check_srt, Check check_degrade, Check (check_mmx env), Check check_tencent,
      Convert (\<lambda>c. c\<lparr>moq := conv_moq (moq c)\<rparr>),
      Convert (\<lambda>c. c\<lparr>PathDefaults := conv_record (deprecated_record c) (PathDefaults c)\<rparr>), Check check_aliases]"

definition global_steps :: "conf_env \<Rightarrow> conf vstep list" where
  "global_steps env = user_steps @ server_steps env"

section \<open>Paths\<close>

definition empty_optional :: optional_path where
  "empty_optional =
     \<lparr>op_PublishUser = None, op_PublishPass = None, op_PublishIPs = None, op_ReadUser = None, op_ReadPass = None,
      op_ReadIPs = None, op_values = id\<rparr>"

definition over :: "'a option \<Rightarrow> 'a option \<Rightarrow> 'a option" where
  "over new old = (case new of Some _ \<Rightarrow> new | None \<Rightarrow> old)"

definition newPath :: "conf_path \<Rightarrow> optional_path \<Rightarrow> conf_path" where
  "newPath d o' =
     (let p = op_values o' d in
      p\<lparr>PublishUser := over (op_PublishUser o') (PublishUser d), PublishPass := over (op_PublishPass o') (PublishPass d),
        PublishIPs := over (op_PublishIPs o') (PublishIPs d), ReadUser := over (op_ReadUser o') (ReadUser d),
        ReadPass := over (op_ReadPass o') (ReadPass d), ReadIPs := over (op_ReadIPs o') (ReadIPs d),
        Regexp := Regexp d,
        camera := (camera p)\<lparr>cam_PrimaryName := cam_PrimaryName (camera d), cam_SecondaryWidth := cam_SecondaryWidth (camera d),
          cam_SecondaryHeight := cam_SecondaryHeight (camera d), cam_SecondaryFPS := cam_SecondaryFPS (camera d),
          cam_SecondaryMJPEGQuality := cam_SecondaryMJPEGQuality (camera d)\<rparr>\<rparr>)"

definition sortedKeys :: "(string \<times> 'a) list \<Rightarrow> string list" where
  "sortedKeys ps = sort (map fst ps)"

definition fill_optional :: "optional_path option \<Rightarrow> optional_path" where
  "fill_optional o' = (case o' of Some x \<Rightarrow> x | None \<Rightarrow> empty_optional)"

definition build_paths :: "conf \<Rightarrow> conf" where
  "build_paths c =
     c\<lparr>OptionalPaths := map (\<lambda>(n, o'). (n, Some (fill_optional o'))) (OptionalPaths c),
       Paths := map (\<lambda>(n, o'). (n, newPath (PathDefaults c) (fill_optional o'))) (OptionalPaths c)\<rparr>"

definition globals_of :: "conf \<Rightarrow> path_globals" where
  "globals_of c =
     \<lparr>g_IngestThreadEnable = IngestThreadEnable c, g_ForwardMmxEnable = ForwardMmxEnable c,
      g_WebRTCForwardSecret = WebRTCForwardSecret c, g_Playback = hs_Enabled (playback c)\<rparr>"

text \<open>The last loop: the paths in the order of their names; users are appended as the paths come.\<close>

fun validate_paths ::
  "conf_env \<Rightarrow> path_globals \<Rightarrow> bool \<Rightarrow> string list \<Rightarrow> (string \<times> conf_path) list \<Rightarrow> internal_user list \<Rightarrow>
   conf_error + ((string \<times> conf_path) list \<times> internal_user list)" where
  "validate_paths env g dm [] ps us = Inr (ps, us)"
| "validate_paths env g dm (n # ns) ps us =
     (case map_of ps n of
        None \<Rightarrow> Inl ''nil path''
      | Some p \<Rightarrow>
          (case path_validate env g dm n ps p of
             Inl e \<Rightarrow> Inl e
           | Inr (ps', new) \<Rightarrow> validate_paths env g dm ns ps' (us @ new)))"

definition Validate :: "conf_env \<Rightarrow> conf \<Rightarrow> conf_error + conf" where
  "Validate env c0 =
     (case run_steps (global_steps env) c0 of
        Inl e \<Rightarrow> Inl e
      | Inr c1 \<Rightarrow>
          (let c = build_paths c1 in
           case validate_paths env (globals_of c) (legacy c0) (sortedKeys (OptionalPaths c)) (Paths c)
                  (AuthInternalUsers (authentication c)) of
             Inl e \<Rightarrow> Inl e
           | Inr (ps, us) \<Rightarrow> Inr (c\<lparr>Paths := ps, authentication := (authentication c)\<lparr>AuthInternalUsers := us\<rparr>\<rparr>)))"

section \<open>Changes through the API\<close>

definition AddPath :: "string \<Rightarrow> optional_path \<Rightarrow> conf \<Rightarrow> conf_error + conf" where
  "AddPath name p c =
     (if map_of (OptionalPaths c) name \<noteq> None then Inl ''path already exists''
      else Inr (c\<lparr>OptionalPaths := AList.update name (Some p) (OptionalPaths c)\<rparr>))"

definition ReplacePath :: "string \<Rightarrow> optional_path \<Rightarrow> conf \<Rightarrow> conf" where
  "ReplacePath name p c = c\<lparr>OptionalPaths := AList.update name (Some p) (OptionalPaths c)\<rparr>"

text \<open>The merge of two sets of optional values, the second one winning.\<close>

definition merge_optional :: "optional_path \<Rightarrow> optional_path \<Rightarrow> optional_path" where
  "merge_optional p q =
     \<lparr>op_PublishUser = over (op_PublishUser q) (op_PublishUser p), op_PublishPass = over (op_PublishPass q) (op_PublishPass p),
      op_PublishIPs = over (op_PublishIPs q) (op_PublishIPs p), op_ReadUser = over (op_ReadUser q) (op_ReadUser p),
      op_ReadPass = over (op_ReadPass q) (op_ReadPass p), op_ReadIPs = over (op_ReadIPs q) (op_ReadIPs p),
      op_values = op_values q \<circ> op_values p\<rparr>"

definition PatchPath :: "string \<Rightarrow> optional_path \<Rightarrow> conf \<Rightarrow> (conf_error, conf) outcome" where
  "PatchPath name q c =
     (case map_of (OptionalPaths c) name of
        None \<Rightarrow> Fail ''path not found''
      | Some None \<Rightarrow> Panic
      | Some (Some p) \<Rightarrow> Ret (c\<lparr>OptionalPaths := AList.update name (Some (merge_optional p q)) (OptionalPaths c)\<rparr>))"

definition RemovePath :: "string \<Rightarrow> conf \<Rightarrow> conf_error + conf" where
  "RemovePath name c =
     (if map_of (OptionalPaths c) name = None then Inl ''path not found''
      else Inr (c\<lparr>OptionalPaths := AList.delete name (OptionalPaths c)\<rparr>))"

section \<open>The paths of a validated configuration\<close>

lemma map_of_in: "map_of ps n = Some p \<Longrightarrow> n \<in> set (map fst ps)"
  by (metis map_of_eq_None_iff option.distinct(1) set_map)

text \<open>The paths validated so far are acceptable, and their cameras are paired.\<close>

definition paths_ok :: "renderer \<Rightarrow> string set \<Rightarrow> (string \<times> conf_path) list \<Rightarrow> bool" where
  "paths_ok r D ps \<longleftrightarrow>
     (\<forall>n \<in> D. \<exists>q. map_of ps n = Some q \<and> Name q = n \<and> conf_ok (as_conf r q) \<and> record_ok (as_conf r q)) \<and> cameras_paired D ps"

lemma paths_ok_empty [simp]: "paths_ok r {} ps"
  by (simp add: paths_ok_def)

lemma paths_ok_step:
  assumes "paths_ok r D ps" "path_validate env g dm name ps p = Inr (ps2, us)" "distinct (map fst ps)" "map_of ps name = Some p"
  shows "paths_ok r (insert name D) ps2"
proof -
  have "\<exists>q. map_of ps2 n = Some q \<and> Name q = n \<and> conf_ok (as_conf r q) \<and> record_ok (as_conf r q)" if n: "n \<in> insert name D" for n
  proof (cases "n = name")
    case True
    then show ?thesis using path_validate_ok(2) [OF assms(2-4)] by blast
  next
    case False
    with n assms(1) obtain q where q: "map_of ps n = Some q" "Name q = n" "conf_ok (as_conf r q)" "record_ok (as_conf r q)"
      by (auto simp: paths_ok_def)
    from path_validate_ok(3) [OF assms(2-4) False q(1)] obtain q1 where "map_of ps2 n = Some q1" "same_core q q1" by blast
    with q conf_ok_core record_ok_core show ?thesis by (metis same_core_def)
  qed
  then show ?thesis using cameras_paired_step [OF _ assms(2-4)] assms(1) by (simp add: paths_ok_def)
qed

lemma validate_paths_ok:
  assumes "validate_paths env g dm ns ps us = Inr (ps', us')" "distinct (map fst ps)" "paths_ok r D ps"
  shows "map fst ps' = map fst ps \<and> paths_ok r (D \<union> set ns) ps'"
  using assms
proof (induction ns arbitrary: ps us D)
  case (Cons n ns)
  from Cons.prems(1) obtain p ps1 new where st: "map_of ps n = Some p" "path_validate env g dm n ps p = Inr (ps1, new)"
    "validate_paths env g dm ns ps1 (us @ new) = Inr (ps', us')" by (auto split: option.splits sum.splits)
  note ok = path_validate_ok(1) [OF st(2) Cons.prems(2) st(1)] and step = paths_ok_step [OF Cons.prems(3) st(2) Cons.prems(2) st(1)]
  from Cons.IH [OF st(3) _ step] ok Cons.prems(2) show ?case by simp
qed simp

text \<open>The users that come with the paths.\<close>

lemma validate_paths_users:
  assumes "validate_paths env g dm ns ps us = Inr (ps', us')"
  shows "\<exists>added. us' = us @ added \<and> (\<not> dm \<longrightarrow> added = [])"
  using assms
proof (induction ns arbitrary: ps us)
  case (Cons n ns)
  from Cons.prems obtain p ps1 new where st: "path_validate env g dm n ps p = Inr (ps1, new)"
    "validate_paths env g dm ns ps1 (us @ new) = Inr (ps', us')" by (auto split: option.splits sum.splits)
  have "\<not> dm \<longrightarrow> new = []" using st(1) by (auto elim!: path_validate_Inr)
  with Cons.IH [OF st(2)] show ?case by auto
qed simp

section \<open>The global settings\<close>

lemma run_steps_append: "run_steps (xs @ ys) c = (case run_steps xs c of Inl e \<Rightarrow> Inl e | Inr c1 \<Rightarrow> run_steps ys c1)"
  by (induction xs c rule: run_steps.induct) (auto split: option.splits)

text \<open>A configuration that no conversion changes and that passes all checks is its own result.\<close>

fun settled :: "'c \<Rightarrow> 'c vstep \<Rightarrow> bool" where
  "settled c (Convert f) = (f c = c)"
| "settled c (Check g) = (first_error (g c) = None)"

lemma run_steps_settled: "list_all (settled c) ss \<Longrightarrow> run_steps ss c = Inr c"
  by (induction ss c rule: run_steps.induct) auto

text \<open>A check that the later conversions do not affect holds of the result.\<close>

fun stable_checks :: "'c vstep list \<Rightarrow> bool" where
  "stable_checks [] = True"
| "stable_checks (Convert f # ss) = stable_checks ss"
| "stable_checks (Check g # ss) = ((\<forall>f. Convert f \<in> set ss \<longrightarrow> (\<forall>c. g (f c) = g c)) \<and> stable_checks ss)"

lemma run_steps_keeps:
  "run_steps ss c = Inr c1 \<Longrightarrow> (\<forall>f. Convert f \<in> set ss \<longrightarrow> (\<forall>c. g (f c) = g c)) \<Longrightarrow> g c1 = g c"
  by (induction ss c rule: run_steps.induct) (auto split: option.splits)

lemma run_steps_checks:
  "run_steps ss c = Inr c1 \<Longrightarrow> stable_checks ss \<Longrightarrow> Check g \<in> set ss \<Longrightarrow> first_error (g c1) = None"
proof (induction ss c rule: run_steps.induct)
  case (3 h ss c)
  then have run: "first_error (h c) = None" "run_steps ss c = Inr c1" by (auto split: option.splits)
  with 3 run_steps_keeps [OF run(2), of h] show ?case by (auto split: option.splits)
qed auto

text \<open>What the checks read.\<close>

lemma check_cong:
  "general c = general d \<Longrightarrow> check_general c = check_general d"
  "authentication c = authentication d \<Longrightarrow> check_auth_method c = check_auth_method d"
  "rtsp c = rtsp d \<Longrightarrow> authentication c = authentication d \<Longrightarrow> check_rtsp c = check_rtsp d"
  "rtmp c = rtmp d \<Longrightarrow> check_rtmp c = check_rtmp d"
  "hls c = hls d \<Longrightarrow> check_hls c = check_hls d"
  "webrtc c = webrtc d \<Longrightarrow> check_webrtc c = check_webrtc d"
  "webrtc c = webrtc d \<Longrightarrow> check_webrtc_degrade c = check_webrtc_degrade d"
  "srt c = srt d \<Longrightarrow> webrtc c = webrtc d \<Longrightarrow> check_srt c = check_srt d"
  "degrade c = degrade d \<Longrightarrow> webrtc c = webrtc d \<Longrightarrow> check_degrade c = check_degrade d"
  "mmx c = mmx d \<Longrightarrow> check_mmx env c = check_mmx env d"
  "tencent c = tencent d \<Longrightarrow> check_tencent c = check_tencent d"
  "map fst (OptionalPaths c) = map fst (OptionalPaths d) \<Longrightarrow> check_aliases c = check_aliases d"
  by (simp_all add: check_general_def check_auth_method_def check_rtsp_def check_rtmp_def check_hls_def check_webrtc_def
      check_webrtc_degrade_def check_srt_def check_degrade_def check_mmx_def check_tencent_def check_aliases_def)

text \<open>The check of WebRTC does not look at what the last conversion fills.\<close>

lemma check_webrtc_ips: "check_webrtc (c\<lparr>webrtc := conv_webrtc_ips (webrtc c)\<rparr>) = check_webrtc c"
proof (cases "conv_webrtc_ips (webrtc c) = webrtc c")
  case False
  then have "conv_webrtc_ips (webrtc c) = (webrtc c)\<lparr>WebRTCIPsFromInterfaces := True\<rparr>" by (auto simp: conv_webrtc_ips_def split: if_splits)
  then show ?thesis by (cases "WebRTC (webrtc c)") (simp_all add: check_webrtc_def Let_def)
qed simp

lemma server_steps_stable: "stable_checks (server_steps env)"
  by (auto simp: server_steps_def service_steps_def check_webrtc_ips intro!: check_cong)

lemma conv_settled [simp]:
  "conv_general (conv_general g) = conv_general g" "conv_auth (conv_legacy l (conv_auth a)) = conv_legacy l (conv_auth a)" "conv_auth (conv_auth a) = conv_auth a"
  "conv_legacy l (conv_legacy l a) = conv_legacy l a" "conv_service (conv_service h) = conv_service h"
  "conv_rtsp (conv_rtsp r) = conv_rtsp r" "conv_rtmp (conv_rtmp m) = conv_rtmp m" "conv_hls (conv_hls x) = conv_hls x"
  "conv_webrtc_ips (conv_webrtc_ips w) = conv_webrtc_ips w" "conv_moq (conv_moq q) = conv_moq q"
  "conv_record rec (conv_record rec d) = conv_record rec d"
  by (simp_all add: conv_general_def conv_auth_def conv_legacy_def conv_service_def conv_rtsp_def conv_rtmp_def conv_hls_def
      conv_webrtc_ips_def conv_moq_def conv_record_def split: option.splits)

lemma conv_webrtc_settled:
  assumes "WebRTCICEServers w = None"
  shows "conv_webrtc (conv_webrtc_ips (conv_webrtc w)) = conv_webrtc_ips (conv_webrtc w)"
proof -
  have twice: "conv_webrtc (conv_webrtc w) = conv_webrtc w" using assms by (simp add: conv_webrtc_def)
  have ips: "conv_webrtc (v\<lparr>WebRTCIPsFromInterfaces := b\<rparr>) = (conv_webrtc v)\<lparr>WebRTCIPsFromInterfaces := b\<rparr>" for v b
    by (simp add: conv_webrtc_def)
  have "conv_webrtc_ips v = v \<or> conv_webrtc_ips v = v\<lparr>WebRTCIPsFromInterfaces := True\<rparr>" for v
    by (simp add: conv_webrtc_ips_def)
  then show ?thesis using twice ips by metis
qed

lemma conv_record_credentials [simp]:
  "anyPathHasDeprecatedCredentials (conv_record rec d) ps = anyPathHasDeprecatedCredentials d ps"
  by (simp add: anyPathHasDeprecatedCredentials_def conv_record_def)

text \<open>The configuration after all conversions.\<close>

definition converted :: "conf \<Rightarrow> conf" where
  "converted c =
     c\<lparr>general := conv_general (general c), authentication := conv_legacy (legacy c) (conv_auth (authentication c)),
       api := conv_service (api c), metrics := conv_service (metrics c), pprof := conv_service (pprof c),
       playback := conv_service (playback c), rtsp := conv_rtsp (rtsp c), rtmp := conv_rtmp (rtmp c), hls := conv_hls (hls c),
       webrtc := conv_webrtc_ips (conv_webrtc (webrtc c)), moq := conv_moq (moq c),
       PathDefaults := conv_record (deprecated_record c) (PathDefaults c)\<rparr>"

lemma global_steps_converted:
  "run_steps (global_steps env) c = Inr c1 \<Longrightarrow> c1 = converted c"
  by (auto simp: global_steps_def user_steps_def server_steps_def service_steps_def converted_def split: option.splits)

text \<open>Every check that was passed on the way holds of the result.\<close>

lemma user_steps_checks:
  assumes "run_steps user_steps c = Inr c1"
  shows "first_error (check_general c1) = None" "legacy c \<Longrightarrow> AuthInternalUsers (authentication c) = defaultAuthInternalUsers"
  using assms by (auto simp: user_steps_def check_general_def check_legacy_def conv_auth_def Let_def split: if_splits option.splits)

lemma global_steps_Inr:
  assumes "run_steps (global_steps env) c = Inr c1"
  shows "first_error (check_general c1) = None" "Check g \<in> set (server_steps env) \<Longrightarrow> first_error (g c1) = None"
    "legacy c \<Longrightarrow> AuthInternalUsers (authentication c) = defaultAuthInternalUsers"
proof -
  from assms obtain ca where ca: "run_steps user_steps c = Inr ca" "run_steps (server_steps env) ca = Inr c1"
    by (auto simp: global_steps_def run_steps_append split: sum.splits)
  have "check_general c1 = check_general ca"
    by (rule run_steps_keeps [OF ca(2)]) (auto simp: server_steps_def service_steps_def intro!: check_cong)
  with user_steps_checks [OF ca(1)] run_steps_checks [OF ca(2) server_steps_stable]
  show "first_error (check_general c1) = None" "Check g \<in> set (server_steps env) \<Longrightarrow> first_error (g c1) = None"
    "legacy c \<Longrightarrow> AuthInternalUsers (authentication c) = defaultAuthInternalUsers" by auto
qed

section \<open>The whole validation\<close>

lemma Validate_Inr:
  assumes "Validate env c = Inr c'"
  obtains ps us where "run_steps (global_steps env) c = Inr (converted c)"
    "validate_paths env (globals_of (converted c)) (legacy c) (sortedKeys (OptionalPaths c))
       (Paths (build_paths (converted c))) (AuthInternalUsers (authentication (converted c))) = Inr (ps, us)"
    "c' = (build_paths (converted c))\<lparr>Paths := ps, authentication := (authentication (converted c))\<lparr>AuthInternalUsers := us\<rparr>\<rparr>"
proof -
  from assms obtain c1 where c1: "run_steps (global_steps env) c = Inr c1" by (auto simp: Validate_def split: sum.splits)
  have keys: "sortedKeys (OptionalPaths (build_paths x)) = sortedKeys (OptionalPaths x)" "OptionalPaths (converted c) = OptionalPaths c"
    "globals_of (build_paths x) = globals_of x" "authentication (build_paths x) = authentication x" for x
    by (simp_all add: build_paths_def sortedKeys_def converted_def globals_of_def comp_def case_prod_unfold)
  with c1 global_steps_converted [OF c1] assms that show ?thesis
    by (auto simp: Validate_def Let_def split: sum.splits)
qed

lemma keys_build: "map fst (Paths (build_paths c)) = map fst (OptionalPaths c)"
  by (simp add: build_paths_def comp_def case_prod_unfold)

lemma Validate_paths_ok:
  assumes "Validate env c = Inr c'" "distinct (map fst (OptionalPaths c))"
  shows "map fst (Paths c') = map fst (OptionalPaths c)" "paths_ok r (set (map fst (Paths c'))) (Paths c')"
proof -
  obtain ps us where v: "validate_paths env (globals_of (converted c)) (legacy c) (sortedKeys (OptionalPaths c))
       (Paths (build_paths (converted c))) (AuthInternalUsers (authentication (converted c))) = Inr (ps, us)"
    "c' = (build_paths (converted c))\<lparr>Paths := ps, authentication := (authentication (converted c))\<lparr>AuthInternalUsers := us\<rparr>\<rparr>"
    using Validate_Inr [OF assms(1)] by metis
  have keys: "map fst (Paths (build_paths (converted c))) = map fst (OptionalPaths c)"
    using keys_build [of "converted c"] by (simp add: converted_def)
  have "map fst ps = map fst (OptionalPaths c) \<and> paths_ok r ({} \<union> set (sortedKeys (OptionalPaths c))) ps"
    using validate_paths_ok [OF v(1) _ paths_ok_empty] keys assms(2) by simp
  then show "map fst (Paths c') = map fst (OptionalPaths c)" "paths_ok r (set (map fst (Paths c'))) (Paths c')"
    using v(2) by (simp_all add: sortedKeys_def)
qed

text \<open>The configurations of the paths, as the path manager gets them.\<close>

definition path_confs :: "renderer \<Rightarrow> conf \<Rightarrow> (string \<times> path_conf) list" where
  "path_confs r c = map (\<lambda>(n, p). (n, as_conf r p)) (Paths c)"

lemma not_both_aliases:
  assumes "length (filter is_all_alias ns) \<le> 1"
  shows "\<not> (''all'' \<in> set ns \<and> ''all_others'' \<in> set ns)"
proof
  assume "''all'' \<in> set ns \<and> ''all_others'' \<in> set ns"
  then have "set [''all'', ''all_others''] \<subseteq> set (filter is_all_alias ns)" by (simp add: is_all_alias_def)
  then have "card (set [''all'', ''all_others'']) \<le> card (set (filter is_all_alias ns))" by (rule card_mono [rotated]) simp
  also have "\<dots> \<le> 1" using card_length assms order_trans by blast
  finally show False by simp
qed

lemma validated_confs_ok:
  assumes "Validate env c = Inr c'" "distinct (map fst (OptionalPaths c))"
  shows "wf_confs (path_confs r c')" "(n, k) \<in> set (path_confs r c') \<Longrightarrow> conf_ok k"
    "(n, k) \<in> set (path_confs r c') \<Longrightarrow> record_ok k"
proof -
  note ok = Validate_paths_ok [OF assms]
  have dist: "distinct (map fst (Paths c'))" using ok(1) assms(2) by simp
  have entry: "Name p = n \<and> conf_ok (as_conf r p) \<and> record_ok (as_conf r p)" if "(n, p) \<in> set (Paths c')" for n p
  proof -
    have "map_of (Paths c') n = Some p" "n \<in> set (map fst (Paths c'))" using that dist by force+
    then show ?thesis using ok(2) [of r] by (auto simp: paths_ok_def)
  qed
  have "run_steps (global_steps env) c = Inr (converted c)" using Validate_Inr [OF assms(1)] by metis
  from global_steps_Inr(2) [OF this, of check_aliases] have "length (filter is_all_alias (map fst (OptionalPaths c))) \<le> 1"
    by (simp add: server_steps_def check_aliases_def converted_def split: if_splits)
  from not_both_aliases [OF this] ok(1) have "\<not> (''all'' \<in> fst ` set (Paths c') \<and> ''all_others'' \<in> fst ` set (Paths c'))"
    by (metis set_map)
  with dist entry show "wf_confs (path_confs r c')"
    by (force simp: wf_confs_def path_confs_def comp_def case_prod_unfold list_all_iff)
  show "(n, k) \<in> set (path_confs r c') \<Longrightarrow> conf_ok k" "(n, k) \<in> set (path_confs r c') \<Longrightarrow> record_ok k"
    using entry by (auto simp: path_confs_def)
qed

section \<open>Validating again\<close>

lemma fill_again: "fill_optional (Some x) = x"
  by (simp add: fill_optional_def)

lemma build_again:
  "build_paths (c\<lparr>OptionalPaths := map (\<lambda>(n, o'). (n, Some (fill_optional o'))) (OptionalPaths c), Paths := ps\<rparr>) = build_paths c"
  by (simp add: build_paths_def comp_def case_prod_unfold fill_again)

lemma legacy_filled:
  "anyPathHasDeprecatedCredentials d (map (\<lambda>(n, o'). (n, Some (fill_optional o'))) ps) = anyPathHasDeprecatedCredentials d ps"
proof -
  have "case_option False has_credentials o' = has_credentials (fill_optional o')" for o'
    by (cases o') (simp_all add: fill_optional_def empty_optional_def has_credentials_def)
  then have "list_ex (\<lambda>(n, pa). case_option False has_credentials pa) (map (\<lambda>(n, o'). (n, Some (fill_optional o'))) ps) =
      list_ex (\<lambda>(n, pa). case_option False has_credentials pa) ps"
    by (induction ps) (simp_all add: case_prod_unfold fill_again)
  then show ?thesis by (simp only: anyPathHasDeprecatedCredentials_def)
qed

lemma converted_fields:
  "general (converted c) = conv_general (general c)" "authentication (converted c) = conv_legacy (legacy c) (conv_auth (authentication c))"
  "api (converted c) = conv_service (api c)" "metrics (converted c) = conv_service (metrics c)"
  "pprof (converted c) = conv_service (pprof c)" "playback (converted c) = conv_service (playback c)"
  "rtsp (converted c) = conv_rtsp (rtsp c)" "rtmp (converted c) = conv_rtmp (rtmp c)" "hls (converted c) = conv_hls (hls c)"
  "webrtc (converted c) = conv_webrtc_ips (conv_webrtc (webrtc c))" "moq (converted c) = conv_moq (moq c)"
  "PathDefaults (converted c) = conv_record (deprecated_record c) (PathDefaults c)"
  "deprecated_record (converted c) = deprecated_record c" "OptionalPaths (converted c) = OptionalPaths c"
  by (simp_all add: converted_def)

lemma settled_again:
  assumes "run_steps (global_steps env) c = Inr (converted c)" "\<not> legacy c" "WebRTCICEServers (webrtc c) = None"
    and "map fst os = map fst (OptionalPaths c)" "\<And>d. anyPathHasDeprecatedCredentials d os = anyPathHasDeprecatedCredentials d (OptionalPaths c)"
  shows "run_steps (global_steps env) ((converted c)\<lparr>OptionalPaths := os, Paths := ps\<rparr>) =
    Inr ((converted c)\<lparr>OptionalPaths := os, Paths := ps\<rparr>)"
proof -
  let ?c = "(converted c)\<lparr>OptionalPaths := os, Paths := ps\<rparr>"
  have leg: "\<not> legacy ?c" using assms(2,5) by (simp add: converted_fields)
  have same: "g ?c = g (converted c)" if "Check g \<in> set (server_steps env)" for g
    using that assms(4) by (auto simp: server_steps_def service_steps_def converted_fields intro!: check_cong)
  have checks: "first_error (g ?c) = None" if "Check g \<in> set (server_steps env)" for g
    using global_steps_Inr(2) [OF assms(1) that] same [OF that] by simp
  have conv: "f ?c = ?c" if "Convert f \<in> set (server_steps env)" for f
    using that assms(3) by (auto simp: server_steps_def service_steps_def converted_fields conv_webrtc_settled)
  have "settled ?c s" if "s \<in> set (server_steps env)" for s by (cases s) (use that checks conv in auto)
  moreover have "first_error (check_general ?c) = None"
    using global_steps_Inr(1) [OF assms(1)] check_cong(1) [of ?c "converted c"] by simp
  then have "list_all (settled ?c) user_steps"
    using leg assms(2) by (simp add: user_steps_def check_legacy_def converted_fields conv_legacy_def del: not_None_eq)
  ultimately have "list_all (settled ?c) (global_steps env)" by (auto simp: global_steps_def list_all_iff)
  then show ?thesis by (rule run_steps_settled)
qed

lemma legacy_users_not_default: "legacyAuthInternalUsers @ added \<noteq> defaultAuthInternalUsers"
  by (simp add: legacyAuthInternalUsers_def defaultAuthInternalUsers_def any_user_def)

lemma legacy_again:
  assumes "run_steps (global_steps env) c = Inr (converted c)" "legacy c" "\<And>d. anyPathHasDeprecatedCredentials d (OptionalPaths c) \<Longrightarrow> anyPathHasDeprecatedCredentials d os"
  shows "run_steps (global_steps env) ((converted c)\<lparr>OptionalPaths := os, Paths := ps,
      authentication := (authentication (converted c))\<lparr>AuthInternalUsers := legacyAuthInternalUsers @ added\<rparr>\<rparr>) =
    Inl ''authInternalUsers and legacy credentials cannot be used together''" (is "run_steps _ ?c = _")
proof -
  have "first_error (check_general ?c) = None"
    using global_steps_Inr(1) [OF assms(1)] check_cong(1) [of ?c "converted c"] by simp
  moreover have "?c\<lparr>general := conv_general (general ?c)\<rparr> = ?c" by (simp add: converted_fields)
  moreover have "legacy ?c" using assms(2,3) by (simp add: converted_fields)
  moreover have "AuthInternalUsers (conv_auth (authentication ?c)) = legacyAuthInternalUsers @ added"
    by (simp add: conv_auth_def split: option.splits)
  moreover have "legacy (?c\<lparr>authentication := a\<rparr>) = legacy ?c" for a by simp
  ultimately have "run_steps user_steps ?c = Inl ''authInternalUsers and legacy credentials cannot be used together''"
    using legacy_users_not_default by (simp add: user_steps_def check_legacy_def)
  then show ?thesis by (simp add: global_steps_def run_steps_append)
qed

section \<open>Powers of two\<close>

lemma and_pred_zero:
  fixes n :: int
  assumes "0 < n" "n AND (n - 1) = 0"
  shows "\<exists>k. n = 2 ^ k"
  using assms
proof (induction "nat n" arbitrary: n rule: less_induct)
  case less
  show ?case
  proof (cases "even n")
    case True
    then obtain m where m: "n = 2 * m" by (elim evenE)
    have "(2 * m - 1) div 2 = m - 1" by presburger
    with less.prems(2) m have "m AND (m - 1) = 0" by (simp add: and_rec [of "2 * m"])
    with less.hyps [of m] less.prems(1) m obtain k where "m = 2 ^ k" by auto
    with m have "n = 2 ^ Suc k" by simp
    then show ?thesis ..
  next
    case False
    then obtain m where m: "n = 2 * m + 1" by (elim oddE)
    with less.prems(2) have "m AND m = 0" by (simp add: and_rec [of "2 * m + 1"])
    with m have "n = 2 ^ 0" by simp
    then show ?thesis ..
  qed
qed

section \<open>What the changes keep\<close>

text \<open>
  The changes keep the names distinct, and after a validation, which fills the entries without values, a
  patch does not dereference a missing entry.
\<close>

lemma changes_keep_names:
  assumes "distinct (map fst (OptionalPaths c))"
  shows "AddPath n p c = Inr c' \<Longrightarrow> distinct (map fst (OptionalPaths c'))"
    "distinct (map fst (OptionalPaths (ReplacePath n p c)))"
    "PatchPath n p c = Ret c' \<Longrightarrow> distinct (map fst (OptionalPaths c'))"
    "RemovePath n c = Inr c' \<Longrightarrow> distinct (map fst (OptionalPaths c')) \<and> map_of (OptionalPaths c') n = None"
  using assms
  by (auto simp: AddPath_def ReplacePath_def PatchPath_def RemovePath_def distinct_update distinct_delete delete_conv'
      split: if_splits option.splits)

lemma patch_after_validate:
  assumes "Validate env c = Inr c'"
  shows "PatchPath n q c' \<noteq> Panic"
proof -
  obtain ps us where "c' = (build_paths (converted c))\<lparr>Paths := ps, authentication := (authentication (converted c))\<lparr>AuthInternalUsers := us\<rparr>\<rparr>"
    using Validate_Inr [OF assms] by metis
  then have "OptionalPaths c' = map (\<lambda>(n, o'). (n, Some (fill_optional o'))) (OptionalPaths c)"
    by (simp add: build_paths_def converted_fields)
  then have "map_of (OptionalPaths c') n \<noteq> Some None" by (auto simp: map_of_map split: option.splits)
  then show ?thesis by (auto simp: PatchPath_def split: option.splits)
qed

section \<open>Properties\<close>

text \<open>C8.
  A configuration that passes the validation is one that the path manager and the paths can work with:
  its paths are the entries of the configuration, each has its own name, at most one of the two names
  for all others is used, and every path satisfies what a path relies on (an always available
  path is not started on demand, a command on demand goes with a publisher, a static source has a form
  the source handler knows, and is on demand when the path has a regular expression) and what the recordings
  rely on (their names hold their time, and they are not deleted before they are complete).
\<close>
theorem conf_validated_paths:
  assumes "Validate env c = Inr c'" "distinct (map fst (OptionalPaths c))"
  shows "map fst (path_confs r c') = map fst (OptionalPaths c) \<and> wf_confs (path_confs r c') \<and>
    (\<forall>(n, k) \<in> set (path_confs r c'). Name k = n \<and> conf_ok k \<and> record_ok k)"
proof -
  have "map fst (path_confs r c') = map fst (OptionalPaths c)"
    using Validate_paths_ok(1) [OF assms] by (simp add: path_confs_def comp_def case_prod_unfold)
  moreover have "wf_confs (path_confs r c')" by (rule validated_confs_ok(1) [OF assms])
  moreover from this have "Name k = n" if "(n, k) \<in> set (path_confs r c')" for n k
    using that by (auto simp: wf_confs_def list_all_iff)
  ultimately show ?thesis using validated_confs_ok(2,3) [OF assms, where r = r] by blast
qed

text \<open>A small configuration: a camera with its two streams and a path for publishers.\<close>

definition plain_camera :: rpi_camera where
  "plain_camera =
     \<lparr>cam_CamID = 0, cam_Secondary = False, cam_Width = 640, cam_Height = 480, cam_Exposure = ''normal'', cam_AWB = ''auto'',
      cam_AWBGains = [0, 0], cam_Denoise = ''off'', cam_Metering = ''centre'', cam_FPS = 30, cam_AfMode = ''auto'',
      cam_AfRange = ''normal'', cam_AfSpeed = ''normal'', cam_Codec = ''auto'', cam_Profile = None, cam_Level = None,
      cam_HardwareH264Profile = ''main'', cam_HardwareH264Level = ''4.1'', cam_SoftwareH264Profile = ''baseline'',
      cam_SoftwareH264Level = ''4.1'', cam_JPEGQuality = None, cam_MJPEGQuality = 60, cam_PrimaryName = [],
      cam_SecondaryWidth = 0, cam_SecondaryHeight = 0, cam_SecondaryFPS = 0, cam_SecondaryMJPEGQuality = 0\<rparr>"

definition plain_path :: conf_path where
  "plain_path =
     \<lparr>Name = [], Regexp = None, Source = ''publisher'', SourceOnDemand = False, SourceRedirect = [],
      AlwaysAvailable = False, OverridePublisher = True, MaxReaders = 0, Fallback = None, RunOnDemand = [],
      Record = False, RecordPath = ''%path/%s'', RecordFormat = ''fmp4'', RecordPartDuration = 0, RecordMaxPartSize = 0,
      RecordSegmentDuration = 0, RecordDeleteAfter = 0, ForwardTencent = False, ForwardTencentStreamKey = [],
      ForwardMmx = False, ForwardMmxURL = [], ForwardMmxToken = [], ForwardMmxTargets = [], RPICamera = [], OtherSettings = [],
      SRTReadPassphrase = [], SRTPublishPassphrase = [], DisablePublisherOverride = None, SourceProtocol = None,
      RTSPTransport = [], SourceAnyPortEnable = None, RTSPAnyPort = False, RTPSDP = [], WHEPVideoTrackCount = 0,
      camera = plain_camera, AlwaysAvailableTracks = [], AlwaysAvailableFile = [], UseAbsoluteTimestamp = False,
      PublishUser = None, PublishPass = None, PublishIPs = None, ReadUser = None, ReadPass = None, ReadIPs = None,
      RunOnInit = [], RunOnUnDemand = []\<rparr>"

definition no_service :: http_service where
  "no_service = \<lparr>hs_Enabled = False, hs_Address = [], hs_AllowOrigin = None, hs_AllowOrigins = []\<rparr>"

definition camera_entry :: "bool \<Rightarrow> optional_path" where
  "camera_entry sec =
     empty_optional\<lparr>op_values := (\<lambda>p. p\<lparr>Source := ''rpiCamera'', camera := (camera p)\<lparr>cam_Secondary := sec\<rparr>\<rparr>)\<rparr>"

definition small_conf :: "(string \<times> optional_path option) list \<Rightarrow> conf" where
  "small_conf entries =
     \<lparr>general = \<lparr>ReadBufferCount = None, ReadTimeout = 1, WriteTimeout = 1, WriteQueueSize = 4, UDPMaxPayloadSize = 1452\<rparr>,
      authentication = \<lparr>ExternalAuthenticationURL = None, AuthMethod = AuthMethodInternal,
        AuthInternalUsers = defaultAuthInternalUsers, AuthHTTPAddress = [], AuthJWTJWKS = [], AuthJWTClaimKey = []\<rparr>,
      api = no_service, metrics = no_service, pprof = no_service, playback = no_service,
      rtsp = \<lparr>RTSPDisable = None, Protocols = None, Encryption = None, AuthMethods = None, ServerCert = None,
        ServerKey = None, RTSP = False, RTSPTransports = [], RTSPEncryption = EncryptionNo, RTSPAuthMethods = [],
        RTSPServerCert = [], RTSPServerKey = [], RTSPAddress = [], RTPAddress = [], RTCPAddress = [], MulticastIPRange = [],
        MulticastRTPPort = 0, MulticastRTCPPort = 0, RTSPSAddress = [], SRTPAddress = [], SRTCPAddress = [],
        MulticastSRTPPort = 0, MulticastSRTCPPort = 0\<rparr>,
      rtmp = \<lparr>RTMPDisable = None, RTMP = False, RTMPAddress = []\<rparr>,
      hls = \<lparr>HLSDisable = None, HLSAllowOrigin = None, HLS = False, HLSAllowOrigins = [], HLSAddress = [], HLSCDNSecret = []\<rparr>,
      webrtc = \<lparr>WebRTCDisable = None, WebRTCICEUDPMuxAddress = None, WebRTCICETCPMuxAddress = None,
        WebRTCICEHostNAT1To1IPs = None, WebRTCICEServers = None, WebRTCAllowOrigin = None, WebRTC = True,
        WebRTCAddress = '':8889'', WebRTCLocalUDPAddress = '':8189'', WebRTCLocalTCPAddress = [], WebRTCAdditionalHosts = [],
        WebRTCICEServers2 = [], WebRTCAllowOrigins = [], WebRTCIPsFromInterfaces = False, SplitRecAuthMode = ''simple'',
        WebRTCWHIPAuthKey = [], WebRTCDegradeEnable = False, WebRTCRecoverInstantLossPct = Fin 0,
        WebRTCDegradeInstantLossPct = Fin 0, WebRTCRecoverAvgLossPct = Fin 0, WebRTCDegradeAvgLossPct = Fin 0\<rparr>,
      srt = \<lparr>SRTLatency = 1, SRTReceiverBufferSize = 2632, SRTFlowControlWindow = 2, SRTLatencyAutoTune = False, SRTLatencyMin = 0,
        SRTLatencyMax = 0, SRTLatencyStep = 0, SRTLatencyRaiseStep = 0, SRTLatencyLowerPct = Fin 0, SRTLatencyRaisePct = Fin 0,
        SRTDegradeEnable = False, SRTRecoverInstantLossPct = Fin 0, SRTDegradeInstantLossPct = Fin 0, SRTRecoverAvgLossPct = Fin 0,
        SRTDegradeAvgLossPct = Fin 0\<rparr>,
      degrade = \<lparr>DegradeEnable = False, DegradeRaisePct = Fin 0, DegradeLowerPct = Fin 0, DegradeRestartPct = Fin 0, DegradeSampleSec = 0,
        DegradeObservationSec = 0, DegradeRaiseLatencyStep = 0, DegradeLowerLatencyStep = 0, DegradeLatencyMin = 0,
        DegradeLatencyMax = 0, DegradeNackTimeoutMs = 0\<rparr>,
      mmx = \<lparr>MMXControl = False, MMXControlURL = [], MMXNodeRole = [], MMXNodeSecret = [], MMXNodeRegion = [],
        MMXNodeCapacity = 0, MMXHeartbeatInterval = 0, MMXWebRTCBaseURL = [], MMXRecordingSyncEnabled = False,
        MMXRecordingSyncURL = [], MMXRecordingSyncBearerToken = [], MMXRecordingSyncPollInterval = 0\<rparr>,
      tencent = \<lparr>TencentWHIPEnable = False, TencentWHIPEndpoint = [], TencentWHIPDomain = [], TencentWHIPApp = [],
        TencentWHIPSecretKey = [], TencentWHIPTokenDays = 0\<rparr>,
      moq = \<lparr>MoQHTTPS2Address = None, MoQHTTPS3Address = None, MoQHTTP2Address = [], MoQHTTP3Address = []\<rparr>,
      deprecated_record = \<lparr>dep_Record = None, dep_RecordPath = None, dep_RecordFormat = None,
        dep_RecordPartDuration = None, dep_RecordSegmentDuration = None, dep_RecordDeleteAfter = None\<rparr>,
      IngestThreadEnable = False, ForwardMmxEnable = False, WebRTCForwardSecret = [], PathDefaults = plain_path,
      OptionalPaths = entries, Paths = []\<rparr>"

definition closed_env :: conf_env where
  "closed_env =
     \<lparr>regexp_Compile = (\<lambda>_. False), url_Parse = (\<lambda>_. None), base_ParseURL = (\<lambda>_. False), os_Open = (\<lambda>_. None), presentation_Unmarshal = (\<lambda>_. None)\<rparr>"

definition camera_conf :: conf where
  "camera_conf = small_conf [(''front'', Some (camera_entry False)), (''side'', Some (camera_entry True)), (''live'', None)]"

lemma camera_conf_result:
  "case Validate closed_env camera_conf of
     Inl _ \<Rightarrow> False
   | Inr c' \<Rightarrow> map fst (Paths c') = [''front'', ''side'', ''live''] \<and> \<not> legacy c' \<and>
       map (\<lambda>(n, p). (Source p, cam_PrimaryName (camera p), cam_SecondaryWidth (camera p))) (Paths c') =
         [(''rpiCamera'', [], 640), (''rpiCamera'', ''front'', 0), (''publisher'', [], 0)]"
  by code_simp

lemma camera_conf_valid:
  obtains c' where "Validate closed_env camera_conf = Inr c'" "map fst (Paths c') = [''front'', ''side'', ''live'']" "\<not> legacy c'"
  using camera_conf_result that by (auto split: sum.splits)

lemma camera_conf_simps [simp]:
  "map fst (OptionalPaths camera_conf) = [''front'', ''side'', ''live'']" "WebRTCICEServers (webrtc camera_conf) = None"
  by (simp_all add: camera_conf_def small_conf_def)

theorem conf_validated_paths_witness:
  "\<exists>c' k. Validate closed_env camera_conf = Inr c' \<and> (''front'', k) \<in> set (path_confs (\<lambda>_. ([], [])) c') \<and> conf_ok k"
proof -
  obtain c' where v: "Validate closed_env camera_conf = Inr c'" by (rule camera_conf_valid)
  have ok: "map fst (path_confs (\<lambda>_. ([], [])) c') = [''front'', ''side'', ''live''] \<and>
      (\<forall>(n, k) \<in> set (path_confs (\<lambda>_. ([], [])) c'). Name k = n \<and> conf_ok k \<and> record_ok k)"
    using conf_validated_paths [OF v, of "\<lambda>_. ([], [])"] by simp
  then have "''front'' \<in> set (map fst (path_confs (\<lambda>_. ([], [])) c'))" by simp
  then obtain k where "(''front'', k) \<in> set (path_confs (\<lambda>_. ([], [])) c')" unfolding set_map by force
  with v ok show ?thesis by blast
qed

text \<open>C9.
  Validating a validated configuration again, as every change through the API does with a copy of the
  running configuration, returns it unchanged - unless a path has deprecated credentials: the users
  that replaced them are then taken for users of the configuration, and the validation fails. (The
  deprecated list of ICE servers is excluded: its entries are appended once more each time.)
\<close>
theorem conf_validate_again:
  assumes "Validate env c = Inr c'" "WebRTCICEServers (webrtc c) = None"
  shows "Validate env c' =
    (if legacy c then Inl ''authInternalUsers and legacy credentials cannot be used together'' else Inr c')"
proof -
  let ?os = "map (\<lambda>(n, o'). (n, Some (fill_optional o'))) (OptionalPaths c)"
  obtain ps us where v: "run_steps (global_steps env) c = Inr (converted c)"
    "validate_paths env (globals_of (converted c)) (legacy c) (sortedKeys (OptionalPaths c))
       (Paths (build_paths (converted c))) (AuthInternalUsers (authentication (converted c))) = Inr (ps, us)"
    "c' = (build_paths (converted c))\<lparr>Paths := ps, authentication := (authentication (converted c))\<lparr>AuthInternalUsers := us\<rparr>\<rparr>"
    by (rule Validate_Inr [OF assms(1)])
  obtain added where us: "us = AuthInternalUsers (authentication (converted c)) @ added" "\<not> legacy c \<longrightarrow> added = []"
    using validate_paths_users [OF v(2)] by blast
  have os: "map fst ?os = map fst (OptionalPaths c)"
    "\<And>d. anyPathHasDeprecatedCredentials d ?os = anyPathHasDeprecatedCredentials d (OptionalPaths c)"
    by (simp add: comp_def case_prod_unfold) (rule legacy_filled)
  have c': "c' = (converted c)\<lparr>OptionalPaths := ?os, Paths := ps,
      authentication := (authentication (converted c))\<lparr>AuthInternalUsers := us\<rparr>\<rparr>"
    using v(3) by (simp add: build_paths_def converted_fields)
  show ?thesis
  proof (cases "legacy c")
    case True
    then have "us = legacyAuthInternalUsers @ added" using us(1) by (simp add: converted_fields conv_legacy_def)
    with legacy_again [OF v(1) True iffD2 [OF os(2)]] c' True show ?thesis by (simp add: Validate_def)
  next
    case False
    with us have keep: "c' = (converted c)\<lparr>OptionalPaths := ?os, Paths := ps\<rparr>" using c' by simp
    have again: "run_steps (global_steps env) c' = Inr c'" using settled_again [OF v(1) False assms(2) os] keep by simp
    have build: "build_paths c' = build_paths (converted c)"
      using build_again [where c = "converted c" and ps = ps] keep by (simp add: converted_fields)
    have "legacy c' = legacy c" using keep os(2) by (simp add: converted_fields)
    moreover have "globals_of (build_paths (converted c)) = globals_of (converted c)" "sortedKeys (OptionalPaths (build_paths (converted c))) = sortedKeys (OptionalPaths c)"
      "authentication (build_paths (converted c)) = authentication (converted c)"
      by (simp_all add: build_paths_def globals_of_def sortedKeys_def converted_fields comp_def case_prod_unfold)
    ultimately show ?thesis using False again v(2) v(3) [symmetric] by (simp add: Validate_def Let_def build)
  qed
qed

theorem conf_validate_again_witness:
  "\<exists>c'. Validate closed_env camera_conf = Inr c' \<and> Validate closed_env c' = Inr c'"
proof -
  obtain c' where v: "Validate closed_env camera_conf = Inr c'" by (rule camera_conf_valid)
  have "\<not> legacy camera_conf" by code_simp
  with conf_validate_again [OF v] v show ?thesis by auto
qed

text \<open>C22.
  The streams of the cameras of a validated configuration are paired: a camera has one primary stream, a
  secondary stream belongs to a path with the primary stream of its camera, which has been told its
  size, and two secondary streams never share a primary one.
\<close>
theorem conf_cameras_paired:
  assumes "Validate env c = Inr c'" "distinct (map fst (OptionalPaths c))"
  shows "(\<forall>k p k' q. map_of (Paths c') k = Some p \<and> camera_primary p \<and> map_of (Paths c') k' = Some q \<and>
      camera_primary q \<and> cam_CamID (camera q) = cam_CamID (camera p) \<longrightarrow> k' = k) \<and>
    (\<forall>k p. map_of (Paths c') k = Some p \<and> camera_secondary p \<longrightarrow>
      (\<exists>q. map_of (Paths c') (cam_PrimaryName (camera p)) = Some q \<and> camera_primary q \<and>
           cam_CamID (camera q) = cam_CamID (camera p) \<and> 0 < cam_SecondaryWidth (camera q))) \<and>
    (\<forall>k p k' p'. map_of (Paths c') k = Some p \<and> camera_secondary p \<and> map_of (Paths c') k' = Some p' \<and>
      camera_secondary p' \<and> cam_PrimaryName (camera p) = cam_PrimaryName (camera p') \<longrightarrow> k = k')"
proof -
  have paired: "cameras_paired (set (map fst (Paths c'))) (Paths c')"
    using Validate_paths_ok(2) [OF assms, of "\<lambda>_. ([], [])"] by (simp add: paths_ok_def)
  have prim: "is_primary_of cid q \<longleftrightarrow> camera_primary q \<and> cam_CamID (camera q) = cid" for cid q
    by (auto simp: is_primary_of_def camera_primary_def)
  show ?thesis
  proof (intro conjI allI impI; elim conjE)
    fix k p k' q
    assume "map_of (Paths c') k = Some p" "camera_primary p" "map_of (Paths c') k' = Some q" "camera_primary q"
      "cam_CamID (camera q) = cam_CamID (camera p)"
    with paired map_of_in [of "Paths c'" k p] show "k' = k" unfolding cameras_paired_def prim by blast
  next
    fix k p
    assume "map_of (Paths c') k = Some p" "camera_secondary p"
    with paired map_of_in [of "Paths c'" k p] show "\<exists>q. map_of (Paths c') (cam_PrimaryName (camera p)) = Some q \<and>
        camera_primary q \<and> cam_CamID (camera q) = cam_CamID (camera p) \<and> 0 < cam_SecondaryWidth (camera q)"
      unfolding cameras_paired_def prim by blast
  next
    fix k p k' p'
    assume "map_of (Paths c') k = Some p" "camera_secondary p" "map_of (Paths c') k' = Some p'" "camera_secondary p'"
      "cam_PrimaryName (camera p) = cam_PrimaryName (camera p')"
    with paired map_of_in [of "Paths c'" k p] map_of_in [of "Paths c'" k' p'] show "k = k'"
      unfolding cameras_paired_def by blast
  qed
qed

theorem conf_cameras_paired_witness:
  "\<exists>c'. Validate closed_env camera_conf = Inr c' \<and>
     (\<forall>p. map_of (Paths c') ''side'' = Some p \<and> camera_secondary p \<longrightarrow> (\<exists>q. map_of (Paths c') (cam_PrimaryName (camera p)) = Some q))"
proof -
  obtain c' where v: "Validate closed_env camera_conf = Inr c'" by (rule camera_conf_valid)
  have "distinct (map fst (OptionalPaths camera_conf))" by simp
  note paired = conf_cameras_paired [OF v this]
  show ?thesis using v conjunct1 [OF conjunct2 [OF paired]] by blast
qed

text \<open>C23.
  The numbers other components divide by, index with or compare against: in a validated configuration the
  timeouts are positive, the size of the write queues is a power of two (their ring buffers mask the
  index with it), the flow control window of SRT holds the whole receive buffer in packets, and when the
  degradation or the tuning of the latency is on, its range is not empty, its steps are positive and its
  band of loss is ordered, unless one of the percentages is NaN, which the comparisons of the validation
  let pass.
\<close>
theorem conf_validated_bounds:
  assumes "Validate env c = Inr c'"
  shows "0 < ReadTimeout (general c') \<and> 0 < WriteTimeout (general c') \<and> (\<exists>k. WriteQueueSize (general c') = 2 ^ k) \<and>
    UDPMaxPayloadSize (general c') \<le> 1472 \<and> 0 < SRTLatency (srt c') \<and> 0 < SRTFlowControlWindow (srt c') \<and>
    SRTReceiverBufferSize (srt c') sdiv srtMinPayloadSize \<le> SRTFlowControlWindow (srt c') \<and>
    (DegradeEnable (degrade c') \<longrightarrow>
       (DegradeLowerPct (degrade c') \<noteq> NaN \<and> DegradeRaisePct (degrade c') \<noteq> NaN \<longrightarrow>
          go_less (DegradeLowerPct (degrade c')) (DegradeRaisePct (degrade c'))) \<and>
       (DegradeRaisePct (degrade c') \<noteq> NaN \<and> DegradeRestartPct (degrade c') \<noteq> NaN \<longrightarrow>
          go_le (DegradeRaisePct (degrade c')) (DegradeRestartPct (degrade c'))) \<and> 0 < DegradeSampleSec (degrade c') \<and>
       0 < DegradeObservationSec (degrade c') \<and> 0 < DegradeRaiseLatencyStep (degrade c') \<and> 0 < DegradeLowerLatencyStep (degrade c') \<and>
       0 < DegradeLatencyMin (degrade c') \<and> DegradeLatencyMin (degrade c') \<le> DegradeLatencyMax (degrade c')) \<and>
    (SRTLatencyAutoTune (srt c') \<longrightarrow> (SRTLatencyLowerPct (srt c') \<noteq> NaN \<and> SRTLatencyRaisePct (srt c') \<noteq> NaN \<longrightarrow>
          go_less (SRTLatencyLowerPct (srt c')) (SRTLatencyRaisePct (srt c'))) \<and>
       0 < SRTLatencyMin (srt c') \<and> SRTLatencyMin (srt c') \<le> SRTLatency (srt c') \<and> SRTLatencyMin (srt c') \<le> SRTLatencyMax (srt c') \<and>
       0 < SRTLatencyStep (srt c') \<and> 0 < SRTLatencyRaiseStep (srt c'))"
proof -
  obtain ps us where v: "run_steps (global_steps env) c = Inr (converted c)"
    "c' = (build_paths (converted c))\<lparr>Paths := ps, authentication := (authentication (converted c))\<lparr>AuthInternalUsers := us\<rparr>\<rparr>"
    using Validate_Inr [OF assms] by metis
  have same: "general c' = general (converted c)" "srt c' = srt (converted c)" "degrade c' = degrade (converted c)" "webrtc c' = webrtc (converted c)"
    using v(2) by (simp_all add: build_paths_def)
  have g: "first_error (check_general c') = None" using global_steps_Inr(1) [OF v(1)] check_cong(1) [OF same(1)] by simp
  have s: "first_error (check_srt c') = None"
    using global_steps_Inr(2) [OF v(1), of check_srt] check_cong(8) [OF same(2,4)] by (simp add: server_steps_def)
  have d: "first_error (check_degrade c') = None"
    using global_steps_Inr(2) [OF v(1), of check_degrade] check_cong(9) [OF same(3,4)] by (simp add: server_steps_def)
  from g have "0 < ReadTimeout (general c')" "0 < WriteTimeout (general c')" "UDPMaxPayloadSize (general c') \<le> 1472"
    "0 < WriteQueueSize (general c')" "WriteQueueSize (general c') AND (WriteQueueSize (general c') - 1) = 0"
    by (auto simp: check_general_def Let_def split: if_splits)
  note gen = this and_pred_zero [OF this(4,5)]
  from s have srt: "0 < SRTLatency (srt c')" "0 < SRTFlowControlWindow (srt c')"
    "SRTReceiverBufferSize (srt c') sdiv srtMinPayloadSize \<le> SRTFlowControlWindow (srt c')"
    "SRTLatencyAutoTune (srt c') \<longrightarrow> (SRTLatencyLowerPct (srt c') \<noteq> NaN \<and> SRTLatencyRaisePct (srt c') \<noteq> NaN \<longrightarrow>
          go_less (SRTLatencyLowerPct (srt c')) (SRTLatencyRaisePct (srt c'))) \<and>
       0 < SRTLatencyMin (srt c') \<and> SRTLatencyMin (srt c') \<le> SRTLatency (srt c') \<and> SRTLatencyMin (srt c') \<le> SRTLatencyMax (srt c') \<and>
       0 < SRTLatencyStep (srt c') \<and> 0 < SRTLatencyRaiseStep (srt c')"
    by (auto simp: check_srt_def Let_def go_not_le split: if_splits)
  from d have "DegradeEnable (degrade c') \<longrightarrow>
       (DegradeLowerPct (degrade c') \<noteq> NaN \<and> DegradeRaisePct (degrade c') \<noteq> NaN \<longrightarrow>
          go_less (DegradeLowerPct (degrade c')) (DegradeRaisePct (degrade c'))) \<and>
       (DegradeRaisePct (degrade c') \<noteq> NaN \<and> DegradeRestartPct (degrade c') \<noteq> NaN \<longrightarrow>
          go_le (DegradeRaisePct (degrade c')) (DegradeRestartPct (degrade c'))) \<and> 0 < DegradeSampleSec (degrade c') \<and>
       0 < DegradeObservationSec (degrade c') \<and> 0 < DegradeRaiseLatencyStep (degrade c') \<and> 0 < DegradeLowerLatencyStep (degrade c') \<and>
       0 < DegradeLatencyMin (degrade c') \<and> DegradeLatencyMin (degrade c') \<le> DegradeLatencyMax (degrade c')"
    by (auto simp: check_degrade_def Let_def go_not_le go_not_less split: if_splits)
  with gen srt show ?thesis by blast
qed

definition degrade_conf :: "go_float \<Rightarrow> conf" where
  "degrade_conf raise =
     (let c = small_conf [] in
      c\<lparr>webrtc := (webrtc c)\<lparr>WebRTCWHIPAuthKey := ''key''\<rparr>,
        degrade := \<lparr>DegradeEnable = True, DegradeRaisePct = raise, DegradeLowerPct = Fin 1, DegradeRestartPct = Fin 3, DegradeSampleSec = 6,
          DegradeObservationSec = 60, DegradeRaiseLatencyStep = 1, DegradeLowerLatencyStep = 1, DegradeLatencyMin = 1,
          DegradeLatencyMax = 2, DegradeNackTimeoutMs = 1\<rparr>\<rparr>)"

lemma degrade_conf_result:
  "case Validate closed_env (degrade_conf (Fin 2)) of
     Inl _ \<Rightarrow> False
   | Inr c' \<Rightarrow> DegradeEnable (degrade c') \<and> DegradeRaisePct (degrade c') = Fin 2 \<and> DegradeLowerPct (degrade c') = Fin 1"
  "case Validate closed_env (degrade_conf (Fin 1)) of
     Inl e \<Rightarrow> e = ''degradeRaisePct must be > degradeLowerPct''
   | Inr _ \<Rightarrow> False"
  by code_simp+

theorem conf_validated_bounds_witness:
  "\<exists>c' k. Validate closed_env (degrade_conf (Fin 2)) = Inr c' \<and> WriteQueueSize (general c') = 2 ^ k \<and>
     go_less (DegradeLowerPct (degrade c')) (DegradeRaisePct (degrade c'))"
proof -
  obtain c' where v: "Validate closed_env (degrade_conf (Fin 2)) = Inr c'" "DegradeEnable (degrade c')"
    "DegradeRaisePct (degrade c') = Fin 2" "DegradeLowerPct (degrade c') = Fin 1"
    using degrade_conf_result(1) by (auto split: sum.splits)
  from conf_validated_bounds [OF v(1)] v show ?thesis by auto
qed

text \<open>
  A percentage of NaN, which \<^verbatim>\<open>MTX_DEGRADERAISEPCT=NaN\<close> sets, passes the validation; no sample of the
  degradation is then above it, so that the quality is never lowered.
\<close>
lemma conf_accepts_nan:
  "case Validate closed_env (degrade_conf NaN) of
     Inl _ \<Rightarrow> False
   | Inr c' \<Rightarrow> DegradeEnable (degrade c') \<and> DegradeRaisePct (degrade c') = NaN"
  by code_simp

text \<open>The users of the deprecated credentials: those of each path are among the users at the end.\<close>

lemma validate_paths_legacy_users:
  assumes "validate_paths env g True ns ps us = Inr (ps', us')" "n \<in> set ns" "distinct ns" "distinct (map fst ps)"
    "map_of ps n = Some p"
  shows "credential_user AuthActionPublish n (PublishUser p) (PublishPass p) (PublishIPs p) \<in> set us'"
  using assms
proof (induction ns arbitrary: ps us p)
  case (Cons m ns)
  from Cons.prems(1) obtain q ps1 new where st: "map_of ps m = Some q" "path_validate env g True m ps q = Inr (ps1, new)"
    "validate_paths env g True ns ps1 (us @ new) = Inr (ps', us')" by (auto split: option.splits sum.splits)
  have keys: "distinct (map fst ps1)" using path_validate_ok(1) [OF st(2) Cons.prems(4) st(1)] Cons.prems(4) by simp
  show ?case
  proof (cases "n = m")
    case True
    with st(1) Cons.prems(5) have "p = q" by simp
    then have "credential_user AuthActionPublish n (PublishUser p) (PublishPass p) (PublishIPs p) \<in> set new"
      using path_validate_users [OF st(2) Cons.prems(4)] True by simp
    moreover obtain added where "us' = (us @ new) @ added" using validate_paths_users [OF st(3)] by blast
    ultimately show ?thesis by simp
  next
    case False
    obtain p1 where p1: "map_of ps1 n = Some p1" "PublishUser p1 = PublishUser p" "PublishPass p1 = PublishPass p" "PublishIPs p1 = PublishIPs p"
      using path_validate_ok(3) [OF st(2) Cons.prems(4) st(1) False Cons.prems(5)] by (auto simp: same_core_def)
    with Cons.IH [of ps1 "us @ new" p1] st(3) keys Cons.prems(2,3) False p1(1) show ?thesis by simp
  qed
qed simp

lemma any_network_v4: "length i = 4 \<Longrightarrow> IPNetworks_Contains [any_network] i"
  by (auto simp: IPNetworks_Contains_def IPNetwork_Contains_def any_network_def To4_def networkNumberAndMask_def list_all_iff
      nth_Cons' split: option.splits)

text \<open>C24.
  A deprecated publish password without a publish user protects nothing: the validation turns it into a
  user named any with a password, the combination that it refuses when it is written into the
  configuration, and the authentication of that user does not look at the password. Every request
  from an IPv4 address to publish to the path is let in.
\<close>
theorem conf_legacy_password_ignored:
  assumes "Validate env c = Inr c'" "distinct (map fst (OptionalPaths c))" "legacy c"
    and "map_of (OptionalPaths c) name = Some (Some e)" "PublishUser (PathDefaults c) = None" "PublishIPs (PathDefaults c) = None"
    and "op_PublishUser e = None" "op_PublishPass e = Some pass" "op_PublishIPs e = None"
    and "name \<noteq> []" "hd name \<noteq> CHR ''~''" "name \<noteq> ''all''" "name \<noteq> ''all_others''"
  shows "\<exists>u \<in> set (AuthInternalUsers (authentication c')). iu_User u = ''any'' \<and> iu_Pass u = pass \<and>
    (\<forall>aenv req. au_Action req = AuthActionPublish \<and> au_Path req = name \<and> length (au_IP req) = 4 \<longrightarrow>
       authenticateWithUser aenv req u)"
proof -
  obtain ps us where v: "validate_paths env (globals_of (converted c)) (legacy c) (sortedKeys (OptionalPaths c))
       (Paths (build_paths (converted c))) (AuthInternalUsers (authentication (converted c))) = Inr (ps, us)"
    "c' = (build_paths (converted c))\<lparr>Paths := ps, authentication := (authentication (converted c))\<lparr>AuthInternalUsers := us\<rparr>\<rparr>"
    using Validate_Inr [OF assms(1)] by metis
  let ?p = "newPath (PathDefaults (converted c)) e"
  have map: "Paths (build_paths (converted c)) = map (\<lambda>(n, x). (n, newPath (PathDefaults (converted c)) (fill_optional x))) (OptionalPaths c)"
    by (simp add: build_paths_def converted_fields)
  have entry: "map_of (Paths (build_paths (converted c))) name = Some ?p"
    using assms(4) by (simp add: map map_of_map fill_optional_def)
  have dist: "distinct (map fst (Paths (build_paths (converted c))))" using assms(2) by (simp add: map comp_def case_prod_unfold)
  have mem: "name \<in> set (sortedKeys (OptionalPaths c))" "distinct (sortedKeys (OptionalPaths c))"
    using assms(2) map_of_in [OF assms(4)] by (simp_all add: sortedKeys_def)
  have creds: "PublishUser ?p = None" "PublishPass ?p = Some pass" "PublishIPs ?p = None"
    using assms(5-9) by (simp_all add: newPath_def Let_def over_def converted_fields conv_record_def)
  let ?u = "credential_user AuthActionPublish name None (Some pass) None"
  from v(1) have "validate_paths env (globals_of (converted c)) True (sortedKeys (OptionalPaths c))
       (Paths (build_paths (converted c))) (AuthInternalUsers (authentication (converted c))) = Inr (ps, us)"
    using assms(3) by simp
  from validate_paths_legacy_users [OF this mem dist entry] creds have "?u \<in> set us" by simp
  moreover have "\<not> has_prefix name ''~''" using assms(10,11) by (cases name) (auto simp: has_prefix_def)
  then have "authenticateWithUser aenv req ?u" if "au_Action req = AuthActionPublish" "au_Path req = name" "length (au_IP req) = 4" for aenv req
    using that assms(10,12,13) any_network_v4
    by (simp add: authenticateWithUser_def credential_user_def matchesPermission_def permission_grants_def)
  ultimately show ?thesis using v(2) by (intro bexI [of _ ?u]) (simp_all add: credential_user_def)
qed

definition legacy_conf :: conf where
  "legacy_conf = small_conf [(''cam'', Some (empty_optional\<lparr>op_PublishPass := Some ''secret''\<rparr>))]"

theorem conf_legacy_password_ignored_witness:
  "\<exists>c' u. Validate closed_env legacy_conf = Inr c' \<and> u \<in> set (AuthInternalUsers (authentication c')) \<and>
     iu_User u = ''any'' \<and> iu_Pass u = ''secret''"
proof -
  have "case Validate closed_env legacy_conf of Inl _ \<Rightarrow> False | Inr _ \<Rightarrow> True" by code_simp
  then obtain c' where v: "Validate closed_env legacy_conf = Inr c'" by (auto split: sum.splits)
  have "legacy legacy_conf" by code_simp
  moreover have "distinct (map fst (OptionalPaths legacy_conf))"
    "map_of (OptionalPaths legacy_conf) ''cam'' = Some (Some (empty_optional\<lparr>op_PublishPass := Some ''secret''\<rparr>))"
    "PublishUser (PathDefaults legacy_conf) = None" "PublishIPs (PathDefaults legacy_conf) = None"
    by (simp_all add: legacy_conf_def small_conf_def plain_path_def)
  ultimately have "\<exists>u \<in> set (AuthInternalUsers (authentication c')). iu_User u = ''any'' \<and> iu_Pass u = ''secret''"
    using conf_legacy_password_ignored [OF v, where name = "''cam''" and pass = "''secret''"] by (auto simp: empty_optional_def)
  with v show ?thesis by blast
qed

end
