(* ===== verification/Api_Config.thy ===== *)
theory Api_Config
  imports Conf_Validate
begin

text \<open>
  The configuration part of the control API: \<^verbatim>\<open>internal/api/api_config_paths.go\<close>,
  \<^verbatim>\<open>api_config_global.go\<close>, \<^verbatim>\<open>api_config_pathdefaults.go\<close>, \<^verbatim>\<open>paginate.go\<close> and the middleware of \<^verbatim>\<open>api.go\<close>,
  and how its handlers and the loop of \<^verbatim>\<open>internal/core/core.go\<close> exchange configurations. A handler gets
  the name in the URL, the decoded body or the error of the decoder, and the current configuration;
  it returns the new configuration (the response is then OK) or an error response.
\<close>

section \<open>Pages\<close>

text \<open>\<^verbatim>\<open>strconv.ParseUint(s, 10, 31)\<close>\<close>

definition ParseUint31 :: "string \<Rightarrow> nat option" where
  "ParseUint31 s = (if s \<noteq> [] \<and> list_all is_digit s \<and> read_nat s < 2 ^ 31 then Some (read_nat s) else None)"

definition paginate2 :: "'a list \<Rightarrow> int \<Rightarrow> int \<Rightarrow> (conf_error, 'a list \<times> int) outcome" where
  "paginate2 items itemsPerPage page =
     (let itemsLen = int (length items) in
      if itemsLen = 0 then Ret (items, 0)
      else if itemsPerPage = 0 then Panic
      else
        let pageCount = itemsLen sdiv itemsPerPage + (if itemsLen smod itemsPerPage \<noteq> 0 then 1 else 0);
            minVal = min (int64 (page * itemsPerPage)) itemsLen;
            maxVal = min (int64 ((page + 1) * itemsPerPage)) itemsLen
        in obind (slice items minVal maxVal) (\<lambda>xs. Ret (xs, pageCount)))"

definition paginate :: "'a list \<Rightarrow> string \<Rightarrow> string \<Rightarrow> (conf_error, 'a list \<times> int) outcome" where
  "paginate items itemsPerPageStr pageStr =
     obind (if itemsPerPageStr = [] then Ret 100
            else case ParseUint31 itemsPerPageStr of
                   None \<Rightarrow> Fail ''invalid syntax''
                 | Some n \<Rightarrow> if n = 0 then Fail ''invalid items per page'' else Ret n)
       (\<lambda>itemsPerPage.
          obind (if pageStr = [] then Ret 0
                 else case ParseUint31 pageStr of None \<Rightarrow> Fail ''invalid syntax'' | Some n \<Rightarrow> Ret n)
            (\<lambda>page. paginate2 items (int itemsPerPage) (int page)))"

section \<open>Handlers\<close>

datatype response = StatusBadRequest conf_error | StatusNotFound conf_error | StatusUnauthorized

definition bad_request :: "conf_error + 'a \<Rightarrow> (response, 'a) outcome" where
  "bad_request r = (case r of Inl e \<Rightarrow> Fail (StatusBadRequest e) | Inr x \<Rightarrow> Ret x)"

definition path_error :: "conf_error \<Rightarrow> response" where
  "path_error e = (if e = ''path not found'' then StatusNotFound e else StatusBadRequest e)"

definition paramName :: "string \<Rightarrow> (response, string) outcome" where
  "paramName name =
     (if length name < 2 \<or> hd name \<noteq> CHR ''/'' then Fail (StatusBadRequest ''invalid name'') else Ret (tl name))"

text \<open>
  \<open>PatchGlobal\<close> copies the values that are set, none of which is \<open>PathDefaults\<close>, \<open>OptionalPaths\<close> or \<open>Paths\<close>;
  \<open>PatchPathDefaults\<close> copies values of a path.
\<close>

definition PatchGlobal :: "(conf \<Rightarrow> conf) \<Rightarrow> conf \<Rightarrow> conf" where
  "PatchGlobal values c = (values c)\<lparr>PathDefaults := PathDefaults c, OptionalPaths := OptionalPaths c, Paths := Paths c\<rparr>"

definition PatchPathDefaults :: "optional_path \<Rightarrow> conf \<Rightarrow> conf" where
  "PatchPathDefaults p c = c\<lparr>PathDefaults := newPath (PathDefaults c) p\<rparr>"

definition onConfigGlobalPatch :: "conf_env \<Rightarrow> conf_error + (conf \<Rightarrow> conf) \<Rightarrow> conf \<Rightarrow> (response, conf) outcome" where
  "onConfigGlobalPatch env body c = obind (bad_request body) (\<lambda>v. bad_request (Validate env (PatchGlobal v c)))"

definition onConfigPathDefaultsPatch :: "conf_env \<Rightarrow> conf_error + optional_path \<Rightarrow> conf \<Rightarrow> (response, conf) outcome" where
  "onConfigPathDefaultsPatch env body c =
     obind (bad_request body) (\<lambda>p. bad_request (Validate env (PatchPathDefaults p c)))"

definition onConfigPathsAdd :: "conf_env \<Rightarrow> string \<Rightarrow> conf_error + optional_path \<Rightarrow> conf \<Rightarrow> (response, conf) outcome" where
  "onConfigPathsAdd env param body c =
     obind (paramName param) (\<lambda>confName. obind (bad_request body) (\<lambda>p.
       obind (bad_request (AddPath confName p c)) (\<lambda>newConf. bad_request (Validate env newConf))))"

definition onConfigPathsPatch :: "conf_env \<Rightarrow> string \<Rightarrow> conf_error + optional_path \<Rightarrow> conf \<Rightarrow> (response, conf) outcome" where
  "onConfigPathsPatch env param body c =
     obind (paramName param) (\<lambda>confName. obind (bad_request body) (\<lambda>p.
       obind (omap_err path_error (PatchPath confName p c)) (\<lambda>newConf. bad_request (Validate env newConf))))"

definition onConfigPathsReplace :: "conf_env \<Rightarrow> string \<Rightarrow> conf_error + optional_path \<Rightarrow> conf \<Rightarrow> (response, conf) outcome" where
  "onConfigPathsReplace env param body c =
     obind (paramName param) (\<lambda>confName. obind (bad_request body) (\<lambda>p.
       bad_request (Validate env (ReplacePath confName p c))))"

definition onConfigPathsDelete :: "conf_env \<Rightarrow> string \<Rightarrow> conf \<Rightarrow> (response, conf) outcome" where
  "onConfigPathsDelete env param c =
     obind (paramName param) (\<lambda>confName.
       obind (case RemovePath confName c of Inl e \<Rightarrow> Fail (path_error e) | Inr newConf \<Rightarrow> Ret newConf)
         (\<lambda>newConf. bad_request (Validate env newConf)))"

text \<open>The two handlers that show paths; a list has the number of all items and of pages.\<close>

definition onConfigPathsList :: "string \<Rightarrow> string \<Rightarrow> conf \<Rightarrow> (response, conf_path list \<times> int \<times> int) outcome" where
  "onConfigPathsList itemsPerPage page c =
     (let items = map (\<lambda>k. the (map_of (Paths c) k)) (sortedKeys (Paths c))
      in obind (omap_err StatusBadRequest (paginate items itemsPerPage page))
           (\<lambda>(xs, pageCount). Ret (xs, int (length items), pageCount)))"

definition onConfigPathsGet :: "string \<Rightarrow> conf \<Rightarrow> (response, conf_path) outcome" where
  "onConfigPathsGet param c =
     obind (paramName param) (\<lambda>confName.
       case map_of (Paths c) confName of
         None \<Rightarrow> Fail (StatusNotFound ''path configuration not found'')
       | Some p \<Rightarrow> Ret p)"

section \<open>Requests\<close>

datatype api_call =
    GlobalPatch "conf_error + (conf \<Rightarrow> conf)"
  | PathDefaultsPatch "conf_error + optional_path"
  | PathsAdd string "conf_error + optional_path"
  | PathsPatch string "conf_error + optional_path"
  | PathsReplace string "conf_error + optional_path"
  | PathsDelete string

fun api_handle :: "conf_env \<Rightarrow> api_call \<Rightarrow> conf \<Rightarrow> (response, conf) outcome" where
  "api_handle env (GlobalPatch body) c = onConfigGlobalPatch env body c"
| "api_handle env (PathDefaultsPatch body) c = onConfigPathDefaultsPatch env body c"
| "api_handle env (PathsAdd param body) c = onConfigPathsAdd env param body c"
| "api_handle env (PathsPatch param body) c = onConfigPathsPatch env param body c"
| "api_handle env (PathsReplace param body) c = onConfigPathsReplace env param body c"
| "api_handle env (PathsDelete param) c = onConfigPathsDelete env param c"

fun is_global :: "api_call \<Rightarrow> bool" where
  "is_global (GlobalPatch _) = True"
| "is_global _ = False"

definition middlewareAuth :: "authenticator \<Rightarrow> string \<Rightarrow> credentials \<Rightarrow> ip \<Rightarrow> (response, unit) outcome" where
  "middlewareAuth au query cr addr =
     (case au \<lparr>au_Action = AuthActionAPI, au_Path = [], au_Query = query, au_Protocol = ProtocolNone, au_ID = None,
               au_UserAgent = [], au_Credentials = cr, au_IP = addr, au_CustomVerifyFunc = None\<rparr> of
        Inl _ \<Rightarrow> Fail StatusUnauthorized
      | Inr _ \<Rightarrow> Ret ())"

section \<open>The API and the core\<close>

text \<open>
  The mutex of the API is held by the handler that has stored its configuration and waits in
  \<open>APIConfigSet\<close> for the core (\<open>sending\<close>). A change of the global settings hands its configuration to a
  goroutine of its own (\<open>detached\<close>). The core is in its select statement or in \<open>reloadConf\<close> after a change
  of the file, about to call \<open>ReloadConf\<close> of the API, which takes the mutex. Left out: loads and
  reloads that fail, which end the program, and reloads that restart the API.
\<close>

datatype core_pc = CoreSelect | CoreReload conf

record node =
  core_at :: core_pc
  core_conf :: conf
  api_conf :: conf
  sending :: "conf option"
  detached :: "conf list"

definition loaded :: "conf_env \<Rightarrow> conf \<Rightarrow> bool" where
  "loaded env c \<longleftrightarrow> (\<exists>c0. Validate env c0 = Inr c \<and> distinct (map fst (OptionalPaths c0)))"

inductive node_step :: "conf_env \<Rightarrow> (api_call \<Rightarrow> bool) \<Rightarrow> node \<Rightarrow> node \<Rightarrow> bool" for env allowed where
  refused: "sending s = None \<Longrightarrow> allowed call \<Longrightarrow> api_handle env call (api_conf s) = Fail r \<Longrightarrow> node_step env allowed s s"
| changed: "sending s = None \<Longrightarrow> allowed call \<Longrightarrow> \<not> is_global call \<Longrightarrow> api_handle env call (api_conf s) = Ret c \<Longrightarrow>
    node_step env allowed s (s\<lparr>api_conf := c, sending := Some c\<rparr>)"
| changed_global: "sending s = None \<Longrightarrow> allowed call \<Longrightarrow> is_global call \<Longrightarrow> api_handle env call (api_conf s) = Ret c \<Longrightarrow>
    node_step env allowed s (s\<lparr>api_conf := c, detached := detached s @ [c]\<rparr>)"
| received: "core_at s = CoreSelect \<Longrightarrow> sending s = Some c \<Longrightarrow>
    node_step env allowed s (s\<lparr>core_conf := c, sending := None\<rparr>)"
| received_detached: "core_at s = CoreSelect \<Longrightarrow> c \<in> set (detached s) \<Longrightarrow>
    node_step env allowed s (s\<lparr>core_conf := c, detached := remove1 c (detached s)\<rparr>)"
| file_changed: "core_at s = CoreSelect \<Longrightarrow> loaded env c \<Longrightarrow> node_step env allowed s (s\<lparr>core_at := CoreReload c\<rparr>)"
| file_loaded: "core_at s = CoreReload c \<Longrightarrow> sending s = None \<Longrightarrow>
    node_step env allowed s (s\<lparr>core_at := CoreSelect, core_conf := c, api_conf := c\<rparr>)"

definition node_start :: "conf \<Rightarrow> node" where
  "node_start c = \<lparr>core_at = CoreSelect, core_conf = c, api_conf = c, sending = None, detached = []\<rparr>"

inductive node_reach :: "conf_env \<Rightarrow> (api_call \<Rightarrow> bool) \<Rightarrow> node \<Rightarrow> bool" for env allowed where
  start: "loaded env c \<Longrightarrow> node_reach env allowed (node_start c)"
| step: "node_reach env allowed s \<Longrightarrow> node_step env allowed s s' \<Longrightarrow> node_reach env allowed s'"

inductive_cases node_stepE: "node_step env allowed s s'"

section \<open>Every configuration in use is valid\<close>

fun reloading :: "core_pc \<Rightarrow> conf list" where
  "reloading CoreSelect = []"
| "reloading (CoreReload c) = [c]"

text \<open>The configurations of a node: in use, shown, on their way.\<close>

definition node_confs :: "node \<Rightarrow> conf list" where
  "node_confs s = reloading (core_at s) @ core_conf s # api_conf s # (case sending s of None \<Rightarrow> [] | Some c \<Rightarrow> [c]) @ detached s"

lemma loaded_distinct: "loaded env c \<Longrightarrow> distinct (map fst (OptionalPaths c))"
proof -
  assume "loaded env c"
  then obtain c0 where v: "Validate env c0 = Inr c" "distinct (map fst (OptionalPaths c0))" by (auto simp: loaded_def)
  obtain ps us where "c = (build_paths (converted c0))\<lparr>Paths := ps, authentication := (authentication (converted c0))\<lparr>AuthInternalUsers := us\<rparr>\<rparr>"
    using Validate_Inr [OF v(1)] by metis
  with v(2) show ?thesis by (simp add: build_paths_def converted_fields comp_def case_prod_unfold)
qed

lemma bad_request_eqs [outcome_eqs]:
  "bad_request r = Ret x \<longleftrightarrow> r = Inr x" "bad_request r = Panic \<longleftrightarrow> False"
  by (auto simp: bad_request_def split: sum.splits)

lemma case_sum_eqs [outcome_eqs]:
  "(case r of Inl e \<Rightarrow> Fail (f e) | Inr x \<Rightarrow> Ret x) = Ret y \<longleftrightarrow> r = Inr y"
  "(case r of Inl e \<Rightarrow> Fail (f e) | Inr x \<Rightarrow> Ret x) = Panic \<longleftrightarrow> False"
  by (auto split: sum.splits)

lemma paramName_eqs [outcome_eqs]: "paramName p = Panic \<longleftrightarrow> False"
  by (simp add: paramName_def)

lemma patches_keep_names [simp]:
  "OptionalPaths (PatchGlobal v c) = OptionalPaths c" "OptionalPaths (PatchPathDefaults p c) = OptionalPaths c"
  by (simp_all add: PatchGlobal_def PatchPathDefaults_def)

lemmas handler_defs = onConfigGlobalPatch_def onConfigPathDefaultsPatch_def onConfigPathsAdd_def onConfigPathsPatch_def
  onConfigPathsReplace_def onConfigPathsDelete_def

lemma path_confs_fst [simp]: "map fst (path_confs r c) = map fst (Paths c)"
  by (simp add: path_confs_def comp_def case_prod_unfold)

lemma loadedI: "Validate env c0 = Inr c \<Longrightarrow> distinct (map fst (OptionalPaths c0)) \<Longrightarrow> loaded env c"
  by (auto simp: loaded_def)

lemma handle_loaded:
  assumes "loaded env c" "api_handle env call c = Ret c'"
  shows "loaded env c'"
proof -
  note d = loaded_distinct [OF assms(1)]
  show ?thesis
    using assms(2) changes_keep_names [OF d] d
    by (cases call) (auto simp: handler_defs outcome_eqs split: sum.split_asm intro: loadedI)
qed

lemma handle_no_panic:
  assumes "loaded env c"
  shows "api_handle env call c \<noteq> Panic"
proof -
  have "PatchPath n p c \<noteq> Panic" for n p using assms patch_after_validate by (auto simp: loaded_def)
  then show ?thesis by (cases call) (auto simp: handler_defs outcome_eqs split: sum.splits)
qed

lemma node_confs_loaded: "node_reach env allowed s \<Longrightarrow> \<forall>c \<in> set (node_confs s). loaded env c"
proof (induction rule: node_reach.induct)
  case (step s s')
  from step.hyps(2) step.IH show ?case
    by (cases rule: node_step.cases)
      (auto simp: node_confs_def dest: handle_loaded set_remove1_subset [THEN subsetD] split: option.splits)
qed (simp add: node_start_def node_confs_def)

section \<open>When nothing can happen\<close>

lemma refusal_exists: "\<exists>call r. \<not> is_global call \<and> api_handle env call c = Fail r"
  by (intro exI [of _ "PathsDelete []"]) (simp add: onConfigPathsDelete_def paramName_def)

lemma stuck_iff:
  assumes "\<And>call. \<not> is_global call \<Longrightarrow> allowed call" "loaded env d"
  shows "(\<forall>s'. \<not> node_step env allowed s s') \<longleftrightarrow> (\<exists>c c'. core_at s = CoreReload c \<and> sending s = Some c')"
proof
  assume stuck: "\<forall>s'. \<not> node_step env allowed s s'"
  obtain call r where "\<not> is_global call" "api_handle env call (api_conf s) = Fail r" using refusal_exists by blast
  then have "sending s \<noteq> None" using node_step.refused [of s allowed call env r] assms(1) stuck by blast
  moreover have "core_at s \<noteq> CoreSelect" using node_step.file_changed assms(2) stuck by blast
  ultimately show "\<exists>c c'. core_at s = CoreReload c \<and> sending s = Some c'" by (cases "core_at s") auto
next
  assume "\<exists>c c'. core_at s = CoreReload c \<and> sending s = Some c'"
  then show "\<forall>s'. \<not> node_step env allowed s s'" by (auto elim!: node_stepE)
qed

section \<open>Pages\<close>

lemma page_bounds:
  fixes k p :: int
  assumes "0 < k" "k < 2 ^ 31" "0 \<le> p" "p < 2 ^ 31 \<or> p * k \<le> 2 ^ 62"
  shows "int64 (p * k) = p * k" "int64 ((p + 1) * k) = (p + 1) * k"
proof -
  have "p * k \<le> 2 ^ 62"
  proof (cases "p < 2 ^ 31")
    case True
    then have "p * k \<le> 2 ^ 31 * 2 ^ 31" using assms by (intro mult_mono) auto
    then show ?thesis by simp
  qed (use assms in simp)
  moreover have "0 \<le> p * k" using assms by simp
  ultimately show "int64 (p * k) = p * k" "int64 ((p + 1) * k) = (p + 1) * k"
    using assms(1,2) by (auto intro!: int64_eq simp: algebra_simps)
qed

lemma slice_page:
  "slice items (min (int p * int k) (int (length items))) (min ((int p + 1) * int k) (int (length items))) =
     Ret (take k (drop (p * k) items))"
proof -
  have lo: "min (int p * int k) (int (length items)) = int (min (p * k) (length items))"
    and hi: "min ((int p + 1) * int k) (int (length items)) = int (min ((p + 1) * k) (length items))"
    by (simp_all add: of_nat_min algebra_simps)
  have le: "min (p * k) (length items) \<le> min ((p + 1) * k) (length items)" by (simp add: min_def)
  have "take (min ((p + 1) * k) (length items) - min (p * k) (length items)) (drop (min (p * k) (length items)) items) =
      take k (drop (p * k) items)"
    by (cases "p * k \<le> length items") (auto simp: min_def algebra_simps)
  then show ?thesis using le unfolding lo hi slice_def by (simp add: nat_diff_distrib)
qed

lemma paginate2_page:
  assumes "0 < k" "k < 2 ^ 31" "p < 2 ^ 31 \<or> p * k \<le> 2 ^ 62"
  shows "paginate2 items (int k) (int p) = Ret (take k (drop (p * k) items), int ((length items + k - 1) div k))"
proof (cases "items = []")
  case True
  then show ?thesis using assms(1) by (simp add: paginate2_def)
next
  case False
  have b: "int64 (int p * int k) = int p * int k" "int64 ((int p + 1) * int k) = (int p + 1) * int k"
    using page_bounds [of "int k" "int p"] assms by (auto simp flip: of_nat_mult)
  let ?n = "length items"
  have count: "int ?n sdiv int k + (if int ?n smod int k \<noteq> 0 then 1 else 0) = int ((?n + k - 1) div k)"
  proof -
    have "int ?n sdiv int k = int (?n div k)" "int ?n smod int k = int (?n mod k)"
      using assms(1) False by (simp_all add: signed_divide_int_def signed_modulo_int_def zdiv_int zmod_int)
    moreover have "(?n + k - 1) div k = ?n div k + (if ?n mod k \<noteq> 0 then 1 else 0)"
    proof (cases "?n mod k = 0")
      case True
      then obtain q where q: "?n = k * q" by (metis mod_eq_0_iff_dvd dvdE)
      obtain j where j: "k = Suc j" using assms(1) by (cases k) auto
      have "?n + k - 1 = j + q * k" using q j by simp
      then have "(?n + k - 1) div k = j div k + q" using assms(1) by simp
      moreover have "j div k = 0" using j by simp
      moreover have "?n div k = q" using q assms(1) by simp
      ultimately show ?thesis using True by simp
    next
      case False
      have e: "(?n div k + 1) * k = ?n div k * k + k" by simp
      have "?n + k - 1 = (?n mod k - 1) + (?n div k + 1) * k"
        unfolding e using div_mult_mod_eq [of ?n k] False by linarith
      then have "(?n + k - 1) div k = (?n div k + 1) + (?n mod k - 1) div k"
        using div_mult_self1 [of k "?n mod k - 1" "?n div k + 1"] assms(1) by simp
      moreover have "(?n mod k - 1) div k = 0" using assms(1) mod_less_divisor [of k ?n] by (intro div_less) linarith
      ultimately show ?thesis using False by simp
    qed
    ultimately show ?thesis by simp
  qed
  show ?thesis using False assms(1) b count by (simp add: paginate2_def Let_def slice_page)
qed

lemma page_below:
  fixes n k p :: nat
  assumes "p < (n + k - 1) div k" "0 < k"
  shows "p * k \<le> n"
proof -
  have "(p + 1) * k \<le> (n + k - 1) div k * k" using assms(1) by (intro mult_le_mono1) simp
  also have "\<dots> \<le> n + k - 1" by simp
  finally show ?thesis using assms(2) by simp
qed

lemma pages_prefix:
  "concat (map (\<lambda>p. take k (drop (p * k) items)) [0..<m]) = take (m * k) items"
proof (induction m)
  case (Suc m)
  then show ?case using take_add [of "m * k" k items] by (simp add: add.commute)
qed simp

lemma pages_concat:
  assumes "0 < k"
  shows "concat (map (\<lambda>p. take k (drop (p * k) items)) [0..<(length items + k - 1) div k]) = items"
proof -
  have "length items + k - 1 < ((length items + k - 1) div k + 1) * k"
    using assms dividend_less_div_times [of k "length items + k - 1"] by (simp add: algebra_simps)
  then have "length items \<le> (length items + k - 1) div k * k" by simp
  then show ?thesis unfolding pages_prefix by simp
qed

section \<open>Properties\<close>

text \<open>C10.
  Whatever requests the API gets, whenever the file changes and in whatever order the core receives what
  is sent to it: a handler never panics, and every configuration in use, shown by the API or on its way
  to the core has passed the validation, so the path manager and the paths can work with it.
\<close>
theorem api_confs_valid:
  assumes "node_reach env allowed s"
  shows "(\<forall>call. api_handle env call (api_conf s) \<noteq> Panic) \<and>
    (\<forall>c \<in> set (node_confs s). wf_confs (path_confs r c) \<and> (\<forall>(n, k) \<in> set (path_confs r c). Name k = n \<and> conf_ok k))"
proof -
  note ok = node_confs_loaded [OF assms]
  have "loaded env (api_conf s)" using ok by (simp add: node_confs_def)
  moreover have "wf_confs (path_confs r c) \<and> (\<forall>(n, k) \<in> set (path_confs r c). Name k = n \<and> conf_ok k)" if "loaded env c" for c
  proof -
    from that obtain c0 where v: "Validate env c0 = Inr c" "distinct (map fst (OptionalPaths c0))" by (auto simp: loaded_def)
    have wf: "wf_confs (path_confs r c)" by (rule validated_confs_ok(1) [OF v])
    then have "Name k = n" if "(n, k) \<in> set (path_confs r c)" for n k using that by (auto simp: wf_confs_def list_all_iff)
    with wf show ?thesis using validated_confs_ok(2) [OF v, where r = r] by blast
  qed
  ultimately show ?thesis using handle_no_panic ok by blast
qed

text \<open>A node with one path, a request that adds another and one that changes a timeout.\<close>

definition one_path_conf :: conf where
  "one_path_conf = small_conf [(''cam'', None)]"

definition add_live :: api_call where
  "add_live = PathsAdd ''/live'' (Inr empty_optional)"

definition longer_timeout :: api_call where
  "longer_timeout = GlobalPatch (Inr (\<lambda>c. c\<lparr>general := (general c)\<lparr>ReadTimeout := 2\<rparr>\<rparr>))"

lemma one_path_requests:
  "case Validate closed_env one_path_conf of
     Inl _ \<Rightarrow> False
   | Inr c \<Rightarrow>
       (case (api_handle closed_env add_live c, api_handle closed_env longer_timeout c) of
          (Ret c1, Ret c2) \<Rightarrow>
            (case api_handle closed_env add_live c2 of
               Ret c3 \<Rightarrow> map fst (Paths c1) = [''cam'', ''live''] \<and> map fst (Paths c) = [''cam''] \<and>
                 map fst (Paths c2) = [''cam''] \<and> map fst (Paths c3) = [''cam'', ''live'']
             | _ \<Rightarrow> False)
        | _ \<Rightarrow> False)"
  by code_simp

lemma one_path_run:
  obtains c c1 c2 c3 where "loaded closed_env c" "api_handle closed_env add_live c = Ret c1"
    "api_handle closed_env longer_timeout c = Ret c2" "api_handle closed_env add_live c2 = Ret c3"
    "map fst (Paths c) = [''cam'']" "map fst (Paths c1) = [''cam'', ''live'']" "map fst (Paths c2) = [''cam'']"
    "map fst (Paths c3) = [''cam'', ''live'']"
proof -
  have "distinct (map fst (OptionalPaths one_path_conf))" by (simp add: one_path_conf_def small_conf_def)
  moreover from one_path_requests obtain c where c: "Validate closed_env one_path_conf = Inr c"
    by (cases "Validate closed_env one_path_conf") auto
  ultimately have "loaded closed_env c" by (blast intro: loadedI)
  moreover from one_path_requests c obtain c1 c2 where c12: "api_handle closed_env add_live c = Ret c1"
    "api_handle closed_env longer_timeout c = Ret c2"
    by (cases "api_handle closed_env add_live c"; cases "api_handle closed_env longer_timeout c") auto
  moreover from one_path_requests c c12 obtain c3 where "api_handle closed_env add_live c2 = Ret c3"
    by (cases "api_handle closed_env add_live c2") auto
  ultimately show thesis using one_path_requests c that [of c c1 c2 c3] by simp
qed

theorem api_confs_valid_witness:
  "\<exists>s c1 k. node_reach closed_env (\<lambda>_. True) s \<and> sending s = Some c1 \<and>
     (''live'', k) \<in> set (path_confs (\<lambda>_. ([], [])) c1) \<and> conf_ok k"
proof -
  obtain c c1 where r: "loaded closed_env c" "api_handle closed_env add_live c = Ret c1" "map fst (Paths c1) = [''cam'', ''live'']"
    by (rule one_path_run)
  have "node_step closed_env (\<lambda>_. True) (node_start c) ((node_start c)\<lparr>api_conf := c1, sending := Some c1\<rparr>)"
    by (rule node_step.changed [where call = add_live]) (use r(2) in \<open>simp_all add: node_start_def add_live_def\<close>)
  with node_reach.start [OF r(1)] have reach: "node_reach closed_env (\<lambda>_. True) ((node_start c)\<lparr>api_conf := c1, sending := Some c1\<rparr>)"
    by (rule node_reach.step)
  have "''live'' \<in> fst ` set (path_confs (\<lambda>_. ([], [])) c1)"
    using r(3) by (metis (no_types, lifting) path_confs_fst list.set_intros(1,2) set_map)
  then obtain k where k: "(''live'', k) \<in> set (path_confs (\<lambda>_. ([], [])) c1)" by force
  moreover have "c1 \<in> set (node_confs ((node_start c)\<lparr>api_conf := c1, sending := Some c1\<rparr>))" by (simp add: node_confs_def)
  ultimately have "conf_ok k" using api_confs_valid [OF reach, of "\<lambda>_. ([], [])"] by blast
  moreover have "sending ((node_start c)\<lparr>api_conf := c1, sending := Some c1\<rparr>) = Some c1" by simp
  ultimately show ?thesis using k reach by blast
qed

text \<open>C11.
  A change of paths through the API and a change of the file at the same time can stop the node for good:
  the handler waits for the core with the mutex of the API in its hand, the core waits for that mutex. From
  every state at rest such a state is reachable by a request that is accepted; and it is the only way
  a node can stop.
\<close>
theorem api_reload_deadlock:
  assumes "node_reach env (\<lambda>_. True) s" "core_at s = CoreSelect" "sending s = None"
    and "\<not> is_global call" "api_handle env call (api_conf s) = Ret c" "loaded env d"
  shows "(\<exists>t. node_reach env (\<lambda>_. True) t \<and> api_conf t = c \<and> core_conf t = core_conf s \<and>
      (\<forall>t'. \<not> node_step env (\<lambda>_. True) t t')) \<and>
    (\<forall>t. (\<forall>t'. \<not> node_step env (\<lambda>_. True) t t') \<longrightarrow>
      (\<exists>new set_by_api. core_at t = CoreReload new \<and> sending t = Some set_by_api))"
proof -
  let ?t1 = "s\<lparr>api_conf := c, sending := Some c\<rparr>" and ?t2 = "s\<lparr>api_conf := c, sending := Some c, core_at := CoreReload d\<rparr>"
  have "node_step env (\<lambda>_. True) s ?t1" using assms(3-5) by (intro node_step.changed) simp_all
  moreover have "node_step env (\<lambda>_. True) ?t1 ?t2" using node_step.file_changed [of ?t1 env d] assms(2,6) by simp
  ultimately have "node_reach env (\<lambda>_. True) ?t2" using assms(1) by (blast intro: node_reach.step)
  moreover have "\<forall>t'. \<not> node_step env (\<lambda>_. True) ?t2 t'"
    using stuck_iff [of "\<lambda>_. True" env d ?t2] assms(6) by simp
  ultimately have "\<exists>t. node_reach env (\<lambda>_. True) t \<and> api_conf t = c \<and> core_conf t = core_conf s \<and>
      (\<forall>t'. \<not> node_step env (\<lambda>_. True) t t')"
    by (intro exI [of _ ?t2]) simp
  moreover have "\<exists>new set_by_api. core_at t = CoreReload new \<and> sending t = Some set_by_api"
    if "\<forall>t'. \<not> node_step env (\<lambda>_. True) t t'" for t
    using stuck_iff [of "\<lambda>_. True" env d t] assms(6) that by simp
  ultimately show ?thesis by blast
qed

theorem api_reload_deadlock_witness:
  "\<exists>t. node_reach closed_env (\<lambda>_. True) t \<and> map fst (Paths (api_conf t)) = [''cam'', ''live''] \<and>
     map fst (Paths (core_conf t)) = [''cam''] \<and> (\<forall>t'. \<not> node_step closed_env (\<lambda>_. True) t t')"
proof -
  obtain c c1 where r: "loaded closed_env c" "api_handle closed_env add_live c = Ret c1"
    "map fst (Paths c) = [''cam'']" "map fst (Paths c1) = [''cam'', ''live'']"
    by (rule one_path_run)
  have "core_at (node_start c) = CoreSelect" "sending (node_start c) = None" "\<not> is_global add_live"
    "api_handle closed_env add_live (api_conf (node_start c)) = Ret c1"
    using r(2) by (simp_all add: node_start_def add_live_def)
  from api_reload_deadlock [OF node_reach.start [OF r(1)] this r(1)] obtain t where
    "node_reach closed_env (\<lambda>_. True) t" "api_conf t = c1" "core_conf t = core_conf (node_start c)"
    "\<forall>t'. \<not> node_step closed_env (\<lambda>_. True) t t'" by blast
  with r(3,4) show ?thesis by (intro exI [of _ t]) (simp add: node_start_def)
qed

text \<open>C25.
  As long as no request changes the global settings, the API shows what the node runs on: whenever no
  change is on its way, the configuration of the API is the one of the core.
\<close>
theorem api_core_agree:
  assumes "node_reach env (\<lambda>call. \<not> is_global call) s"
  shows "detached s = [] \<and> api_conf s = (case sending s of None \<Rightarrow> core_conf s | Some c \<Rightarrow> c)"
  using assms
proof (induction rule: node_reach.induct)
  case (step s s')
  from step.hyps(2) step.IH show ?case by (cases rule: node_step.cases) (auto split: option.splits)
qed (simp add: node_start_def)

theorem api_core_agree_witness:
  "\<exists>s. node_reach closed_env (\<lambda>call. \<not> is_global call) s \<and> map fst (Paths (api_conf s)) = [''cam'', ''live''] \<and>
     core_conf s = api_conf s"
proof -
  obtain c c1 where r: "loaded closed_env c" "api_handle closed_env add_live c = Ret c1" "map fst (Paths c1) = [''cam'', ''live'']"
    by (rule one_path_run)
  let ?s1 = "(node_start c)\<lparr>api_conf := c1, sending := Some c1\<rparr>" and ?s2 = "(node_start c)\<lparr>api_conf := c1, core_conf := c1\<rparr>"
  have "node_step closed_env (\<lambda>call. \<not> is_global call) (node_start c) ?s1"
    by (rule node_step.changed [where call = add_live]) (use r(2) in \<open>simp_all add: node_start_def add_live_def\<close>)
  moreover have "node_step closed_env (\<lambda>call. \<not> is_global call) ?s1 ?s2"
    using node_step.received [of ?s1 c1 closed_env] by (simp add: node_start_def)
  ultimately have reach: "node_reach closed_env (\<lambda>call. \<not> is_global call) ?s2"
    using node_reach.start [OF r(1)] by (blast intro: node_reach.step)
  from api_core_agree [OF this] r(3) reach show ?thesis by (intro exI [of _ ?s2]) (simp add: node_start_def)
qed

text \<open>
  With a change of the global settings this fails: its goroutine can be overtaken, and then the core
  ends on the older configuration while the API shows the newer one.
\<close>
lemma api_global_overtaken:
  "\<exists>s. node_reach closed_env (\<lambda>_. True) s \<and> core_at s = CoreSelect \<and> sending s = None \<and> detached s = [] \<and>
     map fst (Paths (api_conf s)) = [''cam'', ''live''] \<and> map fst (Paths (core_conf s)) = [''cam'']"
proof -
  obtain c c2 c3 where r: "loaded closed_env c" "api_handle closed_env longer_timeout c = Ret c2"
    "api_handle closed_env add_live c2 = Ret c3" "map fst (Paths c2) = [''cam'']" "map fst (Paths c3) = [''cam'', ''live'']"
    by (rule one_path_run)
  let ?n = "node_start c"
  note start = node_reach.start [OF r(1), of "\<lambda>_. True"]
  have "node_step closed_env (\<lambda>_. True) ?n (?n\<lparr>api_conf := c2, detached := [c2]\<rparr>)"
    using node_step.changed_global [of ?n _ longer_timeout closed_env c2] r(2) by (simp add: node_start_def longer_timeout_def)
  note 1 = node_reach.step [OF start this]
  have "node_step closed_env (\<lambda>_. True) (?n\<lparr>api_conf := c2, detached := [c2]\<rparr>) (?n\<lparr>api_conf := c3, detached := [c2], sending := Some c3\<rparr>)"
    using node_step.changed [of "?n\<lparr>api_conf := c2, detached := [c2]\<rparr>" _ add_live closed_env c3] r(3) by (simp add: node_start_def add_live_def)
  note 2 = node_reach.step [OF 1 this]
  have "node_step closed_env (\<lambda>_. True) (?n\<lparr>api_conf := c3, detached := [c2], sending := Some c3\<rparr>)
      (?n\<lparr>api_conf := c3, detached := [c2], core_conf := c3\<rparr>)"
    using node_step.received [of "?n\<lparr>api_conf := c3, detached := [c2], sending := Some c3\<rparr>" c3 closed_env] by (simp add: node_start_def)
  note 3 = node_reach.step [OF 2 this]
  have "node_step closed_env (\<lambda>_. True) (?n\<lparr>api_conf := c3, detached := [c2], core_conf := c3\<rparr>) (?n\<lparr>api_conf := c3, core_conf := c2\<rparr>)"
    using node_step.received_detached [of "?n\<lparr>api_conf := c3, detached := [c2], core_conf := c3\<rparr>" c2 closed_env] by (simp add: node_start_def)
  note 4 = node_reach.step [OF 3 this]
  show ?thesis by (intro exI [of _ "?n\<lparr>api_conf := c3, core_conf := c2\<rparr>"]) (use 4 r(4,5) in \<open>simp add: node_start_def\<close>)
qed

lemma update_fresh: "map_of xs n = None \<Longrightarrow> AList.update n v xs = xs @ [(n, v)]"
  by (induction xs) (auto split: if_splits)

lemma credentials_kept:
  "anyPathHasDeprecatedCredentials d os \<Longrightarrow> anyPathHasDeprecatedCredentials d (os @ xs)"
  by (auto simp: anyPathHasDeprecatedCredentials_def)

text \<open>Once a path has deprecated credentials, no path can be added through the API, whatever the request is.\<close>

lemma api_add_refused_with_credentials:
  assumes "Validate env c = Inr c'" "legacy c"
  shows "\<exists>e. onConfigPathsAdd env param body c' = Fail e"
proof -
  let ?os = "map (\<lambda>(n, o'). (n, Some (fill_optional o'))) (OptionalPaths c)"
  obtain ps us where v: "run_steps (global_steps env) c = Inr (converted c)"
    "validate_paths env (globals_of (converted c)) (legacy c) (sortedKeys (OptionalPaths c))
       (Paths (build_paths (converted c))) (AuthInternalUsers (authentication (converted c))) = Inr (ps, us)"
    "c' = (build_paths (converted c))\<lparr>Paths := ps, authentication := (authentication (converted c))\<lparr>AuthInternalUsers := us\<rparr>\<rparr>"
    by (rule Validate_Inr [OF assms(1)])
  obtain added where "us = AuthInternalUsers (authentication (converted c)) @ added"
    using validate_paths_users [OF v(2)] by blast
  then have us: "us = legacyAuthInternalUsers @ added" using assms(2) by (simp add: converted_fields conv_legacy_def)
  have os: "OptionalPaths c' = ?os" using v(3) by (simp add: build_paths_def converted_fields)
  have "\<exists>e. Validate env c'' = Inl e" if "AddPath n p c' = Inr c''" for n p c''
  proof -
    from that have n: "map_of ?os n = None" "c'' = c'\<lparr>OptionalPaths := ?os @ [(n, Some p)]\<rparr>"
      by (auto simp: AddPath_def os update_fresh split: if_splits)
    then have c'': "c'' = (converted c)\<lparr>OptionalPaths := ?os @ [(n, Some p)], Paths := ps,
        authentication := (authentication (converted c))\<lparr>AuthInternalUsers := legacyAuthInternalUsers @ added\<rparr>\<rparr>"
      using v(3) us by (simp add: build_paths_def)
    have "anyPathHasDeprecatedCredentials d (?os @ [(n, Some p)])" if "anyPathHasDeprecatedCredentials d (OptionalPaths c)" for d
      using that by (intro credentials_kept) (simp only: legacy_filled)
    from legacy_again [OF v(1) assms(2) this] show ?thesis unfolding c'' Validate_def by simp
  qed
  then show ?thesis
    by (cases "paramName param"; cases body) (fastforce simp: onConfigPathsAdd_def bad_request_def paramName_eqs split: sum.splits)+
qed

text \<open>C26.
  The pages of a list: for every page size a client can ask for, a request for any page number is
  answered without a panic or an overflow, the number of pages is the number of items divided by the size,
  rounded up, and the pages up to that number, put together, are the list.
\<close>
theorem api_pages_complete:
  assumes "0 < k" "k < 2 ^ 31" "length items \<le> 2 ^ 62"
  shows "(\<forall>p < 2 ^ 31. paginate items (show_nat k) (show_nat p) =
      Ret (take k (drop (p * k) items), int ((length items + k - 1) div k))) \<and>
    concat (map (\<lambda>p. case paginate2 items (int k) (int p) of Ret (xs, _) \<Rightarrow> xs | _ \<Rightarrow> []) [0..<(length items + k - 1) div k]) = items"
proof -
  have parse: "ParseUint31 (show_nat n) = (if n < 2 ^ 31 then Some n else None)" for n
    by (simp add: ParseUint31_def show_nat_digits)
  have "paginate items (show_nat k) (show_nat p) = Ret (take k (drop (p * k) items), int ((length items + k - 1) div k))"
    if "p < 2 ^ 31" for p
    using assms(1,2) that paginate2_page [of k p items] by (simp add: paginate_def parse)
  moreover have "concat (map (\<lambda>p. case paginate2 items (int k) (int p) of Ret (xs, _) \<Rightarrow> xs | _ \<Rightarrow> []) [0..<(length items + k - 1) div k]) =
      concat (map (\<lambda>p. take k (drop (p * k) items)) [0..<(length items + k - 1) div k])"
  proof (intro arg_cong [of _ _ concat] map_cong refl)
    fix p
    assume "p \<in> set [0..<(length items + k - 1) div k]"
    then have "p * k \<le> length items" by (intro page_below) (use assms(1) in simp_all)
    from this assms(3) have "p * k \<le> 2 ^ 62" by (rule order_trans)
    with paginate2_page [of k p items] assms(1,2)
    show "(case paginate2 items (int k) (int p) of Ret (xs, _) \<Rightarrow> xs | _ \<Rightarrow> []) = take k (drop (p * k) items)" by simp
  qed
  ultimately show ?thesis using pages_concat [OF assms(1), of items] by simp
qed

theorem api_pages_complete_witness:
  "paginate ''abcde'' ''2'' ''1'' = Ret (''cd'', 3)"
proof -
  have "show_nat 2 = ''2''" "show_nat 1 = ''1''" by code_simp+
  moreover have "paginate ''abcde'' (show_nat 2) (show_nat 1) = Ret (''cd'', 3)"
    using conjunct1 [OF api_pages_complete [of 2 "''abcde''"]] by simp
  ultimately show ?thesis by simp
qed

end
