(* ===== verification/Spec2Isabelle.thy ===== *)
theory Spec2Isabelle
  imports Moq_Control Moq_Reorderer Degrade Path_Manager Abr_Session Publish_Whitelist Srt_Ingest Srt_Publish
    Core_Reload Api_Config
begin

text \<open>
  A verification of the core logic of ppmmx, a media server (a fork of MediaMTX) whose nodes receive,
  route, record and deliver live streams. The sources are under \<^verbatim>\<open>src/\<close>; file names below are relative to
  \<^verbatim>\<open>src/internal\<close>.

  \<^bold>\<open>The program.\<close> A node (\<^verbatim>\<open>core/core.go\<close>) builds its resources from one configuration: the
  authentication manager, the path manager, the protocol servers, the clients of the control service.
  The path manager (\<^verbatim>\<open>core/path_manager.go\<close>) owns one path per stream name; a path (\<^verbatim>\<open>core/path.go\<close>) joins
  one source with its readers, starts and stops sources, recorder and forwarders, and keeps requests on
  hold until it can answer them. Protocol servers turn connections into publishers and readers: an SRT
  publisher passes \<^verbatim>\<open>servers/srt\<close>, a WHEP reader gets one of several simulcast layers by the
  adaptive-bitrate session of \<^verbatim>\<open>servers/webrtc\<close>, MoQ peers exchange the messages and subgroups of
  \<^verbatim>\<open>protocols/moq\<close>. The loss a publisher suffers drives the quality ladder of \<^verbatim>\<open>degrade\<close>, which tells the
  encoder to send less, and the receive latency of SRT.

  \<^bold>\<open>The language.\<close> \<open>Go_Prelude\<close> has results that are a value, an error or a panic, machine words,
  slices and readers, and the list lemmas shared by the codecs; \<open>Go_Strings\<close> the string functions
  and their laws (splitting and joining, the lexicographic order); \<open>Go_Float\<close> the double arithmetic on
  rationals with rounding to the nearest even, saturation left out because no value comes near it, the
  settings that may be infinite or NaN with the comparisons of Go, and
  \<^verbatim>\<open>time.Time\<close> as an optional number of nanoseconds. \<open>Guarded_Machine\<close>, \<open>Step_Machine\<close> and
  \<open>Reload_Machine\<close> are the interfaces behind the arguments about whole runs: locales for a loop that
  owns a state and may panic, for handlers that always return, and for a process of resources that is
  reloaded in two passes. Each is interpreted on the model of the code.

  \<^bold>\<open>Node.\<close> \<open>Core_Reload\<close> models \<open>createResources\<close>, \<open>closeResources\<close> and \<open>reloadConf\<close>: per resource
  when it is needed, the fields it reads, the resources it is given, and the condition under which a
  reload closes it. Shown: whatever is reloaded, every resource works with current values and current
  partners, except for the fields of \<open>core_stale\<close> and one reference; and these exceptions are real.

  \<^bold>\<open>Paths.\<close> \<open>Path_Conf\<close> is the path configuration as far as paths use it (\<^verbatim>\<open>conf/path.go\<close>): names, the
  search by name and expression, what can be reloaded in place. \<open>Core_Path\<close> is the path: state, every
  handler as an action that may panic, the event loop. \<open>Core_Path_Inv\<close> has the invariant and the
  weakest preconditions of the handlers, \<open>Core_Path_Loop\<close> the reachable states, the start and the end of
  the loop. The media layer may refuse any stream, and the API may start and stop recordings between two
  rounds; the invariant has a flag for runs in which a stream was refused, because the code keeps the
  refused stream. Shown: which rounds and which ends panic, and that the others do not; every request is
  answered exactly once; what waits has an armed timer; what is consistent in every reachable state, and
  what only while no stream was refused.
  \<open>Path_Manager\<close> is the manager with its reload, its idle closing and its gates. Shown: every path has
  the configuration of its name, a path is not closed while a request is on its way, a publisher passes
  whitelist and authentication.

  \<^bold>\<open>Configuration.\<close> \<open>Path_Validate\<close> models \<open>validate\<close> of \<^verbatim>\<open>conf/path.go\<close> and \<open>Conf_Validate\<close> models \<open>Validate\<close> of
  \<^verbatim>\<open>conf/conf.go\<close>: the deprecated settings that replace others, every check in the order of the code, the
  construction of the paths from defaults and entries, the users that stand for deprecated credentials, and the
  changes of the API. Shown: a validated configuration satisfies what paths and manager rely on, and (here)
  is accepted by a running manager and its paths; cameras are paired; numeric settings are in range;
  validating again changes nothing, except with deprecated credentials, where it fails.

  \<^bold>\<open>Control API.\<close> \<open>Api_Config\<close> models the handlers that show and change the configuration (\<^verbatim>\<open>api/api_config_paths.go\<close>,
  \<^verbatim>\<open>api_config_global.go\<close>, \<^verbatim>\<open>api_config_pathdefaults.go\<close>, \<^verbatim>\<open>paginate.go\<close>) and, as a step relation, the exchange
  of configurations between them, the loop of the core and changes of the file. Shown: whatever the
  order of events, no handler panics and every configuration in use has been validated; without changes of the
  global settings the API shows what the core runs on; the one state in which nothing can happen any more is
  reachable; the pages of a list are complete.

  \<^bold>\<open>Access.\<close> \<open>Auth_Manager\<close> models \<^verbatim>\<open>auth/manager.go\<close> with \<^verbatim>\<open>conf/credential.go\<close> and the networks,
  \<open>Publish_Whitelist\<close> \<^verbatim>\<open>core/publish_whitelist.go\<close>, \<open>Srt_Publish\<close> the stream identifier, the publish
  token, the passphrase and the codec checks of an SRT publisher. Shown: the exact set of names that may
  be published, the freshness of the key set, and from end to end what a publisher that gets a path
  has passed.

  \<^bold>\<open>SRT ingest.\<close> \<open>Recv_Stats\<close> models \<^verbatim>\<open>recvstats\<close>, \<open>Srt_Latency\<close> \<^verbatim>\<open>servers/srt/latency.go\<close>, \<open>Srt_Ingest\<close>
  the statistics loop and the degradation loop of \<^verbatim>\<open>servers/srt/conn.go\<close> and their composition with the
  ladder; \<open>Degrade\<close> is the ladder itself and its sharing between connections (\<^verbatim>\<open>degrade\<close>). Shown: the
  latency stays in its range, a publisher is only disconnected after sustained loss, the ladder gets
  exactly the loss of each period although the counters of the socket may restart, it refines an abstract
  ladder, keeps its cooldown, and returns to full quality in bounded time.

  \<^bold>\<open>WHEP.\<close> \<open>Forward_Layers\<close> (\<^verbatim>\<open>forward/layers.go\<close>), \<open>Track_Selector\<close> (\<^verbatim>\<open>protocols/webrtc/track_selector.go\<close>),
  \<open>Media_State\<close> (\<^verbatim>\<open>protocols/webrtc/media_state.go\<close> and the clock and queue of \<^verbatim>\<open>from_stream.go\<close>),
  \<open>Abr_Controller\<close> and \<open>Abr_Session\<close> (\<^verbatim>\<open>servers/webrtc/abr_controller.go\<close>, \<^verbatim>\<open>abr_ws_handler.go\<close>, \<^verbatim>\<open>session.go\<close>).
  Shown: the layer of the video changes at keyframes only, recommendations are confirmed, adjacent and
  accepted, timestamps are exact, a resumed video starts with an IDR.

  \<^bold>\<open>MoQ.\<close> \<open>Moq_Varint\<close>, \<open>Moq_Parameter\<close>, \<open>Moq_Property\<close>, \<open>Moq_Control\<close>, \<open>Moq_Subgroup\<close> and \<open>Moq_Reorderer\<close>
  model the packages of these names. Shown: round trips, the agreement of the two integer decoders,
  exactly when a decoder panics, limits, and the order and completeness of what the reorderer delivers.

  \<^bold>\<open>Parameters.\<close> Code that is not in the repository, and the answers of peers, are arguments: the
  matching of regular expressions, password hashes, the answers of the authentication server and of the
  key server, the verification of a JWT, the unsealing of a publish token, the results of the media
  library, the statistics of a socket, the configuration loader, the parsers of URLs and MP4 files, the
  compilation of regular expressions, the values an entry of the configuration file sets, the clock. Nothing
  is assumed of them unless a theorem says so.

  \<^bold>\<open>Hypotheses.\<close> \<open>conf_ok\<close> and \<open>wf_confs\<close> are what paths and manager rely on, proved here of every
  validated configuration; \<open>ok_event\<close> says which events can reach a path in a state (a timer that fires is armed, a static source
  announces itself only while it runs and is not ready, the offline stream of an always available path starts again); \<open>encodable\<close> bounds the sizes an encoder is given; \<open>srt_lat_ok\<close> and
  \<open>lat_config_ok\<close> ask for an increasing latency range with the initial value inside, which the code does
  not check everywhere. Each theorem with a hypothesis has a witness on a concrete input.

  \<^bold>\<open>Loops.\<close> Loops over data are structural recursions or have a measure. The flushing loop of the
  reorderer, which need not end on machine words, is a \<open>partial_function\<close> in the option type: that it
  returns is proved for group identifiers below the largest one, and that it does not for that one. Runs of the
  event loops are lists of events of any length, so no fuel is used anywhere.

  \<^bold>\<open>Not modelled.\<close> Transport, media and rendering code: sockets, QUIC, SDP, ICE, RTP and the muxers, which
  call third-party libraries at every step; the other HTTP handlers, metrics and the administration pages;
  decoding, copying and cloning of the configuration by reflection, and with it the slices that paths
  share with the defaults; SQLite stores; the vendored SRT library. The control loops are
  modelled for finite percentages, and configurations are compared as values, while a NaN that passes the
  validation is never equal to itself in Go. Integers of type int have 64 bits. Of concurrency
  only the orders in which messages reach an event loop are modelled, not memory shared under a mutex
  beyond the atomicity of the locked sections, and not the asynchronous delivery of a reload to a path.
\<close>

section \<open>The manager and its paths\<close>

lemma reload_accepted:
  assumes "path_inv f s" "pathConfCanBeUpdated (pconf s) c" "conf_ok c" "f \<longrightarrow> \<not> reload_crashes c s"
  shows "\<exists>s' e. runInner_step (EvReloadConf c) s = Some (s', e) \<and> path_inv f s' \<and> pconf s' = c"
proof -
  have "\<not> reload_crashes c s"
    using crashing_step(2) [OF assms(1), of "EvReloadConf c"] assms(2-4) by auto
  with wp_doReloadConf_conf [OF assms(1-3)] show ?thesis by (auto simp: wp_def post_def)
qed

text \<open>C18.
  From the configuration to the paths: a configuration that passes the validation can be loaded into a
  running manager, in whatever state it is. The reload does not panic and installs it; every path
  configuration it delivers goes to the current path of that name, which runs on its previous
  configuration, handles the event without a panic and then runs on the new one (once a stream was
  refused to the path: unless it has to start an fMP4 recording of the refused stream).
\<close>
theorem validated_reload_accepted:
  assumes "Validate cenv c = Inr c'" "distinct (map fst (OptionalPaths c))" "pm_reach fs au pm outs"
  shows "\<exists>pm' e. pm_doReloadConf fs (path_confs r c') pm = Some (pm', e) \<and> pathConfs pm' = path_confs r c' \<and>
    (\<forall>pa k. PathReload pa k \<in> set e \<longrightarrow>
      (\<exists>m. map_of (paths pm) (ref_name pa) = Some m \<and> m_ref m = pa \<and>
        (\<forall>f s. path_inv f s \<and> pconf s = m_conf m \<and> (f \<longrightarrow> \<not> reload_crashes k s) \<longrightarrow>
           (\<exists>s' es. runInner_step (EvReloadConf k) s = Some (s', es) \<and> path_inv f s' \<and> pconf s' = k))))"
proof -
  note wf = validated_confs_ok [OF assms(1,2), where r = r]
  from pm_reach_reload [OF assms(3) wf(1)] obtain pm' e where
    r: "pm_doReloadConf fs (path_confs r c') pm = Some (pm', e)" "pathConfs pm' = path_confs r c'" by blast
  have "\<exists>m. map_of (paths pm) (ref_name pa) = Some m \<and> m_ref m = pa \<and>
      (\<forall>f s. path_inv f s \<and> pconf s = m_conf m \<and> (f \<longrightarrow> \<not> reload_crashes k s) \<longrightarrow>
         (\<exists>s' es. runInner_step (EvReloadConf k) s = Some (s', es) \<and> path_inv f s' \<and> pconf s' = k))"
    if "PathReload pa k \<in> set e" for pa k
  proof -
    from reload_effects [OF conjunct1 [OF pm_reach_inv [OF assms(3)]] wf(1) r(1) that] obtain m where
      m: "map_of (paths pm) (ref_name pa) = Some m" "m_ref m = pa" "pathConfCanBeUpdated (m_conf m) k" "conf_ok k"
      using wf(2) by blast
    then show ?thesis using reload_accepted by metis
  qed
  with r show ?thesis by blast
qed

definition quiet_conf :: conf where
  "quiet_conf = small_conf [(''cam'', None)]"

definition recording_conf :: conf where
  "recording_conf = small_conf [(''cam'', Some (empty_optional\<lparr>op_values := (\<lambda>p. p\<lparr>Record := True\<rparr>)\<rparr>))]"

definition no_render :: renderer where
  "no_render p = ([], [])"

fun starts_recording :: "pm_eff \<Rightarrow> bool" where
  "starts_recording (PathReload pa k) = (ref_name pa = ''cam'' \<and> Record k)"
| "starts_recording _ = False"

lemma recording_reload:
  "case (Validate closed_env quiet_conf, Validate closed_env recording_conf) of
     (Inr c, Inr c') \<Rightarrow>
       (case pm_doReloadConf prefix_match (path_confs no_render c') (fst (pm_initialize (path_confs no_render c))) of
          Some (pm', [eff]) \<Rightarrow> starts_recording eff
        | _ \<Rightarrow> False)
   | _ \<Rightarrow> False"
  by code_simp

theorem validated_reload_accepted_witness:
  "\<exists>c c' pm' pa k m. Validate closed_env quiet_conf = Inr c \<and> Validate closed_env recording_conf = Inr c' \<and>
     pm_doReloadConf prefix_match (path_confs no_render c') (fst (pm_initialize (path_confs no_render c))) =
       Some (pm', [PathReload pa k]) \<and>
     ref_name pa = ''cam'' \<and> Record k \<and> map_of (paths (fst (pm_initialize (path_confs no_render c)))) ''cam'' = Some m"
proof -
  obtain c c' pm' pa k where v: "Validate closed_env quiet_conf = Inr c" "Validate closed_env recording_conf = Inr c'"
    "pm_doReloadConf prefix_match (path_confs no_render c') (fst (pm_initialize (path_confs no_render c))) =
       Some (pm', [PathReload pa k])" "ref_name pa = ''cam''" "Record k"
    using recording_reload by (auto split: sum.split_asm option.split_asm list.split_asm elim!: starts_recording.elims(2))
  have d: "distinct (map fst (OptionalPaths quiet_conf))" "distinct (map fst (OptionalPaths recording_conf))"
    by (simp_all add: quiet_conf_def recording_conf_def small_conf_def)
  have reach: "pm_reach prefix_match open_auth (fst (pm_initialize (path_confs no_render c))) []"
    by (rule pm_reach.init) (rule validated_confs_ok(1) [OF v(1) d(1)])
  have "\<exists>m. map_of (paths (fst (pm_initialize (path_confs no_render c)))) (ref_name pa) = Some m"
    using validated_reload_accepted [OF v(2) d(2) reach, of no_render] unfolding v(3) by auto
  then have "\<exists>m. map_of (paths (fst (pm_initialize (path_confs no_render c)))) ''cam'' = Some m" unfolding v(4) .
  with v show ?thesis by blast
qed

section \<open>Publishing, end to end\<close>

text \<open>
  The authenticator a core with authentication manager \<open>m\<close> gives to its path manager. (The internal
  method does not change the manager; a panic does not occur with it.)
\<close>

definition auth_of :: "auth_env \<Rightarrow> int \<Rightarrow> auth_manager \<Rightarrow> authenticator" where
  "auth_of env now m req =
     (case snd (Authenticate env now req m) of
        Ret user \<Rightarrow> Inr user
      | Fail e \<Rightarrow> Inl e
      | Panic \<Rightarrow> Inl \<lparr>Wrapped = AuthFailed, AskCredentials = False\<rparr>)"

lemma auth_of_internal:
  assumes "Method m = AuthMethodInternal" "auth_of env now m req = Inr user"
  shows "\<exists>u \<in> set (InternalUsers m). authenticateWithUser env req u"
  using assms by (auto simp: auth_of_def Authenticate_def authenticateInternal_def Let_def split: if_splits)

lemma user_conditions:
  assumes "authenticateWithUser env req u"
  shows "iu_IPs u = [] \<or> IPNetworks_Contains (iu_IPs u) (au_IP req)"
    "\<exists>p \<in> set (iu_Permissions u). permission_grants env req p"
    "iu_User u = ''any'' \<or> au_CustomVerifyFunc req \<noteq> None \<or>
     credential_Check env (iu_User u) (cr_User (au_Credentials req)) \<and>
     credential_Check env (iu_Pass u) (cr_Pass (au_Credentials req))"
  using assms
  by (auto simp: authenticateWithUser_def matchesPermission_def split: if_splits option.splits)

text \<open>C6.
  A publisher that a node with the publish whitelist and internal users gives a path has a name of
  the form application/table-view with an application of the last synchronisation, and there is a
  configured user from whose networks it comes, with a permission to publish that grants this path,
  whose user name and password it has given.
\<close>
theorem publish_end_to_end:
  assumes "adminStore pm = Some (\<lambda>name. Inr (IsStreamAllowed w name))" "Method m = AuthMethodInternal"
    and "ar_Publish req" "\<not> ar_SkipAuth req" "ar_CustomVerifyFunc req = None"
    and "pm_doAddPublisher fs (auth_of env now m) req cmp pm = (pm', e)"
    and "ResPublisherPath (Inr (pa, user)) \<in> set e"
  shows "(\<exists>app t v tail. ar_Name req = app @ ''/'' @ t @ ''-'' @ v @ tail \<and> appAllowed app w \<and>
      ident_word t \<and> ident_word v \<and> tail \<in> set codec_tails) \<and>
    (\<exists>u \<in> set (InternalUsers m).
      (iu_IPs u = [] \<or> IPNetworks_Contains (iu_IPs u) (ar_IP req)) \<and>
      (\<exists>p \<in> set (iu_Permissions u). perm_Action p = AuthActionPublish \<and>
         permission_grants env (ToAuthRequest req) p) \<and>
      (iu_User u = ''any'' \<or>
       credential_Check env (iu_User u) (cr_User (ar_Credentials req)) \<and>
       credential_Check env (iu_Pass u) (cr_Pass (ar_Credentials req))))"
proof -
  note granted = publisher_granted [OF assms(6,7)]
  from granted(1) assms(1) have "IsStreamAllowed w (ar_Name req)" by (simp add: isStreamAllowedUnsafe_def)
  then have shape: "\<exists>app t v tail. ar_Name req = app @ ''/'' @ t @ ''-'' @ v @ tail \<and> appAllowed app w \<and>
      ident_word t \<and> ident_word v \<and> tail \<in> set codec_tails"
    unfolding allowed_shape by blast
  from granted(2) assms(4) have "auth_of env now m (ToAuthRequest req) = Inr user" by (simp add: check_auth_def)
  from auth_of_internal [OF assms(2) this] obtain u where
    u: "u \<in> set (InternalUsers m)" "authenticateWithUser env (ToAuthRequest req) u" by blast
  have req: "au_IP (ToAuthRequest req) = ar_IP req" "au_Credentials (ToAuthRequest req) = ar_Credentials req"
    "au_CustomVerifyFunc (ToAuthRequest req) = None" "au_Action (ToAuthRequest req) = AuthActionPublish"
    using assms(3,5) by (simp_all add: ToAuthRequest_def)
  from user_conditions(2) [OF u(2)] obtain p where
    p: "p \<in> set (iu_Permissions u)" "permission_grants env (ToAuthRequest req) p" by blast
  then have "perm_Action p = AuthActionPublish"
    using req(4) by (auto simp: permission_grants_def split: if_splits)
  with shape u p user_conditions(1,3) [OF u(2)] show ?thesis unfolding req by blast
qed

definition studio_manager :: path_manager where
  "studio_manager =
     (fst (pm_initialize [(''~^live'', sample_conf ''~^live'' (Some ''^live''))]))
       \<lparr>adminStore := Some (\<lambda>name. Inr (IsStreamAllowed \<lparr>apps = [(''live1'', ''secret'')], onRevoked = False\<rparr> name))\<rparr>"

definition studio_auth :: auth_manager where
  "studio_auth =
     \<lparr>Method = AuthMethodInternal,
      InternalUsers = [\<lparr>iu_User = ''bob'', iu_Pass = ''pw'', iu_IPs = [\<lparr>net_IP = [10, 0, 0, 0], net_Mask = [255, 0, 0, 0]\<rparr>],
        iu_Permissions = [\<lparr>perm_Action = AuthActionPublish, perm_Path = ''live1/t1-v1''\<rparr>]\<rparr>],
      HTTPExclude = [], JWTExclude = [], JWTInHTTPQuery = None, jwksLastRefresh = None, jwtKeyFunc = None\<rparr>"

definition studio_request :: access_request where
  "studio_request =
     \<lparr>ar_Name = ''live1/t1-v1'', ar_Query = '''', ar_UserAgent = '''', ar_Publish = True, ar_SkipAuth = False,
      ar_Proto = ProtocolWebRTC, ar_ID = None,
      ar_Credentials = \<lparr>cr_User = ''bob'', cr_Pass = ''pw'', cr_Token = ''''\<rparr>, ar_IP = [10, 1, 2, 3],
      ar_CustomVerifyFunc = None\<rparr>"

lemma studio_publishes:
  "last (snd (pm_doAddPublisher prefix_match (auth_of sample_env 0 studio_auth) studio_request None studio_manager)) =
     ResPublisherPath (Inr (\<lparr>ref_id = 0, ref_name = ''live1/t1-v1''\<rparr>, ''bob''))"
  by code_simp

theorem publish_end_to_end_witness:
  "\<exists>u \<in> set (InternalUsers studio_auth). IPNetworks_Contains (iu_IPs u) (ar_IP studio_request) \<and>
     credential_Check sample_env (iu_Pass u) ''pw''"
proof -
  obtain pm' e where r:
    "pm_doAddPublisher prefix_match (auth_of sample_env 0 studio_auth) studio_request None studio_manager = (pm', e)"
    by force
  have "e \<noteq> []" using r by (auto simp: pm_doAddPublisher_def split: sum.splits if_splits prod.splits)
  then have mem: "ResPublisherPath (Inr (\<lparr>ref_id = 0, ref_name = ''live1/t1-v1''\<rparr>, ''bob'')) \<in> set e"
    using studio_publishes r by (metis last_in_set snd_conv)
  have st: "adminStore studio_manager =
      Some (\<lambda>name. Inr (IsStreamAllowed \<lparr>apps = [(''live1'', ''secret'')], onRevoked = False\<rparr> name))"
    by (simp add: studio_manager_def)
  have rq: "Method studio_auth = AuthMethodInternal" "ar_Publish studio_request" "\<not> ar_SkipAuth studio_request"
    "ar_CustomVerifyFunc studio_request = None"
    by (simp_all add: studio_auth_def studio_request_def)
  from publish_end_to_end [OF st rq r mem] show ?thesis
    by (auto simp: studio_auth_def studio_request_def)
qed

end
